(* ===== verification/Prelude.thy ===== *)
theory Prelude
  imports Main "HOL-Library.Word" "HOL-Library.Char_ord" "HOL-Library.List_Lexorder"
    "HOL-Library.AList" "HOL-Library.Multiset" "HOL-Library.Code_Target_Nat"
begin

text \<open>
  What every theory of the development shares: the collections of rewrite rules, byte
  strings, Go maps as association lists with distinct keys, and a few facts on lists.
  A Go \<open>string\<close> is a sequence of bytes, and so is HOL's \<^typ>\<open>string\<close>: a
  \<^typ>\<open>char\<close> is one byte, and the order of the imported list order is Go's byte-wise
  string comparison.
\<close>

named_theorems model_defs \<open>definitions of the model, for symbolic evaluation\<close>

section \<open>Bytes\<close>

definition code :: "char \<Rightarrow> nat" where
  "code c = of_char c"

lemma code_less [simp]: "code c < 256"
  by (cases c) (simp add: code_def)

lemma code_char_of [simp]: "n < 256 \<Longrightarrow> code (char_of n) = n"
  by (simp add: code_def)

lemma char_of_code [simp]: "char_of (code c) = c"
  by (simp add: code_def)

lemma code_inject [simp]: "code c = code d \<longleftrightarrow> c = d"
  by (simp add: code_def)

definition is_digit :: "char \<Rightarrow> bool" where
  "is_digit c \<longleftrightarrow> 48 \<le> code c \<and> code c \<le> 57"

definition is_lower :: "char \<Rightarrow> bool" where
  "is_lower c \<longleftrightarrow> 97 \<le> code c \<and> code c \<le> 122"

definition is_upper :: "char \<Rightarrow> bool" where
  "is_upper c \<longleftrightarrow> 65 \<le> code c \<and> code c \<le> 90"

definition is_ascii :: "char \<Rightarrow> bool" where
  "is_ascii c \<longleftrightarrow> code c < 128"

definition ascii_upper :: "char \<Rightarrow> char" where
  "ascii_upper c = (if is_lower c then char_of (code c - 32) else c)"

definition ascii_lower :: "char \<Rightarrow> char" where
  "ascii_lower c = (if is_upper c then char_of (code c + 32) else c)"

lemmas byte_defs = is_digit_def is_lower_def is_upper_def is_ascii_def

lemma code_ascii_upper: "code (ascii_upper c) = (if is_lower c then code c - 32 else code c)"
  by (simp add: ascii_upper_def byte_defs less_imp_diff_less)

lemma code_ascii_lower: "code (ascii_lower c) = (if is_upper c then code c + 32 else code c)"
  by (simp add: ascii_lower_def byte_defs)

lemma ascii_upper_idem [simp]: "ascii_upper (ascii_upper c) = ascii_upper c"
  using code_ascii_upper [of c] by (auto simp: ascii_upper_def [of "ascii_upper c"] byte_defs)

lemma ascii_lower_idem [simp]: "ascii_lower (ascii_lower c) = ascii_lower c"
  using code_ascii_lower [of c] by (auto simp: ascii_lower_def [of "ascii_lower c"] byte_defs)

lemma ascii_lower_upper [simp]: "ascii_lower (ascii_upper c) = ascii_lower c"
  using code_ascii_upper [of c] code_ascii_lower [of c] code_ascii_lower [of "ascii_upper c"]
  by (auto simp flip: code_inject simp: byte_defs split: if_splits)

lemma is_ascii_ascii_upper [simp]: "is_ascii (ascii_upper c) = is_ascii c"
  using code_ascii_upper [of c] by (auto simp: byte_defs split: if_splits)

lemma is_ascii_ascii_lower [simp]: "is_ascii (ascii_lower c) = is_ascii c"
  using code_ascii_lower [of c] by (auto simp: byte_defs split: if_splits)

section \<open>Go maps\<close>

text \<open>
  A Go map is an association list in which no key occurs twice (\<open>gm_wf\<close>). A read is
  \<^const>\<open>map_of\<close>, \<open>m[k] = v\<close> is \<open>gm_set\<close>. The order of the entries carries no
  meaning: an operation of the model that Go computes by ranging over a map either sorts its
  result or is stated up to the order of the entries.
\<close>

type_synonym ('k, 'v) gomap = "('k \<times> 'v) list"

definition gm_wf :: "('k, 'v) gomap \<Rightarrow> bool" where
  "gm_wf m \<longleftrightarrow> distinct (map fst m)"

definition gm_set :: "'k \<Rightarrow> 'v \<Rightarrow> ('k, 'v) gomap \<Rightarrow> ('k, 'v) gomap" where
  "gm_set k v m = AList.update k v m"

lemma gm_wf_Nil [simp]: "gm_wf []"
  by (simp add: gm_wf_def)

lemma gm_wf_set [simp]: "gm_wf m \<Longrightarrow> gm_wf (gm_set k v m)"
  by (simp add: gm_wf_def gm_set_def distinct_update)

lemma gm_get_set [simp]: "map_of (gm_set k v m) = (map_of m)(k \<mapsto> v)"
  by (simp add: gm_set_def update_conv')

lemma gm_get_Some_iff: "gm_wf m \<Longrightarrow> map_of m k = Some v \<longleftrightarrow> (k, v) \<in> set m"
  by (simp add: gm_wf_def)

lemma gm_set_fresh: "map_of m k = None \<Longrightarrow> gm_set k v m = m @ [(k, v)]"
  by (simp add: gm_set_def update_nonempty map_of_eq_None_iff)
     (induction m, auto)

lemma length_gm_set:
  "length (gm_set k v m) = (if map_of m k = None then Suc (length m) else length m)"
  by (induction m) (auto simp: gm_set_def)

section \<open>Lists\<close>

lemma list_all_map [simp]: "list_all P (map f xs) = list_all (P \<circ> f) xs"
  by (simp add: list.pred_map)

lemma list_all_takeWhile: "list_all P xs \<Longrightarrow> list_all P (takeWhile Q xs)"
  by (auto simp: list_all_iff dest: set_takeWhileD)

lemma takeWhile_dropWhile_split:
  "xs = takeWhile P xs @ dropWhile P xs"
  by simp

lemma mset_eq_sorted_unique:
  fixes xs ys :: "'a::linorder list"
  assumes "sorted xs" and "sorted ys" and "mset xs = mset ys"
  shows "xs = ys"
  using assms by (metis properties_for_sort)

end
