(* ===== verification/Go_Strings.thy ===== *)
theory Go_Strings
  imports Prelude
begin

text \<open>
  The parts of Go's standard library on strings that the service uses: UTF-8 decoding and
  encoding (\<open>unicode/utf8\<close>), \<open>strings.TrimSpace\<close>, \<open>strings.ToUpper\<close> and
  \<open>strings.ToLower\<close>, \<open>strconv.Quote\<close> (the verb \<open>%q\<close>), decimal and hexadecimal
  rendering. The Unicode tables (the case mappings and the printable characters beyond ASCII)
  are the fields of the record \<open>unicode\<close>; everything about ASCII is computed.
\<close>

record unicode =
  uc_upper :: "nat \<Rightarrow> nat"
  uc_lower :: "nat \<Rightarrow> nat"
  uc_print :: "nat \<Rightarrow> bool"

section \<open>Numbers as text\<close>

definition digit_char :: "nat \<Rightarrow> char" where
  "digit_char d = char_of (48 + d)"

fun show_nat :: "nat \<Rightarrow> string" where
  "show_nat n = (if n < 10 then [digit_char n] else show_nat (n div 10) @ [digit_char (n mod 10)])"

declare show_nat.simps [simp del]

definition show_int :: "int \<Rightarrow> string" where
  "show_int i = (if i < 0 then CHR ''-'' # show_nat (nat (- i)) else show_nat (nat i))"

definition digit_val :: "char \<Rightarrow> nat" where
  "digit_val c = code c - 48"

definition digits_val :: "string \<Rightarrow> nat" where
  "digits_val = foldl (\<lambda>n c. 10 * n + digit_val c) 0"

text \<open>Exactly \<open>w\<close> decimal digits, the low-order ones of \<open>n\<close>.\<close>

fun pad_nat :: "nat \<Rightarrow> nat \<Rightarrow> string" where
  "pad_nat 0 n = []"
| "pad_nat (Suc w) n = pad_nat w (n div 10) @ [digit_char (n mod 10)]"

definition hex_char :: "nat \<Rightarrow> char" where
  "hex_char d = (if d < 10 then char_of (48 + d) else char_of (87 + d))"

fun pad_hex :: "nat \<Rightarrow> nat \<Rightarrow> string" where
  "pad_hex 0 n = []"
| "pad_hex (Suc w) n = pad_hex w (n div 16) @ [hex_char (n mod 16)]"

lemma is_digit_digit_char [simp]: "d < 10 \<Longrightarrow> is_digit (digit_char d)"
  by (simp add: digit_char_def is_digit_def)

lemma digit_val_digit_char [simp]: "d < 10 \<Longrightarrow> digit_val (digit_char d) = d"
  by (simp add: digit_char_def digit_val_def)

lemma digit_char_digit_val [simp]: "is_digit c \<Longrightarrow> digit_char (digit_val c) = c"
  by (simp add: digit_char_def digit_val_def is_digit_def)

lemma digit_val_less [simp]: "is_digit c \<Longrightarrow> digit_val c < 10"
  unfolding digit_val_def is_digit_def by arith

lemma digits_val_Nil [simp]: "digits_val [] = 0"
  by (simp add: digits_val_def)

lemma digits_val_snoc [simp]: "digits_val (s @ [c]) = 10 * digits_val s + digit_val c"
  by (simp add: digits_val_def)

lemma digits_val_append: "digits_val (s @ t) = digits_val s * 10 ^ length t + digits_val t"
proof (induction t rule: rev_induct)
  case (snoc c t)
  have "digits_val (s @ t @ [c]) = digits_val ((s @ t) @ [c])" by simp
  then show ?case using snoc by (simp only: digits_val_snoc) (simp add: algebra_simps)
qed simp

lemma show_nat_nonempty [simp]: "show_nat n \<noteq> []"
  by (subst show_nat.simps) simp

lemma show_nat_digits [simp]: "list_all is_digit (show_nat n)"
  by (induction n rule: show_nat.induct) (subst show_nat.simps, simp)

lemma digits_val_show_nat [simp]: "digits_val (show_nat n) = n"
proof (induction n rule: show_nat.induct)
  case (1 n)
  then show ?case
    by (cases "n < 10")
       (simp_all add: show_nat.simps [of n] digits_val_snoc [of "[]", simplified])
qed

lemma show_nat_inject [simp]: "show_nat m = show_nat n \<longleftrightarrow> m = n"
  by (metis digits_val_show_nat)

lemma length_pad_nat [simp]: "length (pad_nat w n) = w"
  by (induction w arbitrary: n) auto

lemma pad_nat_digits [simp]: "list_all is_digit (pad_nat w n)"
  by (induction w arbitrary: n) auto

lemma digits_val_pad_nat: "digits_val (pad_nat w n) = n mod 10 ^ w"
proof (induction w arbitrary: n)
  case (Suc w)
  have "n mod 10 ^ Suc w = 10 * (n div 10 mod 10 ^ w) + n mod 10"
    by (simp add: mod_mult2_eq [of n 10 "10 ^ w"])
  with Suc show ?case by simp
qed simp

lemma digits_val_less: "list_all is_digit s \<Longrightarrow> digits_val s < 10 ^ length s"
proof (induction s rule: rev_induct)
  case (snoc c s)
  then have "digits_val s < 10 ^ length s" and "digit_val c < 10" by auto
  then show ?case by simp
qed simp

lemma pad_nat_digits_val: "list_all is_digit s \<Longrightarrow> pad_nat (length s) (digits_val s) = s"
proof (induction s rule: rev_induct)
  case (snoc c s)
  then have d: "digit_val c < 10" by auto
  then have "(10 * digits_val s + digit_val c) div 10 = digits_val s"
    and "(10 * digits_val s + digit_val c) mod 10 = digit_val c" by auto
  with snoc show ?case by simp
qed simp

lemma length_pad_hex [simp]: "length (pad_hex w n) = w"
  by (induction w arbitrary: n) auto

lemma hex_char_inject: "a < 16 \<Longrightarrow> b < 16 \<Longrightarrow> hex_char a = hex_char b \<longleftrightarrow> a = b"
proof -
  have "\<forall>a\<in>set [0..<16]. \<forall>b\<in>set [0..<16]. hex_char a = hex_char b \<longrightarrow> a = b" by code_simp
  moreover assume "a < 16" and "b < 16"
  then have "a \<in> set [0..<16]" and "b \<in> set [0..<16]" by simp_all
  ultimately show ?thesis by blast
qed

section \<open>UTF-8\<close>

definition rune_error :: nat where
  "rune_error = 65533"

definition cont_byte :: "char \<Rightarrow> bool" where
  "cont_byte c \<longleftrightarrow> 128 \<le> code c \<and> code c \<le> 191"

definition second_lo :: "nat \<Rightarrow> nat" where
  "second_lo x = (if x = 224 then 160 else if x = 240 then 144 else 128)"

definition second_hi :: "nat \<Rightarrow> nat" where
  "second_hi x = (if x = 237 then 159 else if x = 244 then 143 else 191)"

definition second_ok :: "nat \<Rightarrow> char \<Rightarrow> bool" where
  "second_ok x c \<longleftrightarrow> second_lo x \<le> code c \<and> code c \<le> second_hi x"

text \<open>
  \<open>utf8.DecodeRuneInString\<close>: the first rune and its width in bytes; an invalid sequence is
  the error rune with width one, the empty string the error rune with width zero.
\<close>

fun decode_rune :: "string \<Rightarrow> nat \<times> nat" where
  "decode_rune [] = (rune_error, 0)"
| "decode_rune (b0 # s) =
    (let x = code b0 in
     if x < 128 then (x, 1)
     else if 194 \<le> x \<and> x \<le> 223 then
       (case s of
          b1 # _ \<Rightarrow> if second_ok x b1 then (x mod 32 * 64 + code b1 mod 64, 2) else (rune_error, 1)
        | [] \<Rightarrow> (rune_error, 1))
     else if 224 \<le> x \<and> x \<le> 239 then
       (case s of
          b1 # b2 # _ \<Rightarrow>
            if second_ok x b1 \<and> cont_byte b2
            then (x mod 16 * 4096 + code b1 mod 64 * 64 + code b2 mod 64, 3)
            else (rune_error, 1)
        | _ \<Rightarrow> (rune_error, 1))
     else if 240 \<le> x \<and> x \<le> 244 then
       (case s of
          b1 # b2 # b3 # _ \<Rightarrow>
            if second_ok x b1 \<and> cont_byte b2 \<and> cont_byte b3
            then (x mod 8 * 262144 + code b1 mod 64 * 4096 + code b2 mod 64 * 64
                    + code b3 mod 64, 4)
            else (rune_error, 1)
        | _ \<Rightarrow> (rune_error, 1))
     else (rune_error, 1))"

definition valid_rune :: "nat \<Rightarrow> bool" where
  "valid_rune r \<longleftrightarrow> r < 55296 \<or> 57343 < r \<and> r < 1114112"

text \<open>\<open>utf8.AppendRune\<close>: an invalid rune is encoded as the error rune.\<close>

definition encode_rune :: "nat \<Rightarrow> string" where
  "encode_rune r0 =
    (let r = (if valid_rune r0 then r0 else rune_error) in
     if r < 128 then [char_of r]
     else if r < 2048 then [char_of (192 + r div 64), char_of (128 + r mod 64)]
     else if r < 65536 then
       [char_of (224 + r div 4096), char_of (128 + r div 64 mod 64), char_of (128 + r mod 64)]
     else
       [char_of (240 + r div 262144), char_of (128 + r div 4096 mod 64),
        char_of (128 + r div 64 mod 64), char_of (128 + r mod 64)])"

declare decode_rune.simps(2) [simp del]

lemma decode_rune_ascii [simp]: "is_ascii c \<Longrightarrow> decode_rune (c # s) = (code c, 1)"
  by (simp add: is_ascii_def decode_rune.simps)

lemma decode_rune_width_pos: "s \<noteq> [] \<Longrightarrow> 0 < snd (decode_rune s)"
  by (cases s) (auto simp: decode_rune.simps Let_def split: list.splits)

lemma decode_rune_width_le: "snd (decode_rune s) \<le> length s"
  by (cases s) (auto simp: decode_rune.simps Let_def split: list.splits)

text \<open>Appending an ASCII byte never completes a multi-byte rune.\<close>

lemma second_ok_high: "second_ok x c \<Longrightarrow> 128 \<le> code c"
  by (auto simp: second_ok_def second_lo_def split: if_splits)

lemma decode_rune_append_ascii:
  assumes "s \<noteq> []" and "is_ascii c"
  shows "decode_rune (s @ c # t) = decode_rune s"
proof -
  have "\<not> second_ok x c" "\<not> cont_byte c" for x
    using assms(2) second_ok_high [of x c] by (auto simp: is_ascii_def cont_byte_def)
  then show ?thesis
    using assms(1) by (cases s) (auto simp: decode_rune.simps Let_def neq_Nil_conv split: list.splits)
qed

text \<open>The runes of a string with the bytes each was read from.\<close>

function runes :: "string \<Rightarrow> (nat \<times> string) list" where
  "runes [] = []"
| "runes (b # s) =
    (case decode_rune (b # s) of (r, w) \<Rightarrow> (r, take w (b # s)) # runes (drop (w - 1) s))"
  by pat_completeness auto
termination
  by (relation "measure length") auto

lemma runes_ascii: "list_all is_ascii s \<Longrightarrow> runes s = map (\<lambda>c. (code c, [c])) s"
  by (induction s) auto

text \<open>\<open>utf8.ValidString\<close>: no byte is decoded as an invalid sequence.\<close>

definition utf8_valid :: "string \<Rightarrow> bool" where
  "utf8_valid s \<longleftrightarrow> list_all (\<lambda>(r, bs). \<not> (r = rune_error \<and> length bs = 1)) (runes s)"

lemma utf8_valid_ascii: "list_all is_ascii s \<Longrightarrow> utf8_valid s"
  by (auto simp: utf8_valid_def runes_ascii list_all_iff is_ascii_def rune_error_def)

section \<open>Case mapping\<close>

definition rune_upper :: "('a) unicode_scheme \<Rightarrow> nat \<Rightarrow> nat" where
  "rune_upper U r = (if r < 128 then code (ascii_upper (char_of r)) else uc_upper U r)"

definition rune_lower :: "('a) unicode_scheme \<Rightarrow> nat \<Rightarrow> nat" where
  "rune_lower U r = (if r < 128 then code (ascii_lower (char_of r)) else uc_lower U r)"

text \<open>
  \<open>strings.ToUpper\<close> and \<open>strings.ToLower\<close>: byte by byte on an ASCII string, otherwise
  \<open>strings.Map\<close> over the runes, which also replaces invalid bytes by the error rune.
\<close>

definition to_upper :: "('a) unicode_scheme \<Rightarrow> string \<Rightarrow> string" where
  "to_upper U s =
    (if list_all is_ascii s then map ascii_upper s
     else concat (map (encode_rune \<circ> rune_upper U \<circ> fst) (runes s)))"

definition to_lower :: "('a) unicode_scheme \<Rightarrow> string \<Rightarrow> string" where
  "to_lower U s =
    (if list_all is_ascii s then map ascii_lower s
     else concat (map (encode_rune \<circ> rune_lower U \<circ> fst) (runes s)))"

lemma to_upper_ascii [simp]: "list_all is_ascii s \<Longrightarrow> to_upper U s = map ascii_upper s"
  by (simp add: to_upper_def)

lemma to_lower_ascii [simp]: "list_all is_ascii s \<Longrightarrow> to_lower U s = map ascii_lower s"
  by (simp add: to_lower_def)

lemma to_lower_Nil [simp]: "to_lower U [] = []"
  by simp

lemma encode_rune_nonempty [simp]: "encode_rune r \<noteq> []"
  by (simp add: encode_rune_def Let_def)

lemma to_lower_eq_Nil: "to_lower U s = [] \<longleftrightarrow> s = []"
proof (cases s)
  case (Cons b t)
  then have "runes s \<noteq> []" by (simp split: prod.splits)
  then have "concat (map (encode_rune \<circ> rune_lower U \<circ> fst) (runes s)) \<noteq> []"
    by (cases "runes s") simp_all
  with Cons show ?thesis by (auto simp: to_lower_def)
qed simp

section \<open>Trimming white space\<close>

text \<open>\<open>unicode.IsSpace\<close>, the white space of Unicode.\<close>

definition is_space :: "nat \<Rightarrow> bool" where
  "is_space r \<longleftrightarrow> 9 \<le> r \<and> r \<le> 13 \<or> r = 32 \<or> r = 133 \<or> r = 160 \<or> r = 5760
     \<or> 8192 \<le> r \<and> r \<le> 8202 \<or> r = 8232 \<or> r = 8233 \<or> r = 8239 \<or> r = 8287 \<or> r = 12288"

definition ascii_space :: "char \<Rightarrow> bool" where
  "ascii_space c \<longleftrightarrow> is_ascii c \<and> is_space (code c)"

function trim_left :: "string \<Rightarrow> string" where
  "trim_left s =
    (if s \<noteq> [] \<and> is_space (fst (decode_rune s))
     then trim_left (drop (snd (decode_rune s)) s) else s)"
  by pat_completeness auto
termination
  by (relation "measure length")
    (auto simp: diff_less decode_rune_width_pos)

declare trim_left.simps [simp del]

text \<open>
  The width of the white-space rune a string ends with, zero if it ends with none: the last
  \<open>n\<close> bytes are one rune of width \<open>n\<close>, as \<open>utf8.DecodeLastRuneInString\<close> finds it.
\<close>

definition ends_with_rune :: "nat \<Rightarrow> string \<Rightarrow> bool" where
  "ends_with_rune n s \<longleftrightarrow>
    n \<le> length s \<and> snd (decode_rune (drop (length s - n) s)) = n
      \<and> is_space (fst (decode_rune (drop (length s - n) s)))"

definition trailing_space :: "string \<Rightarrow> nat" where
  "trailing_space s =
    (if ends_with_rune 1 s then 1 else if ends_with_rune 2 s then 2
     else if ends_with_rune 3 s then 3 else 0)"

function trim_right :: "string \<Rightarrow> string" where
  "trim_right s =
    (if s \<noteq> [] \<and> 0 < trailing_space s
     then trim_right (take (length s - trailing_space s) s) else s)"
  by pat_completeness auto
termination
  by (relation "measure length") (auto simp: min_def not_le)

declare trim_right.simps [simp del]

definition trim_space :: "string \<Rightarrow> string" where
  "trim_space s = trim_right (trim_left s)"

text \<open>The two loops, as one rewrite rule for a pass and one for the exit.\<close>

lemma trim_left_step:
  "s \<noteq> [] \<Longrightarrow> is_space (fst (decode_rune s))
    \<Longrightarrow> trim_left s = trim_left (drop (snd (decode_rune s)) s)"
  by (subst trim_left.simps) simp

lemma trim_left_stop: "s = [] \<or> \<not> is_space (fst (decode_rune s)) \<Longrightarrow> trim_left s = s"
  by (subst trim_left.simps) auto

lemma trim_right_step:
  "s \<noteq> [] \<Longrightarrow> 0 < trailing_space s
    \<Longrightarrow> trim_right s = trim_right (take (length s - trailing_space s) s)"
  by (subst trim_right.simps) simp

lemma trim_right_stop: "s = [] \<or> trailing_space s = 0 \<Longrightarrow> trim_right s = s"
  by (subst trim_right.simps) auto

lemma trim_left_Nil [simp]: "trim_left [] = []"
  by (simp add: trim_left.simps)

lemma trim_right_Nil [simp]: "trim_right [] = []"
  by (simp add: trim_right.simps)

lemma trim_space_Nil [simp]: "trim_space [] = []"
  by (simp add: trim_space_def)

lemma trim_left_space: "ascii_space c \<Longrightarrow> trim_left (c # s) = trim_left s"
  by (subst trim_left.simps) (simp add: ascii_space_def)

lemma trim_right_space:
  assumes "ascii_space c"
  shows "trim_right (s @ [c]) = trim_right s"
proof -
  have "trailing_space (s @ [c]) = 1"
    using assms by (simp add: trailing_space_def ends_with_rune_def ascii_space_def)
  then show ?thesis by (simp add: trim_right_step)
qed

lemma trim_left_spaces: "list_all ascii_space p \<Longrightarrow> trim_left (p @ s) = trim_left s"
  by (induction p) (auto simp: trim_left_space)

lemma trim_right_spaces: "list_all ascii_space p \<Longrightarrow> trim_right (s @ p) = trim_right s"
proof (induction p rule: rev_induct)
  case (snoc c p)
  then have "trim_right ((s @ p) @ [c]) = trim_right (s @ p)"
    by (intro trim_right_space) simp
  with snoc show ?case by simp
qed simp

lemma trim_left_append_spaces:
  assumes p: "list_all ascii_space p"
  shows "trim_left (s @ p) = (if trim_left s = [] then [] else trim_left s @ p)"
proof (induction s rule: trim_left.induct)
  case (1 s)
  show ?case
  proof (cases "s = [] \<or> p = []")
    case True
    then show ?thesis using trim_left_spaces [OF p, of "[]"] by auto
  next
    case False
    then obtain c q where q: "p = c # q" by (cases p) auto
    with p have c: "is_ascii c" by (simp add: ascii_space_def)
    from False have ne: "s \<noteq> []" by simp
    have dec: "decode_rune (s @ p) = decode_rune s"
      unfolding q by (rule decode_rune_append_ascii [OF ne c])
    have w: "snd (decode_rune s) \<le> length s" by (rule decode_rune_width_le)
    show ?thesis
    proof (cases "is_space (fst (decode_rune s))")
      case True
      then have "trim_left (s @ p) = trim_left (drop (snd (decode_rune s)) s @ p)"
        using ne w by (subst trim_left.simps) (simp add: dec)
      with True ne 1 show ?thesis by (simp add: trim_left.simps [of s])
    next
      case False
      with ne show ?thesis
        using dec trim_left.simps [of "s @ p"] trim_left.simps [of s] by simp
    qed
  qed
qed

text \<open>ASCII white space around a string never changes what trimming it gives.\<close>

lemma trim_space_spaces:
  assumes "list_all ascii_space p" and "list_all ascii_space q"
  shows "trim_space (p @ s @ q) = trim_space s"
  using trim_left_spaces [OF assms(1), of "s @ q"] trim_left_append_spaces [OF assms(2), of s]
    trim_right_spaces [OF assms(2), of "trim_left s"]
  by (simp add: trim_space_def)

text \<open>Trimming keeps a contiguous part of the string.\<close>

lemma trim_left_suffix: "\<exists>p. s = p @ trim_left s"
proof (induction s rule: trim_left.induct)
  case (1 s)
  show ?case
  proof (cases "s \<noteq> [] \<and> is_space (fst (decode_rune s))")
    case True
    let ?t = "drop (snd (decode_rune s)) s"
    from True 1 obtain p where "?t = p @ trim_left ?t" by auto
    then have "s = (take (snd (decode_rune s)) s @ p) @ trim_left ?t"
      by (metis append.assoc append_take_drop_id)
    with True show ?thesis by (metis trim_left_step)
  next
    case False
    then have "s = [] @ trim_left s" by (simp add: trim_left_stop)
    then show ?thesis ..
  qed
qed

lemma trim_right_prefix: "\<exists>q. s = trim_right s @ q"
proof (induction s rule: trim_right.induct)
  case (1 s)
  show ?case
  proof (cases "s \<noteq> [] \<and> 0 < trailing_space s")
    case True
    let ?t = "take (length s - trailing_space s) s"
    from True 1 obtain q where "?t = trim_right ?t @ q" by auto
    then have "s = trim_right ?t @ q @ drop (length s - trailing_space s) s"
      by (metis append.assoc append_take_drop_id)
    with True show ?thesis by (metis trim_right_step)
  next
    case False
    then have "s = trim_right s @ []" by (simp add: trim_right_stop)
    then show ?thesis ..
  qed
qed

lemma trim_space_infix: "\<exists>p q. s = p @ trim_space s @ q"
  unfolding trim_space_def by (metis trim_left_suffix trim_right_prefix)

lemma list_all_trim_space: "list_all P s \<Longrightarrow> list_all P (trim_space s)"
  using trim_space_infix [of s] by (metis list_all_append)

lemma trim_right_idem [simp]: "trim_right (trim_right s) = trim_right s"
proof (induction s rule: trim_right.induct)
  case (1 s)
  then show ?case
    by (cases "s \<noteq> [] \<and> 0 < trailing_space s") (auto simp: trim_right_step trim_right_stop)
qed

text \<open>
  A non-empty beginning of a string decodes to the same first rune or to an invalid byte, so
  cutting a string short never makes it start with white space; trimming is idempotent.
\<close>

lemma decode_rune_prefix:
  assumes "q \<noteq> []"
  shows "decode_rune q = decode_rune (q @ t) \<or> decode_rune q = (rune_error, 1)"
proof -
  obtain b s where q: "q = b # s" using assms by (cases q) auto
  consider "s = []" | b1 where "s = [b1]" | b1 b2 where "s = [b1, b2]"
    | b1 b2 b3 r where "s = b1 # b2 # b3 # r"
    by (cases s; cases "tl s"; cases "tl (tl s)") auto
  then show ?thesis
    by cases (simp_all add: q decode_rune.simps Let_def split: list.split)
qed

lemma rune_error_not_space [simp]: "\<not> is_space rune_error"
  by (simp add: is_space_def rune_error_def)

lemma trim_left_of_prefix:
  assumes "trim_left (q @ t) = q @ t"
  shows "trim_left q = q"
proof (cases "q = []")
  case False
  then have stop: "\<not> is_space (fst (decode_rune (q @ t)))"
  proof (intro notI)
    let ?w = "snd (decode_rune (q @ t))"
    assume sp: "is_space (fst (decode_rune (q @ t)))"
    have "trim_left (q @ t) = trim_left (drop ?w (q @ t))"
      using False sp by (intro trim_left_step) auto
    moreover have "length (trim_left (drop ?w (q @ t))) \<le> length (drop ?w (q @ t))"
      by (metis trim_left_suffix length_append le_add2)
    moreover have "0 < ?w" using False by (intro decode_rune_width_pos) simp
    ultimately show False using assms False by (auto simp: diff_le_self)
  qed
  then have "\<not> is_space (fst (decode_rune q))"
    using decode_rune_prefix [OF False, of t] by auto
  then show ?thesis by (simp add: trim_left_stop)
qed simp

lemma trim_left_idem [simp]: "trim_left (trim_left s) = trim_left s"
proof (induction s rule: trim_left.induct)
  case (1 s)
  then show ?case
    by (cases "s \<noteq> [] \<and> is_space (fst (decode_rune s))") (auto simp: trim_left_step trim_left_stop)
qed

lemma trim_space_idem [simp]: "trim_space (trim_space s) = trim_space s"
proof -
  obtain q where q: "trim_left s = trim_right (trim_left s) @ q" using trim_right_prefix by blast
  have "trim_left (trim_right (trim_left s) @ q) = trim_right (trim_left s) @ q"
    unfolding q [symmetric] by (rule trim_left_idem)
  then have "trim_left (trim_right (trim_left s)) = trim_right (trim_left s)"
    by (rule trim_left_of_prefix)
  then show ?thesis by (simp add: trim_space_def)
qed

text \<open>On ASCII strings trimming is a \<^const>\<open>dropWhile\<close> at both ends, and commutes with case.\<close>

lemma trim_left_ascii: "list_all is_ascii s \<Longrightarrow> trim_left s = dropWhile ascii_space s"
proof (induction s)
  case (Cons c s)
  then show ?case
    by (cases "ascii_space c") (simp_all add: trim_left_space trim_left_stop ascii_space_def)
qed simp

lemma ends_with_rune_ascii:
  assumes "list_all is_ascii s" and "0 < n"
  shows "ends_with_rune n s \<longleftrightarrow> n = 1 \<and> s \<noteq> [] \<and> ascii_space (last s)"
proof (cases "n \<le> length s")
  case True
  then obtain c t where ct: "drop (length s - n) s = c # t"
    using assms(2) by (cases "drop (length s - n) s") auto
  then have c: "is_ascii c" using assms(1) by (metis in_set_dropD list.set_intros(1) list_all_iff)
  show ?thesis
  proof (cases "n = 1")
    case True
    then have "s \<noteq> []" using \<open>n \<le> length s\<close> by auto
    moreover from this True have "last s = c"
      using ct \<open>n \<le> length s\<close> by (auto simp: last_conv_nth [of s] Cons_nth_drop_Suc [symmetric])
    ultimately show ?thesis
      using True ct c \<open>n \<le> length s\<close> by (simp add: ends_with_rune_def ascii_space_def)
  next
    case False
    with ct c show ?thesis by (simp add: ends_with_rune_def)
  qed
next
  case False
  with assms(2) show ?thesis by (cases s) (auto simp: ends_with_rune_def)
qed

lemma trim_right_ascii:
  "list_all is_ascii s \<Longrightarrow> trim_right s = rev (dropWhile ascii_space (rev s))"
proof (induction s rule: rev_induct)
  case (snoc c s)
  then show ?case
    by (cases "ascii_space c")
       (simp_all add: trim_right_space trim_right_stop trailing_space_def ends_with_rune_ascii)
qed simp

lemma ascii_space_upper [simp]: "ascii_space (ascii_upper c) = ascii_space c"
  using code_ascii_upper [of c]
  by (auto simp: ascii_space_def is_space_def byte_defs split: if_splits)

lemma ascii_space_lower [simp]: "ascii_space (ascii_lower c) = ascii_space c"
  using code_ascii_lower [of c]
  by (auto simp: ascii_space_def is_space_def byte_defs split: if_splits)

lemma list_all_dropWhile: "list_all P s \<Longrightarrow> list_all P (dropWhile Q s)"
  by (induction s) auto

lemma trim_space_ascii:
  "list_all is_ascii s \<Longrightarrow>
    trim_space s = rev (dropWhile ascii_space (rev (dropWhile ascii_space s)))"
  by (simp add: trim_space_def trim_left_ascii trim_right_ascii list_all_dropWhile)

lemma trim_space_map:
  assumes "list_all is_ascii s" and "\<And>c. ascii_space (f c) = ascii_space c"
    and "\<And>c. is_ascii c \<Longrightarrow> is_ascii (f c)"
  shows "trim_space (map f s) = map f (trim_space s)"
proof -
  have "list_all is_ascii (map f s)" using assms(1,3) by (auto simp: list_all_iff)
  with assms(1,2) show ?thesis
    by (simp add: trim_space_ascii rev_map dropWhile_map comp_def)
qed

section \<open>Quoting\<close>

text \<open>
  \<open>strconv.Quote\<close>: printable runes are copied, the others are escaped. The branches are in
  the order of \<open>appendEscapedRune\<close>.
\<close>

definition escape_rune :: "('a) unicode_scheme \<Rightarrow> nat \<Rightarrow> string" where
  "escape_rune U r =
    (if r = 34 \<or> r = 92 then [CHR 0x5C, char_of r]
     else if (if r < 128 then 32 \<le> r \<and> r < 127 else uc_print U r) then encode_rune r
     else if r = 7 then [CHR 0x5C, CHR ''a'']
     else if r = 8 then [CHR 0x5C, CHR ''b'']
     else if r = 12 then [CHR 0x5C, CHR ''f'']
     else if r = 10 then [CHR 0x5C, CHR ''n'']
     else if r = 13 then [CHR 0x5C, CHR ''r'']
     else if r = 9 then [CHR 0x5C, CHR ''t'']
     else if r = 11 then [CHR 0x5C, CHR ''v'']
     else if r < 32 \<or> r = 127 then [CHR 0x5C, CHR ''x''] @ pad_hex 2 r
     else if r < 65536 then [CHR 0x5C, CHR ''u''] @ pad_hex 4 r
     else [CHR 0x5C, CHR ''U''] @ pad_hex 8 r)"

definition quote_step :: "('a) unicode_scheme \<Rightarrow> nat \<times> string \<Rightarrow> string" where
  "quote_step U p =
    (case p of (r, bs) \<Rightarrow>
      if r = rune_error \<and> length bs = 1
      then [CHR 0x5C, CHR ''x''] @ pad_hex 2 (code (hd bs))
      else escape_rune U r)"

definition quote :: "('a) unicode_scheme \<Rightarrow> string \<Rightarrow> string" where
  "quote U s = [CHR 0x22] @ concat (map (quote_step U) (runes s)) @ [CHR 0x22]"

text \<open>A quoted string is at most four times as long as the string, and its quotes.\<close>

lemma length_encode_rune: "length (encode_rune n) \<le> 4"
  by (simp add: encode_rune_def Let_def)

lemma escape_rune_length:
  "length (escape_rune U n) \<le> (if n < 128 then 4 else if n < 65536 then 6 else 10)"
proof -
  have "n < 128 \<Longrightarrow> length (encode_rune n) = 1" by (simp add: encode_rune_def valid_rune_def)
  then show ?thesis
    using length_encode_rune [of n]
    unfolding escape_rune_def by (simp del: pad_hex.simps)
qed

lemma decode_rune_narrow:
  assumes "decode_rune s = (n, w)"
  shows "w \<le> 1 \<Longrightarrow> n < 128 \<or> n = rune_error" and "w \<le> 2 \<Longrightarrow> n < 65536"
proof -
  have "(w \<le> 1 \<longrightarrow> n < 128 \<or> n = rune_error) \<and> (w \<le> 2 \<longrightarrow> n < 65536)"
  proof (cases s)
    case Nil
    then show ?thesis using assms by (simp add: rune_error_def)
  next
    case (Cons b t)
    have small: "code b mod 32 * 64 + x mod 64 < 65536" for x :: nat
    proof -
      have "code b mod 32 < 32" "x mod 64 < 64" by simp_all
      then show ?thesis by linarith
    qed
    show ?thesis
      using assms small unfolding Cons decode_rune.simps Let_def
      by (auto simp: rune_error_def split: if_splits list.splits)
  qed
  then show "w \<le> 1 \<Longrightarrow> n < 128 \<or> n = rune_error" and "w \<le> 2 \<Longrightarrow> n < 65536" by blast+
qed

lemma quote_step_length:
  assumes "decode_rune s = (n, w)" and "0 < w" and "length bs = w"
  shows "length (quote_step U (n, bs)) \<le> 4 * w"
proof (cases "n = rune_error \<and> w = 1")
  case True
  then show ?thesis using assms by (simp add: quote_step_def)
next
  case False
  then have "n < 128 \<or> 2 \<le> w" "n < 65536 \<or> 3 \<le> w"
    using decode_rune_narrow [OF assms(1)] assms(2) by linarith+
  then have "(if n < 128 then 4 else if n < 65536 then 6 else 10) \<le> 4 * w"
    using assms(2) by auto
  moreover have "quote_step U (n, bs) = escape_rune U n"
    using False assms(3) by (auto simp: quote_step_def)
  ultimately show ?thesis by (metis escape_rune_length le_trans)
qed

lemma length_quote_runes: "length (concat (map (quote_step U) (runes s))) \<le> 4 * length s"
proof (induction s rule: runes.induct)
  case (2 b s)
  obtain n w where d: "decode_rune (b # s) = (n, w)" by fastforce
  have w: "0 < w" "w \<le> Suc (length s)"
    using decode_rune_width_pos [of "b # s"] decode_rune_width_le [of "b # s"] d by simp_all
  then have "length (quote_step U (n, take w (b # s))) \<le> 4 * w"
    by (intro quote_step_length [OF d]) auto
  then show ?case using 2 [OF d [symmetric]] d w by simp
qed simp

lemma length_quote: "length (quote U s) \<le> 4 * length s + 2"
  using length_quote_runes [of U s] by (simp add: quote_def)

section \<open>Evaluation\<close>

lemmas go_strings_eval [model_defs] =
  code_def is_digit_def is_lower_def is_upper_def is_ascii_def ascii_upper_def ascii_lower_def
  digit_char_def show_nat.simps show_int_def digit_val_def digits_val_def hex_char_def
  rune_error_def cont_byte_def second_lo_def second_hi_def second_ok_def decode_rune.simps
  valid_rune_def encode_rune_def rune_upper_def rune_lower_def to_upper_def to_lower_def
  is_space_def ascii_space_def trim_left.simps trim_right.simps trim_space_def
  utf8_valid_def ends_with_rune_def trailing_space_def escape_rune_def quote_step_def quote_def

end
