(* ===== verification/Labels.thy ===== *)
theory Labels
  imports Go_Strings
begin

text \<open>
  \<open>internal/platform/metrics/labels.go\<close>: the bound on the label values a producer can create.
  The set of tracked sources is a Go map to the empty struct, here a list of its keys. A call
  of \<open>label\<close> is two critical sections, the reading one (\<open>label_read\<close>) and, when the source is
  neither known nor beyond the limit, the writing one (\<open>label_write\<close>); other calls run between
  them, which the step relation of the second part states.
\<close>

definition max_tracked_sources :: int where
  "max_tracked_sources = 200"

definition max_source_label_length :: nat where
  "max_source_label_length = 64"

definition source_overflow :: string where
  "source_overflow = ''other''"

definition source_unknown :: string where
  "source_unknown = ''unknown''"

record source_labels =
  sl_seen :: "string list"
  sl_limit :: int

definition new_source_labels :: "int \<Rightarrow> source_labels" where
  "new_source_labels limit = \<lparr>sl_seen = [], sl_limit = limit\<rparr>"

section \<open>The label of a source\<close>

text \<open>A call has its answer, or goes on to the write lock with the shortened source.\<close>

datatype label_call = Answer string | Write_Lock string

definition clip_source :: "string \<Rightarrow> string" where
  "clip_source source =
    (if max_source_label_length < length source then take max_source_label_length source
     else source)"

definition sources_full :: "source_labels \<Rightarrow> bool" where
  "sources_full s \<longleftrightarrow> sl_limit s \<le> int (length (sl_seen s))"

definition label_read :: "source_labels \<Rightarrow> string \<Rightarrow> label_call" where
  "label_read s source =
    (if source = [] then Answer source_unknown
     else
       (let src = clip_source source in
        if src \<in> set (sl_seen s) then Answer src
        else if sources_full s then Answer source_overflow
        else Write_Lock src))"

definition label_write :: "source_labels \<Rightarrow> string \<Rightarrow> string \<times> source_labels" where
  "label_write s src =
    (if src \<in> set (sl_seen s) then (src, s)
     else if sources_full s then (source_overflow, s)
     else (src, s\<lparr>sl_seen := sl_seen s @ [src]\<rparr>))"

definition label :: "source_labels \<Rightarrow> string \<Rightarrow> string \<times> source_labels" where
  "label s source =
    (case label_read s source of Answer l \<Rightarrow> (l, s) | Write_Lock src \<Rightarrow> label_write s src)"

definition tracked :: "source_labels \<Rightarrow> nat" where
  "tracked s = length (sl_seen s)"

lemmas labels_eval [model_defs] =
  max_tracked_sources_def max_source_label_length_def source_overflow_def source_unknown_def
  new_source_labels_def clip_source_def sources_full_def label_read_def label_write_def
  label_def tracked_def

section \<open>Calls one after the other\<close>

fun label_all :: "source_labels \<Rightarrow> string list \<Rightarrow> string list \<times> source_labels" where
  "label_all s [] = ([], s)"
| "label_all s (x # xs) =
    (let (l, s1) = label s x; (ls, s2) = label_all s1 xs in (l # ls, s2))"

lemma clip_source_eq: "clip_source s = take 64 s"
  by (simp add: clip_source_def max_source_label_length_def)

lemma label_eq:
  "label s source =
    (if source = [] then (source_unknown, s)
     else if take 64 source \<in> set (sl_seen s) then (take 64 source, s)
     else if sources_full s then (source_overflow, s)
     else (take 64 source, s\<lparr>sl_seen := sl_seen s @ [take 64 source]\<rparr>))"
  by (simp add: label_def label_read_def label_write_def clip_source_eq Let_def)

text \<open>The reference: the different shortened sources in the order they first occur.\<close>

fun add_first :: "'a list \<Rightarrow> 'a list \<Rightarrow> 'a list" where
  "add_first acc [] = acc"
| "add_first acc (x # xs) = add_first (if x \<in> set acc then acc else acc @ [x]) xs"

definition first_sources :: "string list \<Rightarrow> string list" where
  "first_sources xs = add_first [] (map (take 64) (filter (\<lambda>x. x \<noteq> []) xs))"

lemma add_first_prefix: "\<exists>zs. add_first acc xs = acc @ zs"
  by (induction xs arbitrary: acc) (auto, metis append_assoc)

lemma add_first_distinct: "distinct acc \<Longrightarrow> distinct (add_first acc xs)"
  by (induction xs arbitrary: acc) auto

lemma set_add_first: "set (add_first acc xs) = set acc \<union> set xs"
  by (induction xs arbitrary: acc) auto

lemma take_add_first: "n \<le> length acc \<Longrightarrow> take n (add_first acc xs) = take n acc"
  using add_first_prefix [of acc xs] by auto

text \<open>What \<open>n\<close> slots keep of the sources, and the answer a set of kept sources gives.\<close>

definition kept_sources :: "int \<Rightarrow> string list \<Rightarrow> string list" where
  "kept_sources limit xs = take (nat limit) (first_sources xs)"

definition answer_of :: "string list \<Rightarrow> string \<Rightarrow> string" where
  "answer_of kept x =
    (if x = [] then source_unknown
     else if take 64 x \<in> set kept then take 64 x else source_overflow)"

lemma label_all_from:
  assumes "length (sl_seen s) \<le> nat (sl_limit s)"
  shows "label_all s xs =
    (let kept = take (nat (sl_limit s))
           (add_first (sl_seen s) (map (take 64) (filter (\<lambda>x. x \<noteq> []) xs)))
     in (map (answer_of kept) xs, s\<lparr>sl_seen := kept\<rparr>))"
  using assms
proof (induction xs arbitrary: s)
  case Nil
  then show ?case by simp
next
  case (Cons x xs)
  let ?n = "nat (sl_limit s)" and ?y = "take 64 x"
  let ?rest = "map (take 64) (filter (\<lambda>x. x \<noteq> []) xs)"
  note len = Cons.prems
  consider "x = []" | "x \<noteq> []" "?y \<in> set (sl_seen s)"
    | "x \<noteq> []" "?y \<notin> set (sl_seen s)" "sources_full s"
    | "x \<noteq> []" "?y \<notin> set (sl_seen s)" "\<not> sources_full s" by blast
  then show ?case
  proof cases
    case 1
    then show ?thesis using Cons.IH [OF len] by (simp add: label_eq answer_of_def Let_def)
  next
    case 2
    have "set (sl_seen s) \<subseteq> set (take ?n (add_first (sl_seen s) ?rest))"
      using add_first_prefix [of "sl_seen s" ?rest] len by auto
    then have "?y \<in> set (take ?n (add_first (sl_seen s) ?rest))" using 2 by blast
    then show ?thesis using 2 Cons.IH [OF len] by (simp add: label_eq answer_of_def Let_def)
  next
    case 3
    have n: "?n = length (sl_seen s)" using 3(3) len unfolding sources_full_def by linarith
    have kept: "take ?n (add_first (sl_seen s) zs) = sl_seen s"
        "take ?n (add_first (sl_seen s @ [?y]) zs) = sl_seen s" for zs
      using take_add_first [of ?n "sl_seen s" zs] take_add_first [of ?n "sl_seen s @ [?y]" zs]
      by (simp_all add: n)
    then show ?thesis using 3 Cons.IH [OF len] by (simp add: label_eq answer_of_def Let_def)
  next
    case 4
    let ?s = "s\<lparr>sl_seen := sl_seen s @ [?y]\<rparr>"
    have len': "length (sl_seen ?s) \<le> nat (sl_limit ?s)"
      using 4(3) unfolding sources_full_def by simp
    obtain zs where "add_first (sl_seen ?s) ?rest = sl_seen ?s @ zs"
      using add_first_prefix by blast
    then have "take ?n (add_first (sl_seen ?s) ?rest)
        = sl_seen ?s @ take (?n - length (sl_seen ?s)) zs"
      using len' by (simp only: take_append) simp
    then have "?y \<in> set (take ?n (add_first (sl_seen s @ [?y]) ?rest))" by auto
    then show ?thesis using 4 Cons.IH [OF len'] by (simp add: label_eq answer_of_def Let_def)
  qed
qed

lemma label_all_new:
  "label_all (new_source_labels limit) xs =
    (map (answer_of (kept_sources limit xs)) xs,
     \<lparr>sl_seen = kept_sources limit xs, sl_limit = limit\<rparr>)"
  by (simp add: label_all_from new_source_labels_def kept_sources_def first_sources_def Let_def)

lemma label_all_snoc:
  "label_all s (xs @ [x]) =
    (let (ls, s1) = label_all s xs; (l, s2) = label s1 x in (ls @ [l], s2))"
  by (induction xs arbitrary: s) (simp_all add: Let_def case_prod_beta)

lemma length_label_all [simp]: "length (fst (label_all s xs)) = length xs"
  by (induction xs arbitrary: s) (simp_all add: Let_def case_prod_beta)

lemma length_kept_sources: "length (kept_sources limit xs) \<le> nat limit"
  by (simp add: kept_sources_def)

lemma distinct_kept_sources: "distinct (kept_sources limit xs)"
  by (simp add: kept_sources_def first_sources_def add_first_distinct)

lemma answer_of_range: "answer_of kept x \<in> insert source_unknown (insert source_overflow (set kept))"
  by (simp add: answer_of_def)

section \<open>Calls at the same time\<close>

text \<open>
  A goroutine in a call: before its read lock, before its write lock with the shortened source,
  or back with the label.
\<close>

datatype label_phase = Started | Waiting string | Returned string

record label_thread =
  lt_source :: string
  lt_phase :: label_phase

type_synonym label_state = "source_labels \<times> label_thread list"

definition start_calls :: "string list \<Rightarrow> label_thread list" where
  "start_calls xs = map (\<lambda>x. \<lparr>lt_source = x, lt_phase = Started\<rparr>) xs"

inductive label_step :: "label_state \<Rightarrow> label_state \<Rightarrow> bool" where
  step_answer:
    "i < length ts \<Longrightarrow> lt_phase (ts ! i) = Started \<Longrightarrow> label_read s (lt_source (ts ! i)) = Answer l
      \<Longrightarrow> label_step (s, ts) (s, ts[i := (ts ! i)\<lparr>lt_phase := Returned l\<rparr>])"
| step_wait:
    "i < length ts \<Longrightarrow> lt_phase (ts ! i) = Started
      \<Longrightarrow> label_read s (lt_source (ts ! i)) = Write_Lock src
      \<Longrightarrow> label_step (s, ts) (s, ts[i := (ts ! i)\<lparr>lt_phase := Waiting src\<rparr>])"
| step_write:
    "i < length ts \<Longrightarrow> lt_phase (ts ! i) = Waiting src \<Longrightarrow> label_write s src = (l, s')
      \<Longrightarrow> label_step (s, ts) (s', ts[i := (ts ! i)\<lparr>lt_phase := Returned l\<rparr>])"

inductive_cases label_stepE: "label_step (s, ts) (s', ts')"

inductive label_reach :: "label_state \<Rightarrow> label_state \<Rightarrow> bool" for c0 :: label_state where
  reach_start: "label_reach c0 c0"
| reach_step: "label_reach c0 c \<Longrightarrow> label_step c c' \<Longrightarrow> label_reach c0 c'"

definition has_returned :: "label_thread \<Rightarrow> bool" where
  "has_returned t = (case lt_phase t of Returned _ \<Rightarrow> True | _ \<Rightarrow> False)"

definition returned_label :: "label_thread \<Rightarrow> string" where
  "returned_label t = (case lt_phase t of Returned l \<Rightarrow> l | _ \<Rightarrow> [])"

text \<open>
  A section that ends a call does what the whole call would do at that moment, whatever was seen
  by its read section.
\<close>

lemma label_read_answer: "label_read s x = Answer l \<Longrightarrow> label s x = (l, s)"
  by (simp add: label_def)

lemma label_read_wait: "label_read s x = Write_Lock src \<Longrightarrow> x \<noteq> [] \<and> src = take 64 x"
  by (auto simp: label_read_def clip_source_eq Let_def split: if_splits)

lemma label_write_label: "x \<noteq> [] \<Longrightarrow> label_write s (take 64 x) = label s x"
  by (simp add: label_eq label_write_def)

text \<open>
  The order in which the calls that have returned took effect explains what they returned and
  the state they left.
\<close>

definition linear_in :: "source_labels \<Rightarrow> string list \<Rightarrow> label_state \<Rightarrow> nat list \<Rightarrow> bool" where
  "linear_in s0 xs c order \<longleftrightarrow>
    distinct order \<and> set order = {i. i < length (snd c) \<and> has_returned (snd c ! i)}
    \<and> label_all s0 (map (\<lambda>i. xs ! i) order)
        = (map (\<lambda>i. returned_label (snd c ! i)) order, fst c)"

definition threads_ok :: "string list \<Rightarrow> label_thread list \<Rightarrow> bool" where
  "threads_ok xs ts \<longleftrightarrow> map lt_source ts = xs \<and>
    (\<forall>i src. i < length ts \<longrightarrow> lt_phase (ts ! i) = Waiting src \<longrightarrow>
      xs ! i \<noteq> [] \<and> src = take 64 (xs ! i))"

lemma threads_ok_source: "threads_ok xs ts \<Longrightarrow> i < length ts \<Longrightarrow> lt_source (ts ! i) = xs ! i"
  by (metis nth_map threads_ok_def)

lemma threads_ok_update:
  assumes "threads_ok xs ts" and "i < length ts"
    and "\<And>src. p = Waiting src \<Longrightarrow> xs ! i \<noteq> [] \<and> src = take 64 (xs ! i)"
  shows "threads_ok xs (ts[i := (ts ! i)\<lparr>lt_phase := p\<rparr>])"
proof -
  have "map lt_source (ts[i := (ts ! i)\<lparr>lt_phase := p\<rparr>]) = map lt_source ts"
    using assms(2) by (simp add: map_update list_update_same_conv)
  then show ?thesis using assms by (auto simp: threads_ok_def nth_list_update)
qed

lemma linear_return:
  assumes "linear_in s0 xs (s, ts) order" and "i < length ts" and "\<not> has_returned (ts ! i)"
    and "label s (xs ! i) = (l, s')"
  shows "linear_in s0 xs (s', ts[i := (ts ! i)\<lparr>lt_phase := Returned l\<rparr>]) (order @ [i])"
proof -
  let ?ts = "ts[i := (ts ! i)\<lparr>lt_phase := Returned l\<rparr>]"
  have fresh: "i \<notin> set order" using assms(1,3) by (auto simp: linear_in_def)
  then have same: "map (\<lambda>j. returned_label (?ts ! j)) order
      = map (\<lambda>j. returned_label (ts ! j)) order"
    by (intro map_cong refl) (metis nth_list_update_neq)
  have "set (order @ [i]) = {j. j < length ?ts \<and> has_returned (?ts ! j)}"
    using assms(1,2) by (auto simp: linear_in_def nth_list_update has_returned_def)
  then show ?thesis
    using assms fresh same
    by (simp add: linear_in_def label_all_snoc returned_label_def Let_def)
qed

lemma linear_wait:
  assumes "linear_in s0 xs (s, ts) order" and "lt_phase (ts ! i) = Started"
  shows "linear_in s0 xs (s, ts[i := (ts ! i)\<lparr>lt_phase := Waiting src\<rparr>]) order"
proof -
  let ?ts = "ts[i := (ts ! i)\<lparr>lt_phase := Waiting src\<rparr>]"
  have eq: "has_returned (?ts ! j) = has_returned (ts ! j)"
      "returned_label (?ts ! j) = returned_label (ts ! j)" if "j < length ts" for j
    using that assms(2)
    by (cases "j = i"; simp add: has_returned_def returned_label_def)+
  have "j < length ts" if "j \<in> set order" for j using assms(1) that by (auto simp: linear_in_def)
  then have "map (\<lambda>j. returned_label (?ts ! j)) order = map (\<lambda>j. returned_label (ts ! j)) order"
    using eq by simp
  then show ?thesis using assms(1) eq by (auto simp: linear_in_def)
qed

lemma label_step_linear:
  assumes "label_step c c'" and "threads_ok xs (snd c)" and "linear_in s0 xs c order"
  shows "threads_ok xs (snd c') \<and> (\<exists>order'. linear_in s0 xs c' order')"
  using assms
proof (induction rule: label_step.induct)
  case (step_answer i ts s l)
  then have "\<not> has_returned (ts ! i)" by (simp add: has_returned_def)
  moreover have "label s (xs ! i) = (l, s)"
    using step_answer threads_ok_source by (metis label_read_answer snd_conv)
  ultimately show ?case
    using step_answer linear_return threads_ok_update
    by (metis label_phase.distinct(5) snd_conv)
next
  case (step_wait i ts s src)
  then have "xs ! i \<noteq> [] \<and> src = take 64 (xs ! i)"
    using label_read_wait threads_ok_source by (metis snd_conv)
  then show ?case
    using step_wait linear_wait threads_ok_update by (metis label_phase.inject(1) snd_conv)
next
  case (step_write i ts src s l s')
  then have "\<not> has_returned (ts ! i)" by (simp add: has_returned_def)
  moreover have "label s (xs ! i) = (l, s')"
    using step_write label_write_label [of "xs ! i" s] by (simp add: threads_ok_def)
  ultimately show ?case
    using step_write linear_return threads_ok_update
    by (metis label_phase.distinct(5) snd_conv)
qed

lemma label_reach_linear:
  assumes "label_reach (s0, start_calls xs) c"
  shows "threads_ok xs (snd c) \<and> (\<exists>order. linear_in s0 xs c order)"
  using assms
proof induction
  case reach_start
  have "linear_in s0 xs (s0, start_calls xs) []"
    by (simp add: linear_in_def start_calls_def has_returned_def)
  moreover have "threads_ok xs (start_calls xs)"
    by (simp add: threads_ok_def start_calls_def comp_def)
  ultimately show ?case by auto
next
  case (reach_step c c')
  then show ?case using label_step_linear by blast
qed

lemma linear_in_new:
  assumes "linear_in (new_source_labels limit) xs (s, ts) order"
  shows "distinct order" and "set order = {i. i < length ts \<and> has_returned (ts ! i)}"
    and "sl_seen s = kept_sources limit (map (\<lambda>i. xs ! i) order)"
    and "i \<in> set order \<Longrightarrow> returned_label (ts ! i) = answer_of (sl_seen s) (xs ! i)"
  using assms by (cases s; auto simp: linear_in_def label_all_new)+

section \<open>A source the shortening breaks\<close>

text \<open>The letter e with an acute accent is the two bytes \<open>C3 A9\<close>.\<close>

definition e_acute :: string where
  "e_acute = [CHR 0xC3, CHR 0xA9]"

definition accented_source :: string where
  "accented_source = CHR ''a'' # concat (replicate 32 e_acute)"

lemma runes_e_acute: "runes (e_acute @ s) = (233, e_acute) # runes s"
  by (simp add: e_acute_def decode_rune.simps second_ok_def second_lo_def second_hi_def code_def)

lemma runes_accented: "runes (concat (replicate n e_acute) @ s) = replicate n (233, e_acute) @ runes s"
  by (induction n) (simp_all add: runes_e_acute)

lemma runes_a: "runes (CHR ''a'' # s) = (97, ''a'') # runes s"
  by (simp add: is_ascii_def code_def)

lemma take_accented: "take (2 * n) (concat (replicate (n + m) e_acute)) = concat (replicate n e_acute)"
  by (induction n) (simp_all add: e_acute_def)

lemma accented_source_runes: "runes accented_source = (97, ''a'') # replicate 32 (233, e_acute)"
  using runes_accented [of 32 "[]"] by (simp add: accented_source_def runes_a del: runes.simps(2))

lemma accented_source_cut:
  "take 64 accented_source = CHR ''a'' # concat (replicate 31 e_acute) @ [CHR 0xC3]"
  by (simp add: accented_source_def e_acute_def numeral_eq_Suc)

lemma accented_source_cut_runes:
  "runes (take 64 accented_source)
    = (97, ''a'') # replicate 31 (233, e_acute) @ [(rune_error, [CHR 0xC3])]"
proof -
  have "runes [CHR 0xC3] = [(rune_error, [CHR 0xC3])]"
    by (simp add: decode_rune.simps code_def)
  then show ?thesis
    unfolding accented_source_cut by (simp add: runes_a runes_accented del: runes.simps(2))
qed

section \<open>Properties\<close>

text \<open>C23: Calls of \<open>label\<close> may overlap in any way: there is an order of the calls that have
  returned in which, one after the other, they leave the same set of tracked sources, which is
  the first \<open>limit\<close> different shortened sources of that order, and each returned its own source
  when that is tracked and the overflow label otherwise.\<close>

theorem labels_linearizable:
  assumes "label_reach (new_source_labels limit, start_calls xs) (s, ts)"
  shows "\<exists>order. distinct order \<and> set order = {i. i < length ts \<and> has_returned (ts ! i)}
    \<and> sl_seen s = kept_sources limit (map (\<lambda>i. xs ! i) order)
    \<and> (\<forall>i \<in> set order. returned_label (ts ! i) = answer_of (sl_seen s) (xs ! i))"
proof -
  obtain order where "linear_in (new_source_labels limit) xs (s, ts) order"
    using label_reach_linear [OF assms] by blast
  from linear_in_new [OF this] show ?thesis by blast
qed

text \<open>Two producers race for one slot: both read before either writes.\<close>

definition race :: "string list" where
  "race = [''lane-1'', ''lane-2'']"

definition race_end :: label_state where
  "race_end = (\<lparr>sl_seen = [''lane-1''], sl_limit = 1\<rparr>,
    [\<lparr>lt_source = ''lane-1'', lt_phase = Returned ''lane-1''\<rparr>,
     \<lparr>lt_source = ''lane-2'', lt_phase = Returned source_overflow\<rparr>])"

lemma race_reached: "label_reach (new_source_labels 1, start_calls race) race_end"
proof -
  let ?a = "\<lambda>p. \<lparr>lt_source = ''lane-1'', lt_phase = p\<rparr>"
  let ?b = "\<lambda>p. \<lparr>lt_source = ''lane-2'', lt_phase = p\<rparr>"
  let ?s0 = "new_source_labels 1" and ?s1 = "\<lparr>sl_seen = [''lane-1''], sl_limit = 1\<rparr>"
  note evals = labels_eval
  have 0: "start_calls race = [?a Started, ?b Started]" by (simp add: start_calls_def race_def)
  have "label_step (?s0, [?a Started, ?b Started]) (?s0, [?a (Waiting ''lane-1''), ?b Started])"
    using step_wait [of 0 "[?a Started, ?b Started]" ?s0 "''lane-1''"] by (simp add: evals)
  moreover have "label_step (?s0, [?a (Waiting ''lane-1''), ?b Started])
      (?s0, [?a (Waiting ''lane-1''), ?b (Waiting ''lane-2'')])"
    using step_wait [of 1 "[?a (Waiting ''lane-1''), ?b Started]" ?s0 "''lane-2''"]
    by (simp add: evals)
  moreover have "label_step (?s0, [?a (Waiting ''lane-1''), ?b (Waiting ''lane-2'')])
      (?s1, [?a (Returned ''lane-1''), ?b (Waiting ''lane-2'')])"
    using step_write [of 0 "[?a (Waiting ''lane-1''), ?b (Waiting ''lane-2'')]" "''lane-1''" ?s0]
    by (simp add: evals)
  moreover have "label_step (?s1, [?a (Returned ''lane-1''), ?b (Waiting ''lane-2'')]) race_end"
    using step_write [of 1 "[?a (Returned ''lane-1''), ?b (Waiting ''lane-2'')]" "''lane-2''" ?s1]
    by (simp add: evals race_end_def)
  ultimately show ?thesis unfolding 0 by (meson reach_start reach_step)
qed

theorem labels_linearizable_witness:
  "\<exists>order. distinct order \<and> set order = {i. i < length (snd race_end) \<and> has_returned (snd race_end ! i)}
    \<and> sl_seen (fst race_end) = kept_sources 1 (map (\<lambda>i. race ! i) order)
    \<and> (\<forall>i \<in> set order. returned_label (snd race_end ! i) = answer_of (sl_seen (fst race_end)) (race ! i))"
  by (rule labels_linearizable [where xs = race]) (simp add: race_reached)

text \<open>However many calls overlap, the tracked sources are different and at most \<open>limit\<close>, and
  the label values the calls return are at most two more than that: the number of time series a
  producer can create is bounded.\<close>

theorem labels_bounded:
  assumes "label_reach (new_source_labels limit, start_calls xs) (s, ts)"
  shows "distinct (sl_seen s) \<and> tracked s \<le> nat limit
    \<and> card (returned_label ` {t \<in> set ts. has_returned t}) \<le> nat limit + 2"
proof -
  let ?all = "insert source_unknown (insert source_overflow (set (sl_seen s)))"
  obtain order where order: "linear_in (new_source_labels limit) xs (s, ts) order"
    using label_reach_linear [OF assms] by blast
  note lin = linear_in_new [OF order]
  have s: "sl_seen s = kept_sources limit (map (\<lambda>i. xs ! i) order)" by (rule lin(3))
  have ret: "returned_label (ts ! i) \<in> ?all" if "i < length ts" "has_returned (ts ! i)" for i
    using lin(2) lin(4) [of i] that answer_of_range by auto
  have "returned_label ` {t \<in> set ts. has_returned t} \<subseteq> ?all"
    using ret by (force simp: in_set_conv_nth)
  then have "card (returned_label ` {t \<in> set ts. has_returned t}) \<le> card ?all"
    by (intro card_mono) auto
  also have "card ?all \<le> length (sl_seen s) + 2"
    using card_length [of "sl_seen s"] by (auto simp: card_insert_if)
  also have "\<dots> \<le> nat limit + 2" using s length_kept_sources by simp
  finally show ?thesis using s length_kept_sources distinct_kept_sources by (simp add: tracked_def)
qed

theorem labels_bounded_witness:
  "distinct (sl_seen (fst race_end)) \<and> tracked (fst race_end) \<le> nat 1
    \<and> card (returned_label ` {t \<in> set (snd race_end). has_returned t}) \<le> nat 1 + 2"
  by (rule labels_bounded [where xs = race]) (simp add: race_reached)

end
