(* ===== verification/Go_Time.thy ===== *)
theory Go_Time
  imports Go_Strings
begin

text \<open>
  The parts of Go's \<open>time\<close> package that the service uses. An instant is the number of
  nanoseconds since 0001-01-01T00:00:00Z, the zero value of \<open>time.Time\<close>, together with the
  offset of the location it is shown in; the instants and durations a request can carry stay
  far inside Go's ranges, so both are unbounded integers. \<open>Duration.String\<close> and the RFC 3339
  rendering of \<open>Time.MarshalJSON\<close> are computed.
\<close>

record gotime =
  t_ns :: int
  t_off :: int

type_synonym duration = int

definition zero_time :: gotime where
  "zero_time = \<lparr>t_ns = 0, t_off = 0\<rparr>"

definition time_is_zero :: "gotime \<Rightarrow> bool" where
  "time_is_zero t \<longleftrightarrow> t_ns t = 0"

definition time_utc :: "gotime \<Rightarrow> gotime" where
  "time_utc t = t\<lparr>t_off := 0\<rparr>"

definition time_add :: "gotime \<Rightarrow> duration \<Rightarrow> gotime" where
  "time_add t d = t\<lparr>t_ns := t_ns t + d\<rparr>"

definition time_after :: "gotime \<Rightarrow> gotime \<Rightarrow> bool" where
  "time_after t u \<longleftrightarrow> t_ns u < t_ns t"

definition int64_max :: int where
  "int64_max = 9223372036854775807"

definition int64_min :: int where
  "int64_min = - 9223372036854775808"

text \<open>\<open>Time.Sub\<close> saturates at the ends of the range of durations.\<close>

definition time_sub :: "gotime \<Rightarrow> gotime \<Rightarrow> duration" where
  "time_sub t u = max int64_min (min int64_max (t_ns t - t_ns u))"

definition second :: duration where
  "second = 1000000000"

definition minute :: duration where
  "minute = 60 * second"

definition hour :: duration where
  "hour = 60 * minute"

lemma time_utc_ns [simp]: "t_ns (time_utc t) = t_ns t"
  by (simp add: time_utc_def)

lemma time_utc_off [simp]: "t_off (time_utc t) = 0"
  by (simp add: time_utc_def)

lemma time_utc_idem [simp]: "time_utc (time_utc t) = time_utc t"
  by (simp add: time_utc_def)

lemma time_utc_eq_iff: "time_utc t = time_utc u \<longleftrightarrow> t_ns t = t_ns u"
  by (cases t; cases u) (simp add: time_utc_def)

section \<open>Rendering a duration\<close>

definition strip_zeros :: "string \<Rightarrow> string" where
  "strip_zeros s = rev (dropWhile (\<lambda>c. c = CHR ''0'') (rev s))"

text \<open>\<open>fmtFrac\<close>: the low \<open>prec\<close> digits as a fraction, without trailing zeros.\<close>

definition frac_string :: "nat \<Rightarrow> nat \<Rightarrow> string" where
  "frac_string v prec =
    (let f = strip_zeros (pad_nat prec (v mod 10 ^ prec))
     in if f = [] then [] else CHR ''.'' # f)"

definition dur_abs_string :: "nat \<Rightarrow> string" where
  "dur_abs_string u =
    (if u = 0 then ''0s''
     else if u < 1000 then show_nat u @ ''ns''
     else if u < 1000000 then
       show_nat (u div 10 ^ 3) @ frac_string u 3 @ [CHR 0xC2, CHR 0xB5, CHR ''s'']
     else if u < 1000000000 then show_nat (u div 10 ^ 6) @ frac_string u 6 @ ''ms''
     else
       (let f = frac_string u 9; s = u div 10 ^ 9; m = s div 60; h = m div 60;
            secs = show_nat (s mod 60) @ f @ ''s''
        in if m = 0 then secs
           else if h = 0 then show_nat (m mod 60) @ ''m'' @ secs
           else show_nat h @ ''h'' @ show_nat (m mod 60) @ ''m'' @ secs))"

definition dur_string :: "duration \<Rightarrow> string" where
  "dur_string d =
    (if d < 0 then CHR ''-'' # dur_abs_string (nat (- d)) else dur_abs_string (nat d))"

section \<open>The calendar\<close>

text \<open>
  The civil date of a day counted from 0001-01-01 in the proleptic Gregorian calendar, over
  years that start in March: an era of 400 years has 146097 days, and a leap day is the last
  day of its year, its four years, and its era.
\<close>

record civil =
  cv_year :: int
  cv_month :: int
  cv_day :: int

definition civil_of_days :: "int \<Rightarrow> civil" where
  "civil_of_days n =
    (let z = n + 306;
         era = z div 146097; doe = z mod 146097;
         c = min 3 (doe div 36524); doc = doe - c * 36524;
         q = doc div 1461; doq = doc - q * 1461;
         y = min 3 (doq div 365); doy = doq - y * 365;
         mp = (5 * doy + 2) div 153;
         d = doy - (153 * mp + 2) div 5 + 1;
         m = (if mp < 10 then mp + 3 else mp - 9);
         yr = 400 * era + 100 * c + 4 * q + y + (if m \<le> 2 then 1 else 0)
     in \<lparr>cv_year = yr, cv_month = m, cv_day = d\<rparr>)"

definition day_ns :: int where
  "day_ns = 86400000000000"

text \<open>
  \<open>Time.MarshalJSON\<close> of a time in UTC, without the quotes: the layout RFC3339Nano, which
  drops trailing zeros of the fraction. It fails when the year has not four digits.
\<close>

definition time_json_ok :: "gotime \<Rightarrow> bool" where
  "time_json_ok t \<longleftrightarrow>
    (let y = cv_year (civil_of_days (t_ns t div day_ns)) in 0 \<le> y \<and> y \<le> 9999)"

definition time_rfc3339 :: "gotime \<Rightarrow> string" where
  "time_rfc3339 t =
    (let c = civil_of_days (t_ns t div day_ns);
         ns = nat (t_ns t mod day_ns);
         s = ns div 10 ^ 9
     in pad_nat 4 (nat (cv_year c)) @ ''-'' @ pad_nat 2 (nat (cv_month c)) @ ''-''
        @ pad_nat 2 (nat (cv_day c)) @ ''T''
        @ pad_nat 2 (s div 3600) @ '':'' @ pad_nat 2 (s div 60 mod 60) @ '':''
        @ pad_nat 2 (s mod 60) @ frac_string ns 9 @ ''Z'')"

section \<open>Evaluation\<close>

lemmas go_time_eval [model_defs] =
  zero_time_def time_is_zero_def time_utc_def time_add_def time_after_def time_sub_def
  int64_max_def int64_min_def second_def minute_def hour_def strip_zeros_def frac_string_def
  dur_abs_string_def dur_string_def civil_of_days_def day_ns_def time_json_ok_def
  time_rfc3339_def

end
