(* ===== verification/Metrics.thy ===== *)
theory Metrics
  imports Labels Go_Time
begin

text \<open>
  \<open>internal/platform/metrics/metrics.go\<close>: what the service counts about itself. A vector of the
  Prometheus client is a map from the label values of a series to its value, kept exactly where
  the client keeps a floating-point number; a histogram is the list of its observations. The
  client checks the label values: \<open>WithLabelValues\<close> panics on values it refuses, which the
  parameter \<open>accepts\<close> decides. The documented rule, that values are valid UTF-8, is the
  predicate \<open>prometheus_ok\<close>.
\<close>

datatype panic = Abort_Handler | Panic string

definition prometheus_ok :: "(string list \<Rightarrow> bool) \<Rightarrow> bool" where
  "prometheus_ok accepts \<longleftrightarrow> (\<forall>ls. accepts ls \<longleftrightarrow> list_all utf8_valid ls)"

definition label_error :: string where
  "label_error = ''label value is not valid UTF-8''"

section \<open>Values\<close>

definition result_created :: string where "result_created = ''created''"
definition result_duplicate :: string where "result_duplicate = ''duplicate''"
definition result_rejected :: string where "result_rejected = ''rejected''"
definition result_error :: string where "result_error = ''error''"

definition ingest_results :: "string list" where
  "ingest_results = [result_created, result_duplicate, result_rejected, result_error]"

type_synonym counter_vec = "(string list, nat) gomap"
type_synonym histogram_vec = "(string list, duration list) gomap"

record metrics =
  m_sources :: source_labels
  m_ingest_total :: counter_vec
  m_ingest_duration :: histogram_vec
  m_validation_failure :: counter_vec
  m_divergent_replay :: counter_vec
  m_outbox_pending :: int
  m_outbox_oldest_age :: duration
  m_outbox_published :: counter_vec
  m_http_requests :: counter_vec

definition new_metrics :: metrics where
  "new_metrics =
    \<lparr>m_sources = new_source_labels max_tracked_sources, m_ingest_total = [], m_ingest_duration = [],
     m_validation_failure = [], m_divergent_replay = [], m_outbox_pending = 0,
     m_outbox_oldest_age = 0, m_outbox_published = [], m_http_requests = []\<rparr>"

text \<open>The value of the gauge \<open>ingest_source_labels_tracked\<close>.\<close>

definition source_labels_tracked :: "metrics \<Rightarrow> nat" where
  "source_labels_tracked m = tracked (m_sources m)"

definition inc :: "string list \<Rightarrow> counter_vec \<Rightarrow> counter_vec" where
  "inc ls v = gm_set ls (Suc (case map_of v ls of Some n \<Rightarrow> n | None \<Rightarrow> 0)) v"

definition observe :: "string list \<Rightarrow> duration \<Rightarrow> histogram_vec \<Rightarrow> histogram_vec" where
  "observe ls d v = gm_set ls ((case map_of v ls of Some ds \<Rightarrow> ds | None \<Rightarrow> []) @ [d]) v"

section \<open>Recording\<close>

text \<open>
  A recording returns the panic it ends in, if any, with the metrics as it leaves them. The label
  of the source is taken first, so it is tracked even when the vector then refuses it.
\<close>

definition ingest_result ::
  "(string list \<Rightarrow> bool) \<Rightarrow> string \<Rightarrow> string \<Rightarrow> duration \<Rightarrow> metrics \<Rightarrow> panic option \<times> metrics" where
  "ingest_result accepts source result took m =
    (let (l, sl) = label (m_sources m) source;
         m1 = m\<lparr>m_sources := sl\<rparr>
     in if \<not> accepts [l, result] then (Some (Panic label_error), m1)
        else
          (let m2 = m1\<lparr>m_ingest_total := inc [l, result] (m_ingest_total m1)\<rparr> in
           if \<not> accepts [result] then (Some (Panic label_error), m2)
           else (None, m2\<lparr>m_ingest_duration := observe [result] took (m_ingest_duration m2)\<rparr>)))"

definition validation_failure ::
  "(string list \<Rightarrow> bool) \<Rightarrow> string \<Rightarrow> string \<Rightarrow> string \<Rightarrow> metrics \<Rightarrow> panic option \<times> metrics" where
  "validation_failure accepts source layer field0 m =
    (let field = (if field0 = [] then ''request'' else field0);
         (l, sl) = label (m_sources m) source;
         m1 = m\<lparr>m_sources := sl\<rparr>
     in if \<not> accepts [l, layer, field] then (Some (Panic label_error), m1)
        else (None, m1\<lparr>m_validation_failure := inc [l, layer, field] (m_validation_failure m1)\<rparr>))"

definition divergent_replay ::
  "(string list \<Rightarrow> bool) \<Rightarrow> string \<Rightarrow> metrics \<Rightarrow> panic option \<times> metrics" where
  "divergent_replay accepts source m =
    (let (l, sl) = label (m_sources m) source;
         m1 = m\<lparr>m_sources := sl\<rparr>
     in if \<not> accepts [l] then (Some (Panic label_error), m1)
        else (None, m1\<lparr>m_divergent_replay := inc [l] (m_divergent_replay m1)\<rparr>))"

definition outbox_backlog :: "int \<Rightarrow> duration \<Rightarrow> metrics \<Rightarrow> metrics" where
  "outbox_backlog pending oldest m =
    m\<lparr>m_outbox_pending := pending, m_outbox_oldest_age := oldest\<rparr>"

definition outbox_publish ::
  "(string list \<Rightarrow> bool) \<Rightarrow> string \<Rightarrow> metrics \<Rightarrow> panic option \<times> metrics" where
  "outbox_publish accepts result m =
    (if \<not> accepts [result] then (Some (Panic label_error), m)
     else (None, m\<lparr>m_outbox_published := inc [result] (m_outbox_published m)\<rparr>))"

definition http_request ::
  "(string list \<Rightarrow> bool) \<Rightarrow> string \<Rightarrow> string \<Rightarrow> int \<Rightarrow> metrics \<Rightarrow> panic option \<times> metrics" where
  "http_request accepts meth route status m =
    (if \<not> accepts [meth, route, show_int status] then (Some (Panic label_error), m)
     else (None, m\<lparr>m_http_requests := inc [meth, route, show_int status] (m_http_requests m)\<rparr>))"

lemmas metrics_eval [model_defs] =
  label_error_def result_created_def result_duplicate_def result_rejected_def result_error_def
  ingest_results_def new_metrics_def source_labels_tracked_def inc_def observe_def
  ingest_result_def validation_failure_def divergent_replay_def outbox_backlog_def
  outbox_publish_def http_request_def

section \<open>Any sequence of recordings\<close>

datatype recording =
    Rec_Ingest string string duration
  | Rec_Failure string string string
  | Rec_Divergent string
  | Rec_Backlog int duration
  | Rec_Publish string
  | Rec_Http string string int

fun record_one :: "(string list \<Rightarrow> bool) \<Rightarrow> recording \<Rightarrow> metrics \<Rightarrow> panic option \<times> metrics" where
  "record_one accepts (Rec_Ingest src res took) m = ingest_result accepts src res took m"
| "record_one accepts (Rec_Failure src layer field) m = validation_failure accepts src layer field m"
| "record_one accepts (Rec_Divergent src) m = divergent_replay accepts src m"
| "record_one accepts (Rec_Backlog n d) m = (None, outbox_backlog n d m)"
| "record_one accepts (Rec_Publish res) m = outbox_publish accepts res m"
| "record_one accepts (Rec_Http meth route status) m = http_request accepts meth route status m"

definition record_all :: "(string list \<Rightarrow> bool) \<Rightarrow> recording list \<Rightarrow> metrics \<Rightarrow> metrics" where
  "record_all accepts rs m = fold (\<lambda>r m. snd (record_one accepts r m)) rs m"

section \<open>The series of a producer\<close>

definition labels_ok :: "source_labels \<Rightarrow> bool" where
  "labels_ok s \<longleftrightarrow> sl_limit s = max_tracked_sources \<and> distinct (sl_seen s)
    \<and> length (sl_seen s) \<le> nat max_tracked_sources"

definition source_label_set :: "source_labels \<Rightarrow> string set" where
  "source_label_set s = insert source_unknown (insert source_overflow (set (sl_seen s)))"

lemma label_effect:
  assumes "label s x = (l, s')" and "labels_ok s"
  shows "labels_ok s'" and "source_label_set s \<subseteq> source_label_set s'" and "l \<in> source_label_set s'"
  using assms
  by (auto simp: label_eq labels_ok_def source_label_set_def sources_full_def split: if_splits)

lemma card_source_label_set: "labels_ok s \<Longrightarrow> card (source_label_set s) \<le> 202"
  using card_length [of "sl_seen s"]
  by (auto simp: labels_ok_def source_label_set_def max_tracked_sources_def card_insert_if)

text \<open>The series of the ingest counter carry a tracked source and one of the given results.\<close>

definition series_keys :: "string set \<Rightarrow> string set \<Rightarrow> string list set" where
  "series_keys ls rs = (\<lambda>(l, r). [l, r]) ` (ls \<times> rs)"

lemma series_keys_mono: "ls \<subseteq> ls' \<Longrightarrow> series_keys ls rs \<subseteq> series_keys ls' rs"
  unfolding series_keys_def by (intro image_mono Sigma_mono) auto

lemma series_keysI: "l \<in> ls \<Longrightarrow> r \<in> rs \<Longrightarrow> [l, r] \<in> series_keys ls rs"
  by (force simp: series_keys_def)

lemma card_series_keys:
  "finite ls \<Longrightarrow> finite rs \<Longrightarrow> card (series_keys ls rs) \<le> card ls * card rs"
  unfolding series_keys_def by (metis card_cartesian_product card_image_le finite_cartesian_product)

definition ingest_series_ok :: "string set \<Rightarrow> metrics \<Rightarrow> bool" where
  "ingest_series_ok results m \<longleftrightarrow> labels_ok (m_sources m) \<and> gm_wf (m_ingest_total m)
    \<and> fst ` set (m_ingest_total m) \<subseteq> series_keys (source_label_set (m_sources m)) results"

definition results_of :: "recording list \<Rightarrow> string list" where
  "results_of rs = concat (map (\<lambda>r. case r of Rec_Ingest _ res _ \<Rightarrow> [res] | _ \<Rightarrow> []) rs)"

lemma inc_wf [simp]: "gm_wf v \<Longrightarrow> gm_wf (inc ls v)"
  by (simp add: inc_def)

lemma gm_keys: "fst ` set m = dom (map_of m)"
  by (simp add: dom_map_of_conv_image_fst)

lemma inc_keys: "fst ` set (inc ls v) = insert ls (fst ` set v)"
  by (simp add: gm_keys inc_def)

lemma series_mono:
  assumes "ingest_series_ok results m" and "labels_ok (m_sources m')"
    and "source_label_set (m_sources m) \<subseteq> source_label_set (m_sources m')"
    and "m_ingest_total m' = m_ingest_total m"
  shows "ingest_series_ok results m'"
  using assms(1,2,4) series_keys_mono [OF assms(3), of results] subset_trans
  unfolding ingest_series_ok_def by metis

lemma series_inc:
  assumes "ingest_series_ok results m" and "l \<in> source_label_set (m_sources m)" and "res \<in> results"
  shows "ingest_series_ok results (m\<lparr>m_ingest_total := inc [l, res] (m_ingest_total m)\<rparr>)"
  using assms series_keysI [OF assms(2,3)] unfolding ingest_series_ok_def by (simp add: inc_keys)

lemma series_relabel:
  assumes "ingest_series_ok results m" and "label (m_sources m) x = (l, sl)"
  shows "ingest_series_ok results (m\<lparr>m_sources := sl\<rparr>)" and "l \<in> source_label_set sl"
proof -
  have ok: "labels_ok (m_sources m)" using assms(1) by (simp add: ingest_series_ok_def)
  show "ingest_series_ok results (m\<lparr>m_sources := sl\<rparr>)"
    using series_mono [OF assms(1), of "m\<lparr>m_sources := sl\<rparr>"] label_effect [OF assms(2) ok] by simp
  show "l \<in> source_label_set sl" by (rule label_effect(3) [OF assms(2) ok])
qed

lemma series_same:
  "ingest_series_ok results m \<Longrightarrow> m_sources m' = m_sources m \<Longrightarrow>
    m_ingest_total m' = m_ingest_total m \<Longrightarrow> ingest_series_ok results m'"
  by (simp add: ingest_series_ok_def)

lemma record_one_series:
  assumes "ingest_series_ok results m" and "set (results_of [r]) \<subseteq> results"
  shows "ingest_series_ok results (snd (record_one accepts r m))"
proof (cases r)
  case (Rec_Ingest src res took)
  obtain l sl where l: "label (m_sources m) src = (l, sl)" by fastforce
  note step = series_relabel [OF assms(1) l]
  have res: "res \<in> results" using assms(2) Rec_Ingest by (simp add: results_of_def)
  have "ingest_series_ok results
      (m\<lparr>m_sources := sl, m_ingest_total := inc [l, res] (m_ingest_total m)\<rparr>)"
    using series_inc [OF step(1) _ res, of l] step(2) by simp
  then show ?thesis
    using step(1) series_same unfolding Rec_Ingest record_one.simps ingest_result_def
    by (auto simp: l Let_def)
next
  case (Rec_Failure src layer field)
  obtain l sl where l: "label (m_sources m) src = (l, sl)" by fastforce
  then show ?thesis
    using series_relabel(1) [OF assms(1) l] series_same
    unfolding Rec_Failure record_one.simps validation_failure_def by (auto simp: Let_def)
next
  case (Rec_Divergent src)
  obtain l sl where l: "label (m_sources m) src = (l, sl)" by fastforce
  then show ?thesis
    using series_relabel(1) [OF assms(1) l] series_same
    unfolding Rec_Divergent record_one.simps divergent_replay_def by (auto simp: Let_def)
qed (use assms(1) in \<open>auto simp: outbox_backlog_def outbox_publish_def http_request_def
    ingest_series_ok_def\<close>)

lemma record_all_series:
  "ingest_series_ok results m \<Longrightarrow> set (results_of rs) \<subseteq> results \<Longrightarrow>
    ingest_series_ok results (record_all accepts rs m)"
proof (induction rs arbitrary: m)
  case (Cons r rs)
  then have "set (results_of [r]) \<subseteq> results" "set (results_of rs) \<subseteq> results"
    by (auto simp: results_of_def)
  then show ?case using Cons record_one_series [OF Cons.prems(1)] by (simp add: record_all_def)
qed (simp add: record_all_def)

lemma new_metrics_series: "ingest_series_ok results new_metrics"
  by (simp add: ingest_series_ok_def labels_ok_def new_metrics_def new_source_labels_def
      max_tracked_sources_def)

section \<open>Properties\<close>

text \<open>C24: Whatever is recorded, with whatever sources, the ingest counter has at most 808 series in all,
  when it is only given the four outcomes of the service: those of 200 producers, the overflow and
  the unknown one.\<close>

theorem ingest_series_bounded:
  assumes "set (results_of rs) \<subseteq> set ingest_results"
  shows "length (m_ingest_total (record_all accepts rs new_metrics)) \<le> 808"
proof -
  let ?m = "record_all accepts rs new_metrics"
  let ?ls = "source_label_set (m_sources ?m)"
  have ok: "ingest_series_ok (set ingest_results) ?m"
    by (rule record_all_series [OF new_metrics_series assms])
  have fin: "finite ?ls" by (simp add: source_label_set_def)
  then have "card (fst ` set (m_ingest_total ?m)) \<le> card (series_keys ?ls (set ingest_results))"
    using ok by (intro card_mono) (auto simp: ingest_series_ok_def series_keys_def)
  also have "\<dots> \<le> card ?ls * card (set ingest_results)" by (rule card_series_keys [OF fin]) simp
  also have "\<dots> \<le> 202 * 4"
    using card_source_label_set [of "m_sources ?m"] ok card_length [of ingest_results]
    unfolding ingest_series_ok_def by (intro mult_le_mono) (simp_all add: ingest_results_def)
  finally have "card (fst ` set (m_ingest_total ?m)) \<le> 808" by simp
  moreover have "distinct (map fst (m_ingest_total ?m))"
    using ok by (simp add: ingest_series_ok_def gm_wf_def)
  then have "card (fst ` set (m_ingest_total ?m)) = length (m_ingest_total ?m)"
    using distinct_card by fastforce
  ultimately show ?thesis by simp
qed

theorem ingest_series_bounded_witness:
  "length (m_ingest_total (record_all (list_all utf8_valid)
      [Rec_Ingest ''lane-1'' ''created'' 0, Rec_Divergent ''lane-1'', Rec_Ingest [] ''rejected'' 0]
      new_metrics)) \<le> 808"
  by (rule ingest_series_bounded)
     (simp add: results_of_def ingest_results_def result_created_def result_duplicate_def
        result_rejected_def result_error_def)

end
