(* ===== verification/Json.thy ===== *)
theory Json
  imports Go_Time
begin

text \<open>
  \<open>encoding/json\<close> as the service uses it: the values a free-form object decodes to
  (\<open>map[string]any\<close>) and the encoder of \<open>json.Marshal\<close>, which escapes HTML characters and
  writes the members of a map sorted by key. A number is a \<open>float64\<close> in Go; the model keeps
  the text the encoder writes for it, which determines it. A Go map is the list of its members,
  in an order that carries no meaning.
\<close>

datatype json =
    JNull
  | JBool bool
  | JNum string
  | JStr string
  | JArr "json list"
  | JObj "(string \<times> json) list"

type_synonym json_obj = "(string \<times> json) list"

fun join :: "string \<Rightarrow> string list \<Rightarrow> string" where
  "join sep [] = []"
| "join sep [x] = x"
| "join sep (x # y # ys) = x @ sep @ join sep (y # ys)"

lemma join_Cons: "join sep (x # xs) = x @ (if xs = [] then [] else sep @ join sep xs)"
  by (cases xs) simp_all

lemma join_append:
  "ys \<noteq> [] \<Longrightarrow> join sep (xs @ ys) = (if xs = [] then [] else join sep xs @ sep) @ join sep ys"
  by (induction xs) (simp_all add: join_Cons)

text \<open>The escapes of \<open>appendString\<close>, for one rune and the bytes it was read from.\<close>

definition json_escape :: "nat \<times> string \<Rightarrow> string" where
  "json_escape p =
    (case p of (r, bs) \<Rightarrow>
      if r < 128 then
        (if r = 34 \<or> r = 92 then [CHR 0x5C, char_of r]
         else if r = 8 then [CHR 0x5C, CHR ''b'']
         else if r = 12 then [CHR 0x5C, CHR ''f'']
         else if r = 10 then [CHR 0x5C, CHR ''n'']
         else if r = 13 then [CHR 0x5C, CHR ''r'']
         else if r = 9 then [CHR 0x5C, CHR ''t'']
         else if r < 32 \<or> r = 60 \<or> r = 62 \<or> r = 38 then [CHR 0x5C, CHR ''u''] @ pad_hex 4 r
         else bs)
      else if r = rune_error \<and> length bs = 1 then [CHR 0x5C] @ ''ufffd''
      else if r = 8232 \<or> r = 8233 then [CHR 0x5C, CHR ''u''] @ pad_hex 4 r
      else bs)"

definition json_string :: "string \<Rightarrow> string" where
  "json_string s = [CHR 0x22] @ concat (map json_escape (runes s)) @ [CHR 0x22]"

text \<open>An object, from its members in the order they are written, each with its encoded value.\<close>

definition json_members :: "(string \<times> string) list \<Rightarrow> string" where
  "json_members ms = ''{'' @ join '','' (map (\<lambda>(k, v). json_string k @ '':'' @ v) ms) @ ''}''"

fun json_encode :: "json \<Rightarrow> string" where
  "json_encode JNull = ''null''"
| "json_encode (JBool b) = (if b then ''true'' else ''false'')"
| "json_encode (JNum n) = n"
| "json_encode (JStr s) = json_string s"
| "json_encode (JArr xs) = ''['' @ join '','' (map json_encode xs) @ '']''"
| "json_encode (JObj kvs) =
     json_members (sort_key fst (map (\<lambda>(k, v). (k, json_encode v)) kvs))"

definition json_object :: "json_obj \<Rightarrow> string" where
  "json_object m = json_encode (JObj m)"

text \<open>
  The order in which a map is ranged over does not reach its encoding: two lists of the same
  members with distinct keys are encoded alike.
\<close>

lemma sort_key_fst_unique:
  fixes xs ys :: "('k::linorder \<times> 'v) list"
  assumes "distinct (map fst xs)" and "mset xs = mset ys"
  shows "sort_key fst xs = sort_key fst ys"
  by (rule sort_key_inj_key_eq) (use assms in \<open>simp_all add: distinct_map\<close>)

lemma json_object_order:
  assumes "gm_wf m" and "mset m = mset m'"
  shows "json_object m = json_object m'"
proof -
  let ?enc = "\<lambda>(k, v). (k, json_encode v)"
  have "map fst (map ?enc m) = map fst m" by (simp add: comp_def case_prod_beta)
  then have "distinct (map fst (map ?enc m))"
    using assms(1) by (simp only: gm_wf_def)
  moreover have "mset (map ?enc m) = mset (map ?enc m')" using assms(2) by simp
  ultimately have "sort_key fst (map ?enc m) = sort_key fst (map ?enc m')"
    by (rule sort_key_fst_unique)
  then show ?thesis by (simp only: json_object_def json_encode.simps)
qed

lemmas json_eval [model_defs] = json_escape_def json_string_def json_members_def json_object_def

end
