(* ===== verification/Third_Party.thy ===== *)
theory Third_Party
  imports Complex_Main Go_Time
begin

text \<open>
  What the service takes from packages outside the repository, as one record \<open>'d lib\<close> that
  the model's operations receive as an argument: the exact decimals of
  \<open>github.com/shopspring/decimal\<close> (their type is the parameter \<open>'d\<close>), the text of a
  \<open>github.com/google/uuid\<close> identifier, and the SHA-256 digest. The record extends the
  Unicode tables. The documented behaviour the properties rely on is the predicate
  \<open>decimal_ok\<close>, over a ghost function that gives the rational value of a decimal; the instance
  \<open>ref_lib\<close>, a mantissa with a scale, shows that it can hold.
\<close>

type_synonym uuid = "128 word"

record 'd lib = unicode +
  dec_new :: "string \<Rightarrow> 'd option"
  dec_error :: "string \<Rightarrow> string"
  dec_negative :: "'d \<Rightarrow> bool"
  dec_zero :: "'d \<Rightarrow> bool"
  dec_equal :: "'d \<Rightarrow> 'd \<Rightarrow> bool"
  dec_string :: "'d \<Rightarrow> string"
  dec_fixed :: "'d \<Rightarrow> int \<Rightarrow> string"
  uuid_string :: "uuid \<Rightarrow> string"
  sha256 :: "string \<Rightarrow> string"

section \<open>The value of a decimal numeral\<close>

text \<open>
  A decimal numeral is an optional minus sign, digits, and optionally a point and more digits.
\<close>

definition digits1 :: "string \<Rightarrow> bool" where
  "digits1 s \<longleftrightarrow> s \<noteq> [] \<and> list_all is_digit s"

definition strip_minus :: "string \<Rightarrow> string" where
  "strip_minus s = (case s of c # t \<Rightarrow> if c = CHR ''-'' then t else s | [] \<Rightarrow> [])"

definition has_minus :: "string \<Rightarrow> bool" where
  "has_minus s \<longleftrightarrow> s \<noteq> [] \<and> hd s = CHR ''-''"

definition int_part :: "string \<Rightarrow> string" where
  "int_part s = takeWhile (\<lambda>c. c \<noteq> CHR ''.'') (strip_minus s)"

definition frac_part :: "string \<Rightarrow> string" where
  "frac_part s = drop 1 (dropWhile (\<lambda>c. c \<noteq> CHR ''.'') (strip_minus s))"

definition numeral_val :: "string \<Rightarrow> rat" where
  "numeral_val s =
    (if has_minus s then - 1 else 1)
      * (of_nat (digits_val (int_part s @ frac_part s)) / 10 ^ length (frac_part s))"

definition is_numeral :: "string \<Rightarrow> bool" where
  "is_numeral s \<longleftrightarrow> (\<exists>sg i f. s = sg @ i @ f \<and> (sg = [] \<or> sg = ''-'') \<and> digits1 i
     \<and> (f = [] \<or> (\<exists>g. f = CHR ''.'' # g \<and> digits1 g)))"

lemma digit_not_special [simp]:
  "is_digit c \<Longrightarrow> c \<noteq> CHR ''.''" "is_digit c \<Longrightarrow> c \<noteq> CHR ''-''"
  by (auto simp: is_digit_def code_def)

lemma takeWhile_digits [simp]:
  "list_all is_digit s \<Longrightarrow> takeWhile (\<lambda>c. c \<noteq> CHR ''.'') (s @ CHR ''.'' # t) = s"
  "list_all is_digit s \<Longrightarrow> takeWhile (\<lambda>c. c \<noteq> CHR ''.'') s = s"
  "list_all is_digit s \<Longrightarrow> dropWhile (\<lambda>c. c \<noteq> CHR ''.'') (s @ CHR ''.'' # t) = CHR ''.'' # t"
  "list_all is_digit s \<Longrightarrow> dropWhile (\<lambda>c. c \<noteq> CHR ''.'') s = []"
  by (auto simp: list_all_iff takeWhile_append dropWhile_append takeWhile_eq_all_conv
      dropWhile_eq_Nil_conv)

lemma strip_minus_digits [simp]:
  "digits1 i \<Longrightarrow> strip_minus (i @ t) = i @ t" "digits1 i \<Longrightarrow> \<not> has_minus (i @ t)"
  "digits1 i \<Longrightarrow> strip_minus i = i" "digits1 i \<Longrightarrow> \<not> has_minus i"
  by (cases i; auto simp: digits1_def strip_minus_def has_minus_def)+

lemma strip_minus_minus [simp]:
  "strip_minus (CHR ''-'' # t) = t" "has_minus (CHR ''-'' # t)"
  by (auto simp: strip_minus_def has_minus_def)

lemma digits1_list_all [simp]: "digits1 s \<Longrightarrow> list_all is_digit s"
  by (simp add: digits1_def)

text \<open>The characters a rendered decimal is made of.\<close>

definition num_char :: "char \<Rightarrow> bool" where
  "num_char c \<longleftrightarrow> is_digit c \<or> c = CHR ''-'' \<or> c = CHR ''.''"

lemma num_char_digit [simp]: "is_digit c \<Longrightarrow> num_char c"
  by (simp add: num_char_def)

text \<open>
  The documented behaviour of the decimals, for a value function \<open>v\<close>: a numeral parses to its
  value; sign, zero test and equality are those of the values; \<open>String\<close> renders equal values
  alike and different values differently; \<open>StringFixed\<close> writes the value exactly, with the
  given number of places, when it has no more places than that.
\<close>

definition decimal_ok :: "('d, 'a) lib_scheme \<Rightarrow> ('d \<Rightarrow> rat) \<Rightarrow> bool" where
  "decimal_ok L v \<longleftrightarrow>
    (\<forall>s. is_numeral s \<longrightarrow> (\<exists>d. dec_new L s = Some d \<and> v d = numeral_val s))
    \<and> (\<forall>d. dec_negative L d \<longleftrightarrow> v d < 0)
    \<and> (\<forall>d. dec_zero L d \<longleftrightarrow> v d = 0)
    \<and> (\<forall>d e. dec_equal L d e \<longleftrightarrow> v d = v e)
    \<and> (\<forall>d e. dec_string L d = dec_string L e \<longleftrightarrow> v d = v e)
    \<and> (\<forall>d. list_all num_char (dec_string L d))
    \<and> (\<forall>d n. 0 \<le> n \<and> (\<exists>m::int. v d * 10 ^ nat n = of_int m) \<longrightarrow>
          is_numeral (dec_fixed L d n) \<and> numeral_val (dec_fixed L d n) = v d
          \<and> length (frac_part (dec_fixed L d n)) = nat n)"

lemma decimal_ok_new:
  "decimal_ok L v \<Longrightarrow> is_numeral s \<Longrightarrow> \<exists>d. dec_new L s = Some d \<and> v d = numeral_val s"
  by (simp add: decimal_ok_def)

lemma decimal_ok_negative: "decimal_ok L v \<Longrightarrow> dec_negative L d \<longleftrightarrow> v d < 0"
  by (simp add: decimal_ok_def)

lemma decimal_ok_zero: "decimal_ok L v \<Longrightarrow> dec_zero L d \<longleftrightarrow> v d = 0"
  by (simp add: decimal_ok_def)

lemma decimal_ok_equal: "decimal_ok L v \<Longrightarrow> dec_equal L d e \<longleftrightarrow> v d = v e"
  by (simp add: decimal_ok_def)

lemma decimal_ok_string: "decimal_ok L v \<Longrightarrow> dec_string L d = dec_string L e \<longleftrightarrow> v d = v e"
  by (simp add: decimal_ok_def)

lemma decimal_ok_string_chars: "decimal_ok L v \<Longrightarrow> list_all num_char (dec_string L d)"
  by (simp add: decimal_ok_def)

lemma decimal_ok_fixed:
  "decimal_ok L v \<Longrightarrow> 0 \<le> n \<Longrightarrow> v d * 10 ^ nat n = of_int m \<Longrightarrow>
    is_numeral (dec_fixed L d n) \<and> numeral_val (dec_fixed L d n) = v d
      \<and> length (frac_part (dec_fixed L d n)) = nat n"
  unfolding decimal_ok_def by blast

section \<open>A reference instance\<close>

text \<open>
  A decimal as an integer mantissa and a number of places; \<open>ref_norm\<close> drops trailing zeros of
  the fraction.
\<close>

type_synonym refdec = "int \<times> nat"

definition ref_val :: "refdec \<Rightarrow> rat" where
  "ref_val d = of_int (fst d) / 10 ^ snd d"

fun ref_norm :: "int \<Rightarrow> nat \<Rightarrow> refdec" where
  "ref_norm m 0 = (m, 0)"
| "ref_norm m (Suc e) = (if m mod 10 = 0 then ref_norm (m div 10) e else (m, Suc e))"

definition ref_new :: "string \<Rightarrow> refdec option" where
  "ref_new s =
    (let n = int (digits_val (int_part s @ frac_part s))
     in Some (if has_minus s then - n else n, length (frac_part s)))"

definition ref_text :: "refdec \<Rightarrow> string" where
  "ref_text d =
    (let n = nat \<bar>fst d\<bar>; e = snd d
     in (if fst d < 0 then ''-'' else []) @ show_nat (n div 10 ^ e)
        @ (if e = 0 then [] else CHR ''.'' # pad_nat e (n mod 10 ^ e)))"

definition ref_string :: "refdec \<Rightarrow> string" where
  "ref_string d = ref_text (ref_norm (fst d) (snd d))"

definition ref_rescale :: "nat \<Rightarrow> refdec \<Rightarrow> refdec" where
  "ref_rescale k d =
    (if snd d \<le> k then fst d * 10 ^ (k - snd d)
     else sgn (fst d) * (\<bar>fst d\<bar> div 10 ^ (snd d - k)), k)"

definition ref_fixed :: "refdec \<Rightarrow> int \<Rightarrow> string" where
  "ref_fixed d n = ref_text (ref_rescale (nat n) (ref_norm (fst d) (snd d)))"

definition ref_uuid :: "uuid \<Rightarrow> string" where
  "ref_uuid u = pad_hex 32 (unat u)"

definition ref_equal :: "refdec \<Rightarrow> refdec \<Rightarrow> bool" where
  "ref_equal d e \<longleftrightarrow> ref_norm (fst d) (snd d) = ref_norm (fst e) (snd e)"

definition ref_negative :: "refdec \<Rightarrow> bool" where
  "ref_negative d \<longleftrightarrow> fst d < 0"

definition ref_zero :: "refdec \<Rightarrow> bool" where
  "ref_zero d \<longleftrightarrow> fst d = 0"

definition ref_error :: "string \<Rightarrow> string" where
  "ref_error s = ''can't convert '' @ s @ '' to decimal''"

definition ref_lib :: "refdec lib" where
  "ref_lib =
    \<lparr>uc_upper = id, uc_lower = id, uc_print = (\<lambda>_. True),
     dec_new = ref_new, dec_error = ref_error, dec_negative = ref_negative, dec_zero = ref_zero,
     dec_equal = ref_equal, dec_string = ref_string, dec_fixed = ref_fixed,
     uuid_string = ref_uuid, sha256 = id\<rparr>"


subsection \<open>The reference instance has the documented behaviour\<close>

lemma ref_new_val: "ref_val (the (ref_new s)) = numeral_val s"
  by (simp add: ref_val_def ref_new_def numeral_val_def Let_def)

lemma ref_norm_val: "ref_val (ref_norm m e) = ref_val (m, e)"
proof (induction m e rule: ref_norm.induct)
  case (2 m e)
  show ?case
  proof (cases "m mod 10 = 0")
    case True
    then have "m = 10 * (m div 10)" by presburger
    then have "of_int m = (10 :: rat) * of_int (m div 10)" by (metis of_int_mult of_int_numeral)
    with True 2 show ?thesis by (simp add: ref_val_def)
  qed simp
qed simp

lemma ref_norm_normal: "snd (ref_norm m e) = 0 \<or> fst (ref_norm m e) mod 10 \<noteq> 0"
  by (induction m e rule: ref_norm.induct) auto

lemma mod10_mult_power: "(m :: int) * 10 ^ Suc k mod 10 = 0"
  by simp

lemma normal_unique_le:
  assumes "ref_val (m, e) = ref_val (n, f)" and "e \<le> f" and "f = 0 \<or> n mod 10 \<noteq> 0"
  shows "(m, e) = (n, f)"
proof -
  have "(of_int m :: rat) * 10 ^ f = of_int n * 10 ^ e"
    using assms(1) by (simp add: ref_val_def field_simps)
  then have "m * 10 ^ f = n * 10 ^ e"
    by (metis (no_types, lifting) of_int_eq_iff of_int_mult of_int_numeral of_int_power)
  moreover have "(10::int) ^ f = 10 ^ (f - e) * 10 ^ e"
    using assms(2) by (simp flip: power_add)
  ultimately have n: "n = m * 10 ^ (f - e)" by simp
  show ?thesis
  proof (cases "f - e")
    case 0
    with n assms(2) show ?thesis by simp
  next
    case (Suc k)
    with n have "n mod 10 = 0" by (simp only: mod10_mult_power)
    with assms(2,3) Suc show ?thesis by simp
  qed
qed

lemma ref_norm_unique:
  "ref_norm m e = ref_norm n f \<longleftrightarrow> ref_val (m, e) = ref_val (n, f)"
proof
  assume "ref_val (m, e) = ref_val (n, f)"
  then have v: "ref_val (ref_norm m e) = ref_val (ref_norm n f)" by (simp add: ref_norm_val)
  show "ref_norm m e = ref_norm n f"
  proof (cases "snd (ref_norm m e) \<le> snd (ref_norm n f)")
    case True
    then show ?thesis
      using normal_unique_le [of "fst (ref_norm m e)" "snd (ref_norm m e)"] v
        ref_norm_normal [of n f] by (metis prod.collapse)
  next
    case False
    then show ?thesis
      using normal_unique_le [of "fst (ref_norm n f)" "snd (ref_norm n f)"] v
        ref_norm_normal [of m e] by (metis linorder_le_cases prod.collapse)
  qed
qed (metis ref_norm_val)

lemma numeral_parts:
  assumes "digits1 i" and "f = [] \<and> g = [] \<or> f = CHR ''.'' # g \<and> digits1 g"
    and "sg = [] \<and> \<not> neg \<or> sg = ''-'' \<and> neg"
  shows "is_numeral (sg @ i @ f)" and "int_part (sg @ i @ f) = i"
    and "frac_part (sg @ i @ f) = g" and "has_minus (sg @ i @ f) = neg"
  using assms by (auto simp: is_numeral_def int_part_def frac_part_def)

lemma ref_text_props:
  "is_numeral (ref_text d) \<and> numeral_val (ref_text d) = ref_val d
    \<and> length (frac_part (ref_text d)) = snd d"
proof -
  obtain m e where d: "d = (m, e)" by (cases d)
  let ?n = "nat \<bar>m\<bar>"
  let ?i = "show_nat (?n div 10 ^ e)"
  let ?g = "pad_nat e (?n mod 10 ^ e)"
  let ?f = "if e = 0 then [] else CHR ''.'' # ?g"
  let ?s = "if m < 0 then ''-'' else []"
  have shape: "ref_text d = ?s @ ?i @ ?f" by (simp add: ref_text_def d Let_def)
  have "digits1 ?i" by (simp add: digits1_def)
  moreover have "?f = [] \<and> ?g = [] \<or> ?f = CHR ''.'' # ?g \<and> digits1 ?g"
    by (simp add: digits1_def flip: length_0_conv)
  moreover have "?s = [] \<and> \<not> m < 0 \<or> ?s = ''-'' \<and> m < 0" by simp
  ultimately have parts: "is_numeral (ref_text d)" "int_part (ref_text d) = ?i"
      "frac_part (ref_text d) = ?g" "has_minus (ref_text d) = (m < 0)"
    unfolding shape by (rule numeral_parts)+
  have "digits_val (?i @ ?g) = ?n"
    by (simp add: digits_val_append digits_val_pad_nat div_mult_mod_eq)
  with parts show ?thesis by (simp add: numeral_val_def ref_val_def d)
qed

lemma ref_norm_scale_le:
  assumes "ref_val (m, e) * 10 ^ k = of_int p"
  shows "snd (ref_norm m e) \<le> k"
proof (rule ccontr)
  assume "\<not> snd (ref_norm m e) \<le> k"
  then have lt: "k < snd (ref_norm m e)" by simp
  have "ref_val (fst (ref_norm m e), snd (ref_norm m e)) = ref_val (p, k)"
    using assms by (simp add: ref_norm_val) (simp add: ref_val_def field_simps)
  then have "(p, k) = (fst (ref_norm m e), snd (ref_norm m e))"
    using lt ref_norm_normal [of m e] by (intro normal_unique_le) auto
  then have "snd (ref_norm m e) = k" by (metis snd_conv prod.collapse)
  with lt show False by simp
qed

lemma ref_fixed_props:
  assumes "ref_val d * 10 ^ nat n = of_int p"
  shows "is_numeral (ref_fixed d n) \<and> numeral_val (ref_fixed d n) = ref_val d
    \<and> length (frac_part (ref_fixed d n)) = nat n"
proof -
  obtain m e where me: "ref_norm (fst d) (snd d) = (m, e)" by (cases "ref_norm (fst d) (snd d)")
  have le: "e \<le> nat n" using ref_norm_scale_le [of "fst d" "snd d" "nat n" p] assms me by simp
  then have "ref_fixed d n = ref_text (m * 10 ^ (nat n - e), nat n)"
    by (simp add: ref_fixed_def ref_rescale_def me)
  moreover have "ref_val (m * 10 ^ (nat n - e), nat n) = ref_val (m, e)"
    using le by (simp add: ref_val_def field_simps flip: power_add)
  moreover have "ref_val (m, e) = ref_val d" using ref_norm_val [of "fst d" "snd d"] me by simp
  ultimately show ?thesis by (simp add: ref_text_props)
qed

lemma is_numeral_chars: "is_numeral s \<Longrightarrow> list_all num_char s"
  by (auto simp: is_numeral_def digits1_def list_all_iff num_char_def)

theorem ref_lib_ok: "decimal_ok ref_lib ref_val"
proof -
  have "ref_string d = ref_string e \<longleftrightarrow> ref_val d = ref_val e" for d e
    unfolding ref_string_def
    by (metis prod.collapse ref_norm_unique ref_norm_val ref_text_props)
  moreover have "list_all num_char (ref_string d)" for d
    by (simp add: ref_string_def is_numeral_chars ref_text_props)
  moreover have "\<exists>d. ref_new s = Some d \<and> ref_val d = numeral_val s" for s
    using ref_new_val [of s] by (simp add: ref_new_def Let_def)
  moreover have "fst d < 0 \<longleftrightarrow> ref_val d < 0" "fst d = 0 \<longleftrightarrow> ref_val d = 0" for d
    by (simp_all add: ref_val_def divide_less_0_iff)
  moreover have
    "ref_norm (fst d) (snd d) = ref_norm (fst e) (snd e) \<longleftrightarrow> ref_val d = ref_val e" for d e
    by (simp add: ref_norm_unique)
  ultimately show ?thesis
    using ref_fixed_props
    unfolding decimal_ok_def ref_lib_def ref_equal_def ref_negative_def ref_zero_def by auto
qed

lemmas third_party_eval [model_defs] =
  digits1_def strip_minus_def has_minus_def int_part_def frac_part_def numeral_val_def
  num_char_def ref_val_def ref_new_def ref_text_def ref_string_def ref_rescale_def ref_fixed_def ref_lib_def
  ref_uuid_def ref_error_def ref_equal_def ref_negative_def ref_zero_def

end
