(* ===== verification/Money.thy ===== *)
theory Money
  imports Third_Party
begin

text \<open>
  \<open>internal/money\<close>: currencies with their minor-unit exponents, and amounts parsed from the
  producer's decimal text.
\<close>

section \<open>Currencies\<close>

record currency =
  cur_code :: string
  cur_exponent :: "32 word"

definition no_currency :: currency where
  "no_currency = \<lparr>cur_code = [], cur_exponent = 0\<rparr>"

definition currency_string :: "currency \<Rightarrow> string" where
  "currency_string c = cur_code c"

definition currency_is_zero :: "currency \<Rightarrow> bool" where
  "currency_is_zero c \<longleftrightarrow> cur_code c = []"

text \<open>The curated table, in the order of the source.\<close>

definition currency_table :: "(string \<times> 32 word) list" where
  "currency_table =
    [(''USD'', 2), (''CAD'', 2), (''MXN'', 2),
     (''EUR'', 2), (''GBP'', 2), (''SEK'', 2), (''NOK'', 2), (''DKK'', 2), (''CHF'', 2),
     (''PLN'', 2), (''CZK'', 2), (''ISK'', 0),
     (''AED'', 2), (''SAR'', 2), (''QAR'', 2), (''ILS'', 2), (''BHD'', 3), (''KWD'', 3),
     (''OMR'', 3), (''JOD'', 3), (''TND'', 3),
     (''AUD'', 2), (''NZD'', 2), (''SGD'', 2), (''INR'', 2), (''JPY'', 0), (''KRW'', 0),
     (''BRL'', 2), (''CLP'', 0)]"

definition currencies :: "(string, currency) gomap" where
  "currencies = map (\<lambda>(c, e). (c, \<lparr>cur_code = c, cur_exponent = e\<rparr>)) currency_table"

definition lookup :: "('a) unicode_scheme \<Rightarrow> string \<Rightarrow> currency option" where
  "lookup U s = map_of currencies (to_upper U (trim_space s))"

definition codes :: "string list" where
  "codes = map fst currencies"

lemma codes_eq: "codes = map fst currency_table"
  by (simp add: codes_def currencies_def comp_def case_prod_beta)

lemma gm_wf_currencies: "gm_wf currencies"
  unfolding gm_wf_def codes_def [symmetric] codes_eq by code_simp

lemma currency_table_exponents: "\<forall>p \<in> set currency_table. snd p \<in> {0, 2, 3}"
  by code_simp

lemma currencies_entry:
  assumes "map_of currencies k = Some c"
  shows "cur_code c = k" and "cur_exponent c \<in> {0, 2, 3}" and "k \<in> set codes"
proof -
  have mem: "(k, c) \<in> set currencies" using assms by (rule map_of_SomeD)
  then show "cur_code c = k" and "cur_exponent c \<in> {0, 2, 3}"
    using currency_table_exponents by (fastforce simp: currencies_def)+
  from mem show "k \<in> set codes" by (force simp: codes_def)
qed

lemma codes_shape:
  "\<forall>k \<in> set codes. length k = 3 \<and> list_all is_upper k \<and> list_all is_ascii k"
  unfolding codes_eq by code_simp

lemma lookup_exponent:
  "lookup U s = Some c \<Longrightarrow> cur_exponent c \<in> {0, 2, 3} \<and> cur_code c \<in> set codes"
  using currencies_entry [of "to_upper U (trim_space s)" c] by (simp add: lookup_def)

section \<open>Amounts\<close>

text \<open>
  The errors of \<open>Parse\<close>: the sentinels, and the two wrapped forms (a scale error with the
  currency's code and exponent, a syntax error around the decimal package's own).
\<close>

datatype money_error =
    ErrEmpty
  | ErrSyntax
  | ErrSyntaxWrapped string
  | ErrScale string "32 word"

fun is_err_empty :: "money_error \<Rightarrow> bool" where
  "is_err_empty ErrEmpty = True"
| "is_err_empty _ = False"

fun is_err_scale :: "money_error \<Rightarrow> bool" where
  "is_err_scale (ErrScale _ _) = True"
| "is_err_scale _ = False"

fun is_err_syntax :: "money_error \<Rightarrow> bool" where
  "is_err_syntax ErrSyntax = True"
| "is_err_syntax (ErrSyntaxWrapped _) = True"
| "is_err_syntax _ = False"

definition err_syntax_text :: string where
  "err_syntax_text =
    ''must be a decimal string, for example '' @ [CHR 0x22] @ ''12.50'' @ [CHR 0x22]"

fun money_error_text :: "money_error \<Rightarrow> string" where
  "money_error_text ErrEmpty = ''must not be empty''"
| "money_error_text ErrSyntax = err_syntax_text"
| "money_error_text (ErrSyntaxWrapped e) = err_syntax_text @ '': '' @ e"
| "money_error_text (ErrScale c n) =
     ''has more decimal places than the currency allows: '' @ c @ '' allows '' @ show_int (sint n)"

record 'd amount =
  amt_value :: 'd
  amt_currency :: currency
  amt_as_received :: string

text \<open>A matcher for \<open>^-?[0-9]+(\.[0-9]+)?$\<close>.\<close>

definition decimal_syntax :: "string \<Rightarrow> bool" where
  "decimal_syntax raw =
    (let body = (case raw of c # t \<Rightarrow> if c = CHR ''-'' then t else raw | [] \<Rightarrow> []);
         i = takeWhile is_digit body; rest = dropWhile is_digit body
     in i \<noteq> [] \<and>
        (case rest of
           [] \<Rightarrow> True
         | c # g \<Rightarrow> c = CHR ''.'' \<and> g \<noteq> [] \<and> list_all is_digit g))"

text \<open>
  \<open>decimalPlaces\<close> walks from the last byte to the last point. The count is a Go \<open>int\<close>, which
  the code narrows to \<open>int32\<close>.
\<close>

fun places_from_end :: "string \<Rightarrow> nat \<Rightarrow> 32 word" where
  "places_from_end [] n = 0"
| "places_from_end (c # s) n = (if c = CHR ''.'' then of_nat n else places_from_end s (Suc n))"

definition decimal_places :: "string \<Rightarrow> 32 word" where
  "decimal_places raw = places_from_end (rev raw) 0"

definition parse :: "('d, 'a) lib_scheme \<Rightarrow> string \<Rightarrow> currency \<Rightarrow> money_error + 'd amount" where
  "parse L raw c =
    (if raw = [] then Inl ErrEmpty
     else if \<not> decimal_syntax raw then Inl ErrSyntax
     else
       (case dec_new L raw of
          None \<Rightarrow> Inl (ErrSyntaxWrapped (dec_error L raw))
        | Some value \<Rightarrow>
            if sint (cur_exponent c) < sint (decimal_places raw)
            then Inl (ErrScale (cur_code c) (cur_exponent c))
            else Inr \<lparr>amt_value = value, amt_currency = c, amt_as_received = raw\<rparr>))"

definition amount_is_negative :: "('d, 'a) lib_scheme \<Rightarrow> 'd amount \<Rightarrow> bool" where
  "amount_is_negative L a = dec_negative L (amt_value a)"

definition amount_is_zero :: "('d, 'a) lib_scheme \<Rightarrow> 'd amount \<Rightarrow> bool" where
  "amount_is_zero L a = dec_zero L (amt_value a)"

definition amount_equal :: "('d, 'a) lib_scheme \<Rightarrow> 'd amount \<Rightarrow> 'd amount \<Rightarrow> bool" where
  "amount_equal L a b \<longleftrightarrow>
    cur_code (amt_currency a) = cur_code (amt_currency b)
      \<and> dec_equal L (amt_value a) (amt_value b)"

definition amount_string :: "('d, 'a) lib_scheme \<Rightarrow> 'd amount \<Rightarrow> string" where
  "amount_string L a =
    dec_fixed L (amt_value a) (sint (cur_exponent (amt_currency a))) @ '' ''
      @ cur_code (amt_currency a)"

section \<open>The syntax check and the scale check\<close>

lemma decimal_syntax_body:
  "decimal_syntax raw \<longleftrightarrow>
    takeWhile is_digit (strip_minus raw) \<noteq> [] \<and>
    (case dropWhile is_digit (strip_minus raw) of
       [] \<Rightarrow> True | c # g \<Rightarrow> c = CHR ''.'' \<and> digits1 g)"
  unfolding decimal_syntax_def Let_def strip_minus_def digits1_def by (rule refl)

lemma strip_minus_split: "raw = (if has_minus raw then ''-'' else []) @ strip_minus raw"
  by (cases raw) (auto simp: strip_minus_def has_minus_def)

lemma takeWhile_numeral:
  assumes "digits1 i" and "f = [] \<or> (\<exists>g. f = CHR ''.'' # g)"
  shows "takeWhile is_digit (i @ f) = i" and "dropWhile is_digit (i @ f) = f"
proof -
  have "\<not> is_digit (CHR ''.'')" by (simp add: is_digit_def code_def)
  with assms show "takeWhile is_digit (i @ f) = i" "dropWhile is_digit (i @ f) = f"
    by (auto simp: digits1_def list_all_iff takeWhile_append dropWhile_append
        takeWhile_eq_all_conv dropWhile_eq_Nil_conv)
qed

lemma decimal_syntax_iff: "decimal_syntax raw \<longleftrightarrow> is_numeral raw"
proof
  assume syn: "decimal_syntax raw"
  let ?i = "takeWhile is_digit (strip_minus raw)" and ?f = "dropWhile is_digit (strip_minus raw)"
  let ?s = "if has_minus raw then ''-'' else []"
  have "raw = ?s @ ?i @ ?f" using strip_minus_split [of raw] by simp
  moreover have "?s = [] \<or> ?s = ''-''" by simp
  moreover have "digits1 ?i"
    using syn by (auto simp: decimal_syntax_body digits1_def list_all_iff dest: set_takeWhileD)
  moreover have "?f = [] \<or> (\<exists>g. ?f = CHR ''.'' # g \<and> digits1 g)"
    using syn by (auto simp: decimal_syntax_body split: list.splits)
  ultimately show "is_numeral raw" unfolding is_numeral_def by blast
next
  assume "is_numeral raw"
  then obtain sg i f where raw: "raw = sg @ i @ f" and sg: "sg = [] \<or> sg = ''-''"
    and i: "digits1 i" and f: "f = [] \<or> (\<exists>g. f = CHR ''.'' # g \<and> digits1 g)"
    unfolding is_numeral_def by blast
  have body: "strip_minus raw = i @ f" using raw sg i by auto
  have "f = [] \<or> (\<exists>g. f = CHR ''.'' # g)" using f by blast
  note split = takeWhile_numeral [OF i this]
  show "decimal_syntax raw"
    unfolding decimal_syntax_body body split using i f by (auto simp: digits1_def)
qed

lemma places_from_end_append:
  "CHR ''.'' \<notin> set s \<Longrightarrow> places_from_end (s @ t) n = places_from_end t (n + length s)"
  by (induction s arbitrary: n) auto

lemma places_from_end_none: "CHR ''.'' \<notin> set s \<Longrightarrow> places_from_end s n = 0"
  by (induction s arbitrary: n) auto

lemma digits_no_point: "list_all is_digit s \<Longrightarrow> CHR ''.'' \<notin> set s"
  using digit_not_special(1) by (fastforce simp: list_all_iff)

lemma decimal_places_numeral:
  assumes "is_numeral raw"
  shows "decimal_places raw = of_nat (length (frac_part raw))"
proof -
  obtain sg i f where raw: "raw = sg @ i @ f" and sg: "sg = [] \<or> sg = ''-''"
    and i: "digits1 i" and f: "f = [] \<or> (\<exists>g. f = CHR ''.'' # g \<and> digits1 g)"
    using assms unfolding is_numeral_def by blast
  from f show ?thesis
  proof
    assume "f = []"
    moreover from this have "CHR ''.'' \<notin> set raw"
      using raw sg digits_no_point [OF digits1_list_all [OF i]] by auto
    moreover have "frac_part raw = []" using raw sg i \<open>f = []\<close> by (auto simp: frac_part_def)
    ultimately show ?thesis by (simp add: decimal_places_def places_from_end_none)
  next
    assume "\<exists>g. f = CHR ''.'' # g \<and> digits1 g"
    then obtain g where g: "f = CHR ''.'' # g" "digits1 g" by blast
    have "frac_part raw = g" using raw sg i g by (auto simp: frac_part_def)
    moreover have "CHR ''.'' \<notin> set (rev g)" using digits_no_point g(2) by simp
    ultimately show ?thesis
      using raw g(1) by (simp add: decimal_places_def places_from_end_append)
  qed
qed

lemma sint_of_nat_word32: "sint (of_nat n :: 32 word) = signed_take_bit 31 (int n)"
  by (simp add: signed_of_nat)

lemma sint_of_nat_small: "n < 2 ^ 31 \<Longrightarrow> sint (of_nat n :: 32 word) = int n"
  by (simp add: sint_of_nat_word32 signed_take_bit_int_eq_self)

lemma length_frac_part: "length (frac_part raw) \<le> length raw"
proof -
  have "length (dropWhile P xs) \<le> length xs" for P and xs :: string
    by (rule length_dropWhile_le)
  moreover have "length (strip_minus raw) \<le> length raw"
    by (cases raw) (auto simp: strip_minus_def)
  ultimately show ?thesis unfolding frac_part_def
    by (metis diff_le_self le_trans length_drop)
qed

lemma numeral_val_scaled:
  assumes "length (frac_part s) \<le> n"
  shows "\<exists>m::int. numeral_val s * 10 ^ n = of_int m"
proof
  let ?k = "length (frac_part s)" and ?d = "digits_val (int_part s @ frac_part s)"
  have "(10 :: rat) ^ n = 10 ^ ?k * 10 ^ (n - ?k)" using assms by (simp flip: power_add)
  then have "(of_nat ?d / 10 ^ ?k :: rat) * 10 ^ n = of_nat ?d * 10 ^ (n - ?k)" by simp
  then show "numeral_val s * 10 ^ n
      = of_int ((if has_minus s then - 1 else 1) * (int ?d * 10 ^ (n - ?k)))"
    unfolding numeral_val_def mult.assoc by simp
qed

section \<open>What the operations return\<close>

lemma parse_Inr_iff:
  "parse L raw c = Inr a \<longleftrightarrow>
    raw \<noteq> [] \<and> is_numeral raw \<and> sint (decimal_places raw) \<le> sint (cur_exponent c)
      \<and> dec_new L raw = Some (amt_value a) \<and> amt_currency a = c \<and> amt_as_received a = raw"
  by (cases a) (auto simp: parse_def decimal_syntax_iff split: option.splits)

lemma parse_value:
  assumes "decimal_ok L v" and "parse L raw c = Inr a"
  shows "v (amt_value a) = numeral_val raw"
  using decimal_ok_new [OF assms(1), of raw] assms(2) by (auto simp: parse_Inr_iff)

lemma is_numeral_nonempty: "is_numeral s \<Longrightarrow> s \<noteq> []"
  by (auto simp: is_numeral_def digits1_def)

lemma parse_scale:
  assumes "parse L raw c = Inr a" and "length raw < 2 ^ 31"
  shows "int (length (frac_part raw)) \<le> sint (cur_exponent c)"
proof -
  have "length (frac_part raw) < 2 ^ 31" using length_frac_part assms(2) le_less_trans by blast
  with assms(1) show ?thesis
    by (auto simp: parse_Inr_iff decimal_places_numeral sint_of_nat_small)
qed

lemma dec_fixed_parses:
  assumes ok: "decimal_ok L v" and a: "parse L raw c = Inr a" and len: "length raw < 2 ^ 31"
  shows "\<exists>b. parse L (dec_fixed L (amt_value a) (sint (cur_exponent c))) c = Inr b
    \<and> v (amt_value b) = v (amt_value a)"
    and "length (frac_part (dec_fixed L (amt_value a) (sint (cur_exponent c))))
      = nat (sint (cur_exponent c))"
proof -
  let ?e = "sint (cur_exponent c)" and ?t = "dec_fixed L (amt_value a) (sint (cur_exponent c))"
  have scale: "int (length (frac_part raw)) \<le> ?e" using parse_scale [OF a len] .
  then have pos: "0 \<le> ?e" and le: "length (frac_part raw) \<le> nat ?e" by linarith+
  obtain m where "v (amt_value a) * 10 ^ nat ?e = of_int m"
    using numeral_val_scaled [OF le] parse_value [OF ok a] by auto
  note fixed = decimal_ok_fixed [OF ok pos this]
  then show "length (frac_part ?t) = nat ?e" by simp
  have "?e < 2 ^ 31" using sint_lt [of "cur_exponent c"] by simp
  then have "nat ?e < 2 ^ 31" using pos by (simp add: nat_less_iff)
  then have places: "sint (decimal_places ?t) = ?e"
    using fixed pos by (simp add: decimal_places_numeral sint_of_nat_small)
  obtain d where "dec_new L ?t = Some d" and "v d = numeral_val ?t"
    using decimal_ok_new [OF ok] fixed by blast
  with fixed places show "\<exists>b. parse L ?t c = Inr b \<and> v (amt_value b) = v (amt_value a)"
    by (intro exI [of _ "\<lparr>amt_value = d, amt_currency = c, amt_as_received = ?t\<rparr>"])
       (simp add: parse_Inr_iff is_numeral_nonempty)
qed

lemma lookup_spaces_case:
  assumes "list_all ascii_space p" and "list_all ascii_space q" and "list_all is_ascii s"
    and "list_all is_ascii t" and "map ascii_upper s = map ascii_upper t"
  shows "lookup U (p @ s @ q) = lookup U t"
proof -
  have "map ascii_upper (trim_space s) = map ascii_upper (trim_space t)"
    using assms(3-5) trim_space_map [of s ascii_upper] trim_space_map [of t ascii_upper] by simp
  then show ?thesis
    using assms(3,4) by (simp add: lookup_def trim_space_spaces [OF assms(1,2)] list_all_trim_space)
qed

section \<open>Properties\<close>

text \<open>The check that stands for the regular expression accepts exactly its language: an
  optional minus sign, one or more digits, and optionally a point followed by one or more
  digits. Exponents, a leading plus, white space and thousands separators are all refused.\<close>

theorem decimal_syntax_language:
  "decimal_syntax raw = (\<exists>sg i f. raw = sg @ i @ f \<and> (sg = [] \<or> sg = ''-'') \<and> digits1 i
     \<and> (f = [] \<or> (\<exists>g. f = CHR ''.'' # g \<and> digits1 g)))"
  unfolding decimal_syntax_iff is_numeral_def by (rule refl)

text \<open>C28: \<open>Parse\<close> on every input shorter than 2 GiB: it returns the error of the first check
  that fails (empty, not a decimal, more places than the currency has), and otherwise an amount
  with the exact value of the text, the currency, and the text itself byte for byte.\<close>

theorem parse_correct:
  assumes "decimal_ok L v" and "length raw < 2 ^ 31"
  shows "parse L raw c =
      (if raw = [] then Inl ErrEmpty
       else if \<not> is_numeral raw then Inl ErrSyntax
       else if sint (cur_exponent c) < int (length (frac_part raw))
       then Inl (ErrScale (cur_code c) (cur_exponent c))
       else Inr \<lparr>amt_value = the (dec_new L raw), amt_currency = c, amt_as_received = raw\<rparr>)
    \<and> (is_numeral raw \<longrightarrow> v (the (dec_new L raw)) = numeral_val raw)"
proof -
  have "length (frac_part raw) < 2 ^ 31" using length_frac_part assms(2) le_less_trans by blast
  then have "is_numeral raw \<Longrightarrow> sint (decimal_places raw) = int (length (frac_part raw))"
    by (simp add: decimal_places_numeral sint_of_nat_small)
  then show ?thesis
    using decimal_ok_new [OF assms(1), of raw] by (auto simp: parse_def decimal_syntax_iff)
qed

lemma is_numeral_12_50: "is_numeral ''12.50''"
  by (simp add: decimal_syntax_iff [symmetric]) code_simp

theorem parse_correct_witness:
  "decimal_ok ref_lib ref_val \<and> is_numeral ''12.50''
    \<and> parse ref_lib ''12.50'' \<lparr>cur_code = ''USD'', cur_exponent = 2\<rparr>
      = Inr \<lparr>amt_value = (1250, 2), amt_currency = \<lparr>cur_code = ''USD'', cur_exponent = 2\<rparr>,
              amt_as_received = ''12.50''\<rparr>"
proof -
  have "length ''12.50'' < 2 ^ 31" by simp
  note correct = parse_correct [OF ref_lib_ok this, of "\<lparr>cur_code = ''USD'', cur_exponent = 2\<rparr>"]
  have "the (dec_new ref_lib ''12.50'') = (1250, 2)" by code_simp
  moreover have "length (frac_part ''12.50'') = 2" by code_simp
  ultimately show ?thesis using correct ref_lib_ok is_numeral_12_50 by simp
qed

text \<open>The canonical rendering of a parsed amount, the value at the currency's full precision,
  parses again in that currency to an equal amount, with exactly as many places as the currency
  has; \<open>String\<close> is that text followed by the code.\<close>

theorem amount_render_roundtrip:
  assumes "decimal_ok L v" and "parse L raw c = Inr a" and "length raw < 2 ^ 31"
  shows "\<exists>t b. amount_string L a = t @ '' '' @ cur_code c \<and> parse L t c = Inr b
    \<and> amount_equal L b a \<and> length (frac_part t) = nat (sint (cur_exponent c))"
proof -
  have c: "amt_currency a = c" using assms(2) by (simp add: parse_Inr_iff)
  obtain b where "parse L (dec_fixed L (amt_value a) (sint (cur_exponent c))) c = Inr b"
      and "v (amt_value b) = v (amt_value a)"
    using dec_fixed_parses(1) [OF assms] by blast
  moreover from this have "amount_equal L b a"
    using c by (simp add: amount_equal_def decimal_ok_equal [OF assms(1)] parse_Inr_iff)
  ultimately show ?thesis
    using dec_fixed_parses(2) [OF assms] c unfolding amount_string_def by blast
qed

theorem amount_render_roundtrip_witness:
  "\<exists>a t b. parse ref_lib ''12.5'' \<lparr>cur_code = ''KWD'', cur_exponent = 3\<rparr> = Inr a
    \<and> amount_string ref_lib a = t @ '' KWD''
    \<and> parse ref_lib t \<lparr>cur_code = ''KWD'', cur_exponent = 3\<rparr> = Inr b \<and> amount_equal ref_lib b a"
proof -
  let ?c = "\<lparr>cur_code = ''KWD'', cur_exponent = 3\<rparr>"
  let ?a = "\<lparr>amt_value = (125, 1), amt_currency = ?c, amt_as_received = ''12.5''\<rparr>"
  have "parse ref_lib ''12.5'' ?c = Inr ?a" by code_simp
  moreover have "length ''12.5'' < 2 ^ 31" by simp
  ultimately show ?thesis using amount_render_roundtrip [OF ref_lib_ok, of "''12.5''" ?c ?a] by auto
qed

lemma lookup_own_code:
  assumes "k \<in> set codes"
  shows "lookup U k = map_of currencies k" and "map ascii_upper k = k" and "list_all is_ascii k"
proof -
  have k: "list_all is_ascii k" "list_all is_upper k" using codes_shape assms by auto
  then show up: "map ascii_upper k = k" by (auto simp: list_all_iff ascii_upper_def byte_defs
      intro!: map_idI)
  have "\<not> ascii_space c" if "c \<in> set k" for c
    using that k(2) by (auto simp: list_all_iff ascii_space_def is_space_def byte_defs)
  then have "dropWhile ascii_space k = k" "dropWhile ascii_space (rev k) = rev k"
    by (auto simp: dropWhile_eq_self_iff hd_rev)
  then show "lookup U k = map_of currencies k"
    using k(1) up by (simp add: lookup_def trim_space_ascii)
  show "list_all is_ascii k" by (rule k(1))
qed

lemma lookup_again:
  assumes "lookup U s = Some c"
  shows "lookup U' (cur_code c) = Some c"
proof -
  have "map_of currencies (to_upper U (trim_space s)) = Some c" using assms by (simp add: lookup_def)
  moreover from this have "cur_code c = to_upper U (trim_space s)" using currencies_entry by blast
  ultimately show ?thesis using lookup_exponent [OF assms] lookup_own_code(1) by metis
qed

text \<open>A currency code is matched whatever its case and whatever ASCII white space is around
  it, and every code of the table is found under its own name.\<close>

theorem lookup_tolerant:
  assumes "list_all ascii_space p" and "list_all ascii_space q" and "list_all is_ascii s"
    and "k \<in> set codes" and "map ascii_upper s = k"
  shows "\<exists>c. lookup U (p @ s @ q) = Some c \<and> cur_code c = k"
proof -
  note own = lookup_own_code [OF assms(4)]
  obtain c where c: "map_of currencies k = Some c"
    using assms(4) by (fastforce simp: codes_def dest: map_of_SomeD weak_map_of_SomeI)
  have "lookup U (p @ s @ q) = lookup U k"
    using assms own by (intro lookup_spaces_case) auto
  then have "lookup U (p @ s @ q) = Some c" using own(1) [of U] c by simp
  then show ?thesis using currencies_entry(1) [OF c] by blast
qed

theorem lookup_tolerant_witness:
  "\<exists>c. lookup ref_lib '' usd '' = Some c \<and> cur_code c = ''USD''"
proof -
  have "''USD'' \<in> set codes" "list_all ascii_space '' ''" "list_all is_ascii ''usd''"
    "map ascii_upper ''usd'' = ''USD''" by code_simp+
  then show ?thesis using lookup_tolerant [of "'' ''" "'' ''" "''usd''" "''USD''"] by simp
qed

lemmas money_eval [model_defs] =
  no_currency_def currency_string_def currency_is_zero_def currency_table_def currencies_def
  lookup_def codes_def err_syntax_text_def decimal_syntax_def decimal_places_def parse_def amount_is_negative_def
  amount_is_zero_def amount_equal_def amount_string_def

end
