(* ===== verification/Identity.thy ===== *)
theory Identity
  imports Prelude
begin

text \<open>
  \<open>internal/transaction/identity.go\<close>: plate and transponder reads, stored as received and in
  a canonical form for matching.
\<close>

record plate =
  pl_number :: string
  pl_jurisdiction :: string
  pl_number_key :: string
  pl_jurisdiction_key :: string

record transponder =
  tr_number :: string
  tr_number_key :: string

text \<open>The byte loop of \<open>canonicalize\<close>.\<close>

fun canonicalize :: "string \<Rightarrow> string" where
  "canonicalize [] = []"
| "canonicalize (c # s) =
    (if is_lower c then char_of (code c - 32) # canonicalize s
     else if is_upper c \<or> is_digit c then c # canonicalize s
     else canonicalize s)"

definition new_plate :: "string \<Rightarrow> string \<Rightarrow> plate" where
  "new_plate number jurisdiction =
    \<lparr>pl_number = number, pl_jurisdiction = jurisdiction,
     pl_number_key = canonicalize number, pl_jurisdiction_key = canonicalize jurisdiction\<rparr>"

definition plate_is_empty :: "plate \<Rightarrow> bool" where
  "plate_is_empty p \<longleftrightarrow> pl_number_key p = []"

definition new_transponder :: "string \<Rightarrow> transponder" where
  "new_transponder number = \<lparr>tr_number = number, tr_number_key = canonicalize number\<rparr>"

definition transponder_is_empty :: "transponder \<Rightarrow> bool" where
  "transponder_is_empty t \<longleftrightarrow> tr_number_key t = []"

section \<open>The canonical form\<close>

definition is_alnum :: "char \<Rightarrow> bool" where
  "is_alnum c \<longleftrightarrow> is_lower c \<or> is_upper c \<or> is_digit c"

definition is_key_char :: "char \<Rightarrow> bool" where
  "is_key_char c \<longleftrightarrow> is_upper c \<or> is_digit c"

lemma canonicalize_eq: "canonicalize s = map ascii_upper (filter is_alnum s)"
  by (induction s) (auto simp: is_alnum_def ascii_upper_def byte_defs)

lemma canonicalize_append [simp]: "canonicalize (s @ t) = canonicalize s @ canonicalize t"
  by (simp add: canonicalize_eq)

lemma ascii_upper_key: "is_alnum c \<Longrightarrow> is_key_char (ascii_upper c)"
  using code_ascii_upper [of c]
  by (auto simp: is_alnum_def is_key_char_def byte_defs split: if_splits)

lemma canonicalize_key_chars: "list_all is_key_char (canonicalize s)"
  by (auto simp: canonicalize_eq list_all_iff ascii_upper_key)

lemma canonicalize_id: "list_all is_key_char s \<Longrightarrow> canonicalize s = s"
  by (induction s) (auto simp: is_key_char_def byte_defs)

lemma canonicalize_empty_iff: "canonicalize s = [] \<longleftrightarrow> \<not> list_ex is_alnum s"
  by (auto simp: canonicalize_eq filter_empty_conv list_ex_iff)

lemma canonicalize_nonempty: "canonicalize s \<noteq> [] \<Longrightarrow> s \<noteq> []"
  by auto

lemmas identity_eval [model_defs] =
  new_plate_def plate_is_empty_def new_transponder_def transponder_is_empty_def

section \<open>Properties\<close>

text \<open>A read's canonical key keeps exactly its ASCII letters and digits, upper-cased and in
  their order: it is made of upper-case letters and digits only, is its own key, and extends
  piece by piece, so leading zeros survive and are never merged with a shorter number.\<close>

theorem canonical_key_shape:
  "tr_number (new_transponder s) = s
    \<and> tr_number_key (new_transponder s) = map ascii_upper (filter is_alnum s)
    \<and> list_all is_key_char (tr_number_key (new_transponder s))
    \<and> tr_number_key (new_transponder (tr_number_key (new_transponder s)))
      = tr_number_key (new_transponder s)
    \<and> tr_number_key (new_transponder (CHR ''0'' # s))
      = CHR ''0'' # tr_number_key (new_transponder s)"
  by (simp add: new_transponder_def canonicalize_eq [symmetric] canonicalize_key_chars
      canonicalize_id byte_defs code_def)

text \<open>Two plate reads get the same keys exactly when their letters and digits agree up to
  case, whatever separators and non-ASCII noise the readers put in, and a plate is unusable
  exactly when its number has no letter and no digit.\<close>

theorem plate_keys_agree:
  "(pl_number_key (new_plate n j) = pl_number_key (new_plate n' j')
      \<longleftrightarrow> map ascii_upper (filter is_alnum n) = map ascii_upper (filter is_alnum n'))
    \<and> (plate_is_empty (new_plate n j) \<longleftrightarrow> \<not> list_ex is_alnum n)"
  by (simp add: new_plate_def plate_is_empty_def canonicalize_empty_iff canonicalize_eq [symmetric])

end
