(* ===== verification/Transaction.thy ===== *)
theory Transaction
  imports Money Json Identity
begin

text \<open>
  \<open>internal/transaction/transaction.go\<close> and \<open>store.go\<close>: the two status axes, submissions and
  accepted transactions, and the idempotency key. A pointer is an option, \<open>nil\<close> being
  \<^const>\<open>None\<close>; so is a Go map that can be \<open>nil\<close>.
\<close>

section \<open>Status\<close>

datatype association_status =
    AssociationReceived | AssociationResolving | AssociationAssociated | AssociationException

fun association_text :: "association_status \<Rightarrow> string" where
  "association_text AssociationReceived = ''received''"
| "association_text AssociationResolving = ''resolving''"
| "association_text AssociationAssociated = ''associated''"
| "association_text AssociationException = ''exception''"

datatype settlement_status =
    SettlementUnpriced | SettlementPriced | SettlementPayable | SettlementPaid

fun settlement_text :: "settlement_status \<Rightarrow> string" where
  "settlement_text SettlementUnpriced = ''unpriced''"
| "settlement_text SettlementPriced = ''priced''"
| "settlement_text SettlementPayable = ''payable''"
| "settlement_text SettlementPaid = ''paid''"

lemma association_text_inject [simp]: "association_text a = association_text b \<longleftrightarrow> a = b"
  by (cases a; cases b) simp_all

lemma settlement_text_inject [simp]: "settlement_text a = settlement_text b \<longleftrightarrow> a = b"
  by (cases a; cases b) simp_all

section \<open>Submissions and transactions\<close>

record plate_read =
  pr_number :: string
  pr_jurisdiction :: string

record submission =
  sub_source :: string
  sub_source_reference :: string
  sub_type :: string
  sub_occurred_at :: gotime
  sub_plate :: "plate_read option"
  sub_transponder :: string
  sub_base_amount :: string
  sub_currency :: string
  sub_location :: "json_obj option"
  sub_metadata :: "json_obj option"

record 'd transaction =
  tx_id :: uuid
  tx_source :: string
  tx_source_reference :: string
  tx_type :: string
  tx_occurred_at :: gotime
  tx_received_at :: gotime
  tx_plate :: "plate option"
  tx_transponder :: "transponder option"
  tx_base_amount :: "'d amount"
  tx_location :: "json_obj option"
  tx_metadata :: "json_obj option"
  tx_association :: association_status
  tx_settlement :: settlement_status

definition has_plate :: "'d transaction \<Rightarrow> bool" where
  "has_plate t = (case tx_plate t of None \<Rightarrow> False | Some p \<Rightarrow> \<not> plate_is_empty p)"

definition has_transponder :: "'d transaction \<Rightarrow> bool" where
  "has_transponder t =
    (case tx_transponder t of None \<Rightarrow> False | Some n \<Rightarrow> \<not> transponder_is_empty n)"

definition submission_lag :: "'d transaction \<Rightarrow> duration" where
  "submission_lag t = time_sub (tx_received_at t) (tx_occurred_at t)"

section \<open>The idempotency key\<close>

record key =
  key_source :: string
  key_source_reference :: string

definition key_of :: "'d transaction \<Rightarrow> key" where
  "key_of t = \<lparr>key_source = tx_source t, key_source_reference = tx_source_reference t\<rparr>"

text \<open>What a call of \<open>Store.Ingest\<close> reports, and the error of the lookups.\<close>

record 'd ingest_outcome =
  out_transaction :: "'d transaction"
  out_duplicate :: bool
  out_divergent :: bool

definition err_not_found :: string where
  "err_not_found = ''transaction not found''"

lemmas transaction_eval [model_defs] =
  has_plate_def has_transponder_def submission_lag_def key_of_def err_not_found_def

lemma key_of_eq_iff:
  "key_of t = key_of u \<longleftrightarrow>
    tx_source t = tx_source u \<and> tx_source_reference t = tx_source_reference u"
  by (simp add: key_of_def)

end
