(* ===== verification/Type_Set.thy ===== *)
theory Type_Set
  imports Go_Strings
begin

text \<open>
  \<open>internal/transaction/types.go\<close>: the operator's set of accepted transaction types. The
  read-write lock makes each method one atomic step, so a method is a function of the map it
  reads and \<open>Replace\<close> a replacement of it.
\<close>

record type_set =
  ts_by_key :: "(string, string) gomap"

definition type_key :: "('a) unicode_scheme \<Rightarrow> string \<Rightarrow> string" where
  "type_key U t = to_lower U (trim_space t)"

fun replace_loop ::
  "('a) unicode_scheme \<Rightarrow> string list \<Rightarrow> (string, string) gomap \<Rightarrow> (string, string) gomap" where
  "replace_loop U [] m = m"
| "replace_loop U (t # ts) m =
    replace_loop U ts (if type_key U t \<noteq> [] then gm_set (type_key U t) (trim_space t) m else m)"

definition replace_types :: "('a) unicode_scheme \<Rightarrow> string list \<Rightarrow> type_set \<Rightarrow> type_set" where
  "replace_types U types s = s\<lparr>ts_by_key := replace_loop U types []\<rparr>"

definition new_type_set :: "('a) unicode_scheme \<Rightarrow> string list \<Rightarrow> type_set" where
  "new_type_set U types = replace_types U types \<lparr>ts_by_key = []\<rparr>"

definition canonical_type :: "('a) unicode_scheme \<Rightarrow> type_set \<Rightarrow> string \<Rightarrow> string option" where
  "canonical_type U s t =
    (let key = type_key U t in if key = [] then None else map_of (ts_by_key s) key)"

definition all_types :: "type_set \<Rightarrow> string list" where
  "all_types s = sort (map snd (ts_by_key s))"

definition type_count :: "type_set \<Rightarrow> nat" where
  "type_count s = length (ts_by_key s)"

section \<open>The invariant\<close>

text \<open>
  Keys are distinct and not empty, and every entry maps a key to a trimmed spelling with that
  key.
\<close>

definition ts_ok :: "('a) unicode_scheme \<Rightarrow> type_set \<Rightarrow> bool" where
  "ts_ok U s \<longleftrightarrow> gm_wf (ts_by_key s) \<and>
    (\<forall>(k, v) \<in> set (ts_by_key s). k \<noteq> [] \<and> trim_space v = v \<and> type_key U v = k)"

lemma type_key_trim [simp]: "type_key U (trim_space t) = type_key U t"
  by (simp add: type_key_def)

lemma type_key_Nil [simp]: "type_key U [] = []"
  by (simp add: type_key_def)

lemma set_gm_set:
  "(k', v') \<in> set (gm_set k v m) \<Longrightarrow> k' = k \<and> v' = v \<or> (k', v') \<in> set m"
  by (induction m) (auto simp: gm_set_def split: if_splits)

lemma ts_ok_set:
  assumes "ts_ok U \<lparr>ts_by_key = m\<rparr>" and "type_key U t \<noteq> []"
  shows "ts_ok U \<lparr>ts_by_key = gm_set (type_key U t) (trim_space t) m\<rparr>"
  using assms set_gm_set by (fastforce simp: ts_ok_def)

lemma ts_ok_replace_loop:
  "ts_ok U \<lparr>ts_by_key = m\<rparr> \<Longrightarrow> ts_ok U \<lparr>ts_by_key = replace_loop U ts m\<rparr>"
  by (induction ts arbitrary: m) (auto simp: ts_ok_set)

lemma ts_ok_replace: "ts_ok U (replace_types U types s)"
  using ts_ok_replace_loop [of U "[]" types] by (simp add: replace_types_def ts_ok_def)

lemma ts_ok_new: "ts_ok U (new_type_set U types)"
  by (simp add: new_type_set_def ts_ok_replace)

section \<open>What a lookup finds\<close>

lemma replace_loop_get:
  "k \<noteq> [] \<Longrightarrow> map_of (replace_loop U ts m) k =
    (case find (\<lambda>t. type_key U t = k) (rev ts) of
       Some t \<Rightarrow> Some (trim_space t) | None \<Rightarrow> map_of m k)"
proof (induction ts arbitrary: m)
  case (Cons t ts)
  have "find P (xs @ [y]) = (case find P xs of None \<Rightarrow> if P y then Some y else None | r \<Rightarrow> r)"
    for P and xs :: "string list" and y
    by (induction xs) auto
  with Cons show ?case by (auto split: option.splits)
qed simp

lemma canonical_replace:
  "canonical_type U (replace_types U types s) t =
    (if type_key U t = [] then None
     else map_option trim_space (find (\<lambda>t'. type_key U t' = type_key U t) (rev types)))"
  by (simp add: canonical_type_def replace_types_def replace_loop_get Let_def split: option.splits)

lemma configured_accepted:
  assumes "t \<in> set types" and "trim_space t \<noteq> []"
  shows "canonical_type U (new_type_set U types) t \<noteq> None"
  using assms by (auto simp: new_type_set_def canonical_replace type_key_def to_lower_eq_Nil find_None_iff)

lemma canonical_type_key_cong:
  "type_key U t = type_key U t' \<Longrightarrow> canonical_type U s t = canonical_type U s t'"
  by (simp add: canonical_type_def)

lemma canonical_Some:
  assumes "ts_ok U s" and "canonical_type U s t = Some c"
  shows "type_key U c = type_key U t" and "trim_space c = c" and "c \<noteq> []"
proof -
  have key: "type_key U t \<noteq> []" "(type_key U t, c) \<in> set (ts_by_key s)"
    using assms by (auto simp: canonical_type_def Let_def ts_ok_def gm_wf_def split: if_splits)
  with assms(1) show "type_key U c = type_key U t" and "trim_space c = c"
    by (auto simp: ts_ok_def)
  with key(1) show "c \<noteq> []" by auto
qed

lemma canonical_fixpoint:
  "ts_ok U s \<Longrightarrow> canonical_type U s t = Some c \<Longrightarrow> canonical_type U s c = Some c"
  using canonical_Some(1) [of U s t c] canonical_type_key_cong by metis

lemma type_key_spaces_case:
  assumes "list_all ascii_space p" and "list_all ascii_space q" and "list_all is_ascii s"
    and "list_all is_ascii t" and "map ascii_lower s = map ascii_lower t"
  shows "type_key U (p @ s @ q) = type_key U t"
proof -
  have "map ascii_lower (trim_space s) = map ascii_lower (trim_space t)"
    using assms(3-5) trim_space_map [of s ascii_lower] trim_space_map [of t ascii_lower] by simp
  then show ?thesis
    using assms(3,4)
    by (simp add: type_key_def trim_space_spaces [OF assms(1,2)] list_all_trim_space)
qed

lemma set_all_types: "ts_ok U s \<Longrightarrow> c \<in> set (all_types s) \<longleftrightarrow> canonical_type U s c = Some c"
proof -
  assume ok: "ts_ok U s"
  have "canonical_type U s c = Some c" if "(k, c) \<in> set (ts_by_key s)" for k
    using that ok by (auto simp: ts_ok_def canonical_type_def Let_def gm_wf_def)
  moreover have "(type_key U c, c) \<in> set (ts_by_key s)" if "canonical_type U s c = Some c"
    using that ok by (auto simp: canonical_type_def Let_def ts_ok_def gm_wf_def split: if_splits)
  ultimately show ?thesis by (force simp: all_types_def)
qed

lemma distinct_all_types: "ts_ok U s \<Longrightarrow> distinct (all_types s)"
proof -
  assume ok: "ts_ok U s"
  then have "map fst (ts_by_key s) = map (type_key U) (map snd (ts_by_key s))"
    by (auto simp: ts_ok_def)
  with ok have "distinct (map (type_key U) (map snd (ts_by_key s)))"
    by (simp add: ts_ok_def gm_wf_def)
  then show ?thesis by (simp only: all_types_def distinct_sort distinct_map)
qed

lemmas type_set_eval [model_defs] =
  type_key_def replace_types_def new_type_set_def canonical_type_def all_types_def type_count_def

section \<open>Properties\<close>

text \<open>After \<open>Replace\<close> the set answers from the new list alone: a type is accepted exactly
  when some listed type has its key, and the answer is the trimmed spelling of the last such
  entry. Nothing of the old set is left, and a blank type is never accepted.\<close>

theorem replace_then_canonical:
  "canonical_type U (replace_types U types s) t =
    (if type_key U t = [] then None
     else map_option trim_space (find (\<lambda>t'. type_key U t' = type_key U t) (rev types)))"
  by (rule canonical_replace)

text \<open>A configured ASCII type is accepted under every change of case and with ASCII white
  space around it, always as the operator's own spelling, and that spelling is accepted as
  itself.\<close>

theorem configured_type_accepted:
  assumes "list_all ascii_space p" and "list_all ascii_space q" and "list_all is_ascii s"
    and "list_all is_ascii t" and "map ascii_lower s = map ascii_lower t"
    and "canonical_type U (new_type_set U types) t = Some c"
  shows "canonical_type U (new_type_set U types) (p @ s @ q) = Some c
    \<and> canonical_type U (new_type_set U types) c = Some c"
  using canonical_type_key_cong [OF type_key_spaces_case [OF assms(1-5), of U]] assms(6)
    canonical_fixpoint [OF ts_ok_new assms(6)] by simp

definition plain_unicode :: unicode where
  "plain_unicode = \<lparr>uc_upper = id, uc_lower = id, uc_print = (\<lambda>_. True)\<rparr>"

theorem configured_type_accepted_witness:
  "canonical_type plain_unicode (new_type_set plain_unicode [''Toll'', '' fee ''])
      '' TOLL '' = Some ''Toll''
    \<and> canonical_type plain_unicode (new_type_set plain_unicode [''Toll'', '' fee ''])
      ''Toll'' = Some ''Toll''"
proof -
  have "list_all ascii_space '' ''" "list_all is_ascii ''TOLL''" "list_all is_ascii ''toll''"
    "map ascii_lower ''TOLL'' = map ascii_lower ''toll''"
    "canonical_type plain_unicode (new_type_set plain_unicode [''Toll'', '' fee '']) ''toll''
      = Some ''Toll''" by code_simp+
  then show ?thesis
    using configured_type_accepted [of "'' ''" "'' ''" "''TOLL''" "''toll''" plain_unicode
        "[''Toll'', '' fee '']" "''Toll''"] by simp
qed

text \<open>\<open>All\<close> lists exactly the spellings the set answers with, sorted and without repetition,
  and \<open>Len\<close> is their number.\<close>

theorem all_types_listing:
  "sorted (all_types (new_type_set U types)) \<and> distinct (all_types (new_type_set U types))
    \<and> length (all_types (new_type_set U types)) = type_count (new_type_set U types)
    \<and> set (all_types (new_type_set U types)) =
      {c. \<exists>t. canonical_type U (new_type_set U types) t = Some c}"
proof -
  let ?s = "new_type_set U types"
  have "set (all_types ?s) = {c. \<exists>t. canonical_type U ?s t = Some c}"
    using set_all_types [OF ts_ok_new] canonical_fixpoint [OF ts_ok_new] by blast
  then show ?thesis
    using distinct_all_types [OF ts_ok_new, of U types]
    by (simp add: type_count_def) (simp add: all_types_def)
qed

end
