(* ===== verification/Rules.thy ===== *)
theory Rules
  imports Transaction Type_Set
begin

text \<open>
  \<open>internal/transaction/validate.go\<close>: the semantic rules and \<open>Accept\<close>. The clock and the id
  source change the world they read, so the operations that call them thread a state \<open>'w\<close>: an
  injected function replaces the system's own, which is the record \<open>runtime\<close>.
\<close>

definition default_max_clock_skew :: duration where
  "default_max_clock_skew = 5 * minute"

record rule_error =
  re_field :: string
  re_reason :: string

definition rule_error_text :: "rule_error \<Rightarrow> string" where
  "rule_error_text e =
    (if re_field e = [] then re_reason e else re_field e @ '': '' @ re_reason e)"

text \<open>The system clock (\<open>time.Now\<close>) and \<open>uuid.NewV7\<close>, which may fail with an error text.\<close>

record 'w runtime =
  sys_now :: "'w \<Rightarrow> gotime \<times> 'w"
  sys_new_v7 :: "'w \<Rightarrow> (string + uuid) \<times> 'w"

record 'w rules =
  r_types :: "type_set option"
  r_default_currency :: currency
  r_max_clock_skew :: duration
  r_now :: "('w \<Rightarrow> gotime \<times> 'w) option"
  r_new_id :: "('w \<Rightarrow> (string + uuid) \<times> 'w) option"

definition rules_now :: "'w runtime \<Rightarrow> 'w rules \<Rightarrow> 'w \<Rightarrow> gotime \<times> 'w" where
  "rules_now S r w =
    (case r_now r of
       Some now \<Rightarrow> now w
     | None \<Rightarrow> (let (t, w') = sys_now S w in (time_utc t, w')))"

definition rules_new_id :: "'w runtime \<Rightarrow> 'w rules \<Rightarrow> 'w \<Rightarrow> (string + uuid) \<times> 'w" where
  "rules_new_id S r w = (case r_new_id r of Some f \<Rightarrow> f w | None \<Rightarrow> sys_new_v7 S w)"

section \<open>The rules\<close>

definition max_echoed_value_length :: nat where
  "max_echoed_value_length = 64"

text \<open>\<open>truncate\<close> cuts at a byte, and appends the three bytes of an ellipsis.\<close>

definition ellipsis :: string where
  "ellipsis = [CHR 0xE2, CHR 0x80, CHR 0xA6]"

definition truncate_value :: "string \<Rightarrow> nat \<Rightarrow> string" where
  "truncate_value s limit = (if length s \<le> limit then s else take limit s @ ellipsis)"

text \<open>A rule returns its value together with a problem, or none.\<close>

definition validate_type ::
  "('a) unicode_scheme \<Rightarrow> 'w rules \<Rightarrow> string \<Rightarrow> string \<times> rule_error option" where
  "validate_type U r raw =
    (case r_types r of
       None \<Rightarrow>
         ([], Some \<lparr>re_field = ''transaction_type'',
            re_reason = ''no transaction types are configured for this deployment''\<rparr>)
     | Some types \<Rightarrow>
         (case canonical_type U types raw of
            None \<Rightarrow>
              ([], Some \<lparr>re_field = ''transaction_type'',
                 re_reason = ''unrecognized value ''
                   @ quote U (truncate_value raw max_echoed_value_length)\<rparr>)
          | Some canonical \<Rightarrow> (canonical, None)))"

definition effective_skew :: "'w rules \<Rightarrow> duration" where
  "effective_skew r =
    (if r_max_clock_skew r \<le> 0 then default_max_clock_skew else r_max_clock_skew r)"

definition validate_time ::
  "'w rules \<Rightarrow> gotime \<Rightarrow> gotime \<Rightarrow> gotime \<times> rule_error option" where
  "validate_time r occurred_at now =
    (if time_is_zero occurred_at
     then (zero_time, Some \<lparr>re_field = ''transaction_time_utc'', re_reason = ''is required''\<rparr>)
     else if time_after occurred_at (time_add now (effective_skew r))
     then (zero_time, Some \<lparr>re_field = ''transaction_time_utc'',
            re_reason = ''is more than '' @ dur_string (effective_skew r) @ '' in the future''\<rparr>)
     else (time_utc occurred_at, None))"

definition resolve_currency ::
  "('a) unicode_scheme \<Rightarrow> 'w rules \<Rightarrow> string \<Rightarrow> currency \<times> rule_error option" where
  "resolve_currency U r raw =
    (if raw = [] then
       (if currency_is_zero (r_default_currency r)
        then (no_currency, Some \<lparr>re_field = ''currency'',
          re_reason =
            ''is required because this deployment has no default currency configured''\<rparr>)
        else (r_default_currency r, None))
     else
       (case lookup U raw of
          None \<Rightarrow> (no_currency, Some \<lparr>re_field = ''currency'',
                   re_reason = ''unrecognized ISO-4217 code '' @ quote U raw\<rparr>)
        | Some c \<Rightarrow> (c, None)))"

definition amount_reason :: "money_error \<Rightarrow> currency \<Rightarrow> string" where
  "amount_reason e c =
    (if is_err_empty e then ''is required''
     else if is_err_scale e then
       ''has more than '' @ show_int (sint (cur_exponent c)) @ '' decimal places, which ''
         @ cur_code c @ '' does not allow''
     else if is_err_syntax e then
       ''must be a decimal string, for example '' @ [CHR 0x22] @ ''12.50'' @ [CHR 0x22]
     else ''is not a valid amount'')"

text \<open>The zero value of an amount is not used where there is a problem: it is \<^const>\<open>None\<close>.\<close>

definition validate_amount ::
  "('d, 'a) lib_scheme \<Rightarrow> string \<Rightarrow> currency \<Rightarrow> 'd amount option \<times> rule_error option" where
  "validate_amount L raw c =
    (case parse L raw c of
       Inl e \<Rightarrow> (None, Some \<lparr>re_field = ''base_amount'', re_reason = amount_reason e c\<rparr>)
     | Inr a \<Rightarrow>
         if amount_is_negative L a
         then (None, Some \<lparr>re_field = ''base_amount'', re_reason = ''must not be negative''\<rparr>)
         else (Some a, None))"

definition validate_identity ::
  "submission \<Rightarrow> plate option \<times> transponder option \<times> rule_error option" where
  "validate_identity s =
    (let plate =
           (case sub_plate s of
              None \<Rightarrow> None
            | Some p \<Rightarrow>
                (let q = new_plate (pr_number p) (pr_jurisdiction p)
                 in if plate_is_empty q then None else Some q));
         transponder =
           (if sub_transponder s = [] then None
            else (let t = new_transponder (sub_transponder s)
                  in if transponder_is_empty t then None else Some t))
     in if plate = None \<and> transponder = None
        then (None, None, Some \<lparr>re_field = [], re_reason =
          ''at least one usable identifier is required: plate or transponder_number''\<rparr>)
        else (plate, transponder, None))"

definition append_if :: "rule_error list \<Rightarrow> rule_error option \<Rightarrow> rule_error list" where
  "append_if problems p = (case p of None \<Rightarrow> problems | Some e \<Rightarrow> problems @ [e])"

section \<open>Accept\<close>

text \<open>
  The three results: an accepted transaction, the producer's problems (a 400), or a fault of
  the service (a 500).
\<close>

datatype 'd acceptance =
    Accepted "'d transaction"
  | Rejected "rule_error list"
  | Faulted string

definition accept ::
  "('d, 'a) lib_scheme \<Rightarrow> 'w runtime \<Rightarrow> 'w rules \<Rightarrow> submission \<Rightarrow> 'w \<Rightarrow> 'd acceptance \<times> 'w" where
  "accept L S r s w =
    (let (now, w1) = rules_now S r w;
         (type, type_problem) = validate_type L r (sub_type s);
         problems = append_if [] type_problem;
         (occurred_at, time_problem) = validate_time r (sub_occurred_at s) now;
         problems = append_if problems time_problem;
         (c, currency_problem) = resolve_currency L r (sub_currency s);
         problems = append_if problems currency_problem;
         (amount, amount_problem) =
           (if currency_problem = None then validate_amount L (sub_base_amount s) c
            else (None, None));
         problems = append_if problems amount_problem;
         (plate, transponder, identity_problem) = validate_identity s;
         problems = append_if problems identity_problem
     in if problems \<noteq> [] then (Rejected problems, w1)
        else
          (case rules_new_id S r w1 of
             (Inl e, w2) \<Rightarrow> (Faulted (''generate transaction id: '' @ e), w2)
           | (Inr i, w2) \<Rightarrow>
               (Accepted
                 \<lparr>tx_id = i, tx_source = sub_source s,
                  tx_source_reference = sub_source_reference s, tx_type = type,
                  tx_occurred_at = occurred_at, tx_received_at = now, tx_plate = plate,
                  tx_transponder = transponder, tx_base_amount = the amount,
                  tx_location = sub_location s, tx_metadata = sub_metadata s,
                  tx_association = AssociationReceived, tx_settlement = SettlementPriced\<rparr>, w2)))"

lemmas rules_eval [model_defs] =
  default_max_clock_skew_def rule_error_text_def rules_now_def rules_new_id_def
  max_echoed_value_length_def ellipsis_def truncate_value_def validate_type_def
  effective_skew_def validate_time_def resolve_currency_def amount_reason_def
  validate_amount_def validate_identity_def append_if_def accept_def

section \<open>What makes a submission acceptable\<close>

text \<open>
  The rules as conditions, without the code's order and without its error texts: one predicate
  per rule and their conjunction.
\<close>

definition type_ok :: "('a) unicode_scheme \<Rightarrow> 'w rules \<Rightarrow> submission \<Rightarrow> bool" where
  "type_ok U r s \<longleftrightarrow> (\<exists>ts. r_types r = Some ts \<and> canonical_type U ts (sub_type s) \<noteq> None)"

definition time_ok :: "'w rules \<Rightarrow> gotime \<Rightarrow> submission \<Rightarrow> bool" where
  "time_ok r now s \<longleftrightarrow>
    t_ns (sub_occurred_at s) \<noteq> 0 \<and> t_ns (sub_occurred_at s) \<le> t_ns now + effective_skew r"

definition currency_for ::
  "('a) unicode_scheme \<Rightarrow> 'w rules \<Rightarrow> submission \<Rightarrow> currency option" where
  "currency_for U r s =
    (if sub_currency s \<noteq> [] then lookup U (sub_currency s)
     else if cur_code (r_default_currency r) = [] then None
     else Some (r_default_currency r))"

definition amount_ok :: "submission \<Rightarrow> currency \<Rightarrow> bool" where
  "amount_ok s c \<longleftrightarrow> is_numeral (sub_base_amount s) \<and> 0 \<le> numeral_val (sub_base_amount s)
    \<and> int (length (frac_part (sub_base_amount s))) \<le> sint (cur_exponent c)"

definition identity_ok :: "submission \<Rightarrow> bool" where
  "identity_ok s \<longleftrightarrow>
    (\<exists>p. sub_plate s = Some p \<and> list_ex is_alnum (pr_number p))
      \<or> list_ex is_alnum (sub_transponder s)"

definition acceptable ::
  "('a) unicode_scheme \<Rightarrow> 'w rules \<Rightarrow> gotime \<Rightarrow> submission \<Rightarrow> bool" where
  "acceptable U r now s \<longleftrightarrow> type_ok U r s \<and> time_ok r now s
    \<and> (\<exists>c. currency_for U r s = Some c \<and> amount_ok s c) \<and> identity_ok s"

section \<open>Each rule decides its condition\<close>

lemma validate_type_ok: "snd (validate_type U r (sub_type s)) = None \<longleftrightarrow> type_ok U r s"
  by (auto simp: validate_type_def type_ok_def split: option.splits)

lemma validate_type_value:
  "snd (validate_type U r raw) = None \<longleftrightarrow>
    (\<exists>ts. r_types r = Some ts \<and> canonical_type U ts raw = Some (fst (validate_type U r raw)))"
  by (auto simp: validate_type_def split: option.splits)

lemma validate_time_ok: "snd (validate_time r (sub_occurred_at s) now) = None \<longleftrightarrow> time_ok r now s"
  by (auto simp: validate_time_def time_ok_def time_is_zero_def time_after_def time_add_def)

lemma validate_time_value:
  "snd (validate_time r t now) = None \<Longrightarrow> fst (validate_time r t now) = time_utc t"
  by (auto simp: validate_time_def split: if_splits)

lemma resolve_currency_eq:
  "case currency_for U r s of
     None \<Rightarrow> snd (resolve_currency U r (sub_currency s)) \<noteq> None
   | Some c \<Rightarrow> resolve_currency U r (sub_currency s) = (c, None)"
  by (auto simp: resolve_currency_def currency_for_def currency_is_zero_def split: option.splits)

lemma resolve_currency_ok:
  "snd (resolve_currency U r (sub_currency s)) = None \<longleftrightarrow> currency_for U r s \<noteq> None"
  using resolve_currency_eq [of U r s] by (auto split: option.splits)

lemma resolve_currency_value:
  "currency_for U r s = Some c \<Longrightarrow> resolve_currency U r (sub_currency s) = (c, None)"
  using resolve_currency_eq [of U r s] by simp

lemma validate_amount_value:
  "snd (validate_amount L raw c) = None \<longleftrightarrow>
    (\<exists>a. fst (validate_amount L raw c) = Some a \<and> parse L raw c = Inr a
      \<and> \<not> amount_is_negative L a)"
  by (auto simp: validate_amount_def split: sum.splits)

lemma validate_amount_ok:
  assumes "decimal_ok L v" and "length (sub_base_amount s) < 2 ^ 31"
  shows "snd (validate_amount L (sub_base_amount s) c) = None \<longleftrightarrow> amount_ok s c"
proof -
  let ?raw = "sub_base_amount s"
  have "length (frac_part ?raw) < 2 ^ 31" using length_frac_part assms(2) le_less_trans by blast
  then have "is_numeral ?raw \<Longrightarrow> sint (decimal_places ?raw) = int (length (frac_part ?raw))"
    by (simp add: decimal_places_numeral sint_of_nat_small)
  moreover have "is_numeral ?raw \<Longrightarrow> \<exists>d. dec_new L ?raw = Some d \<and> v d = numeral_val ?raw"
    using decimal_ok_new [OF assms(1)] .
  ultimately show ?thesis
    by (auto simp: validate_amount_def amount_ok_def parse_def decimal_syntax_iff is_numeral_nonempty
        amount_is_negative_def decimal_ok_negative [OF assms(1)] split: sum.splits if_splits
        option.splits)
qed

lemma validate_identity_ok: "snd (snd (validate_identity s)) = None \<longleftrightarrow> identity_ok s"
  by (auto simp: validate_identity_def identity_ok_def Let_def plate_is_empty_def new_plate_def
      transponder_is_empty_def new_transponder_def canonicalize_empty_iff split: option.splits)

text \<open>What a successful identity check returns: usable reads, verbatim and with their keys.\<close>

lemma validate_identity_value:
  assumes "validate_identity s = (p, t, None)"
  shows "p \<noteq> None \<or> t \<noteq> None"
    and "p = Some q \<Longrightarrow> \<not> plate_is_empty q \<and>
      (\<exists>x. sub_plate s = Some x \<and> q = new_plate (pr_number x) (pr_jurisdiction x))"
    and "t = Some n \<Longrightarrow> \<not> transponder_is_empty n \<and> n = new_transponder (sub_transponder s)"
  using assms by (auto simp: validate_identity_def Let_def split: option.splits if_splits)

lemmas rule_values = validate_type_value validate_time_value resolve_currency_value
  validate_amount_value

lemma append_if_simps [simp]: "append_if ps None = ps" "append_if ps (Some e) = ps @ [e]"
  by (simp_all add: append_if_def)

section \<open>The shape of Accept\<close>

definition rule_problems ::
  "('d, 'a) lib_scheme \<Rightarrow> 'w rules \<Rightarrow> gotime \<Rightarrow> submission \<Rightarrow> rule_error list" where
  "rule_problems L r now s =
    (let cur = resolve_currency L r (sub_currency s)
     in List.map_filter id
       [snd (validate_type L r (sub_type s)),
        snd (validate_time r (sub_occurred_at s) now),
        snd cur,
        (if snd cur = None then snd (validate_amount L (sub_base_amount s) (fst cur)) else None),
        snd (snd (validate_identity s))])"

definition accepted_tx ::
  "('d, 'a) lib_scheme \<Rightarrow> 'w rules \<Rightarrow> gotime \<Rightarrow> submission \<Rightarrow> uuid \<Rightarrow> 'd transaction" where
  "accepted_tx L r now s i =
    \<lparr>tx_id = i, tx_source = sub_source s, tx_source_reference = sub_source_reference s,
     tx_type = fst (validate_type L r (sub_type s)),
     tx_occurred_at = fst (validate_time r (sub_occurred_at s) now),
     tx_received_at = now, tx_plate = fst (validate_identity s),
     tx_transponder = fst (snd (validate_identity s)),
     tx_base_amount =
       the (fst (validate_amount L (sub_base_amount s) (fst (resolve_currency L r (sub_currency s))))),
     tx_location = sub_location s, tx_metadata = sub_metadata s,
     tx_association = AssociationReceived, tx_settlement = SettlementPriced\<rparr>"

lemma rule_problems_append_if:
  "rule_problems L r now s =
    append_if (append_if (append_if (append_if (append_if []
      (snd (validate_type L r (sub_type s))))
      (snd (validate_time r (sub_occurred_at s) now)))
      (snd (resolve_currency L r (sub_currency s))))
      (if snd (resolve_currency L r (sub_currency s)) = None
       then snd (validate_amount L (sub_base_amount s) (fst (resolve_currency L r (sub_currency s))))
       else None))
      (snd (snd (validate_identity s)))"
  unfolding rule_problems_def Let_def
  by (simp add: map_filter_simps append_if_def split: option.splits)

lemma accept_eq:
  "accept L S r s w =
    (let now = fst (rules_now S r w); w1 = snd (rules_now S r w); ps = rule_problems L r now s
     in if ps \<noteq> [] then (Rejected ps, w1)
        else map_prod (case_sum (\<lambda>e. Faulted (''generate transaction id: '' @ e))
               (\<lambda>i. Accepted (accepted_tx L r now s i))) id (rules_new_id S r w1))"
proof -
  obtain z w2 where "rules_new_id S r (snd (rules_now S r w)) = (z, w2)" by fastforce
  then show ?thesis
    unfolding accept_def rule_problems_append_if accepted_tx_def Let_def
    by (cases "snd (resolve_currency L r (sub_currency s))"; cases z)
       (auto simp: case_prod_beta append_if_def split: option.splits)
qed

text \<open>The fields of the problems, in the order they are reported.\<close>

definition report :: "bool \<Rightarrow> string \<Rightarrow> string list" where
  "report ok f = (if ok then [] else [f])"

lemma validate_type_field:
  "snd (validate_type U r raw) = Some e \<Longrightarrow> re_field e = ''transaction_type''"
  by (auto simp: validate_type_def split: option.splits)

lemma validate_time_field:
  "snd (validate_time r t now) = Some e \<Longrightarrow> re_field e = ''transaction_time_utc''"
  by (auto simp: validate_time_def split: if_splits)

lemma resolve_currency_field:
  "snd (resolve_currency U r raw) = Some e \<Longrightarrow> re_field e = ''currency''"
  by (auto simp: resolve_currency_def split: if_splits option.splits)

lemma validate_amount_field:
  "snd (validate_amount L raw c) = Some e \<Longrightarrow> re_field e = ''base_amount''"
  by (auto simp: validate_amount_def split: sum.splits if_splits)

lemma validate_identity_field: "snd (snd (validate_identity s)) = Some e \<Longrightarrow> re_field e = []"
  by (auto simp: validate_identity_def Let_def split: option.splits if_splits)

lemmas rule_fields = validate_type_field validate_time_field resolve_currency_field
  validate_amount_field validate_identity_field

lemma report_option:
  "(\<And>e. p = Some e \<Longrightarrow> re_field e = f) \<Longrightarrow>
    map re_field (append_if ps p) = map re_field ps @ report (p = None) f"
  by (cases p) (simp_all add: report_def)

lemma rule_problems_fields:
  "map re_field (rule_problems L r now s) =
    report (snd (validate_type L r (sub_type s)) = None) ''transaction_type''
    @ report (snd (validate_time r (sub_occurred_at s) now) = None) ''transaction_time_utc''
    @ report (snd (resolve_currency L r (sub_currency s)) = None) ''currency''
    @ report (snd (resolve_currency L r (sub_currency s)) \<noteq> None
        \<or> snd (validate_amount L (sub_base_amount s)
              (fst (resolve_currency L r (sub_currency s)))) = None) ''base_amount''
    @ report (snd (snd (validate_identity s)) = None) []"
proof -
  let ?c = "resolve_currency L r (sub_currency s)"
  let ?a = "if snd ?c = None then snd (validate_amount L (sub_base_amount s) (fst ?c)) else None"
  have amount: "?a = Some e \<Longrightarrow> re_field e = ''base_amount''" for e
    by (auto split: if_splits intro: validate_amount_field)
  have "?a = None \<longleftrightarrow>
      snd ?c \<noteq> None \<or> snd (validate_amount L (sub_base_amount s) (fst ?c)) = None"
    by auto
  then show ?thesis
    unfolding rule_problems_append_if
    by (simp only: report_option [OF rule_fields(1)] report_option [OF rule_fields(2)]
        report_option [OF rule_fields(3)] report_option [OF rule_fields(5)]
        report_option [OF amount] list.map append_Nil append_assoc)
qed

lemma rule_problems_report:
  assumes "decimal_ok L v" and "length (sub_base_amount s) < 2 ^ 31"
  shows "map re_field (rule_problems L r now s) =
    report (type_ok L r s) ''transaction_type''
    @ report (time_ok r now s) ''transaction_time_utc''
    @ (case currency_for L r s of
         None \<Rightarrow> [''currency''] | Some c \<Rightarrow> report (amount_ok s c) ''base_amount'')
    @ report (identity_ok s) []"
proof (cases "currency_for L r s")
  case None
  then show ?thesis
    by (simp add: rule_problems_fields validate_type_ok validate_time_ok validate_identity_ok
        resolve_currency_ok) (simp add: report_def)
next
  case (Some c)
  then show ?thesis
    by (simp add: rule_problems_fields validate_type_ok validate_time_ok validate_identity_ok
        resolve_currency_value validate_amount_ok [OF assms]) (simp add: report_def)
qed

lemma rule_problems_none:
  assumes "decimal_ok L v" and "length (sub_base_amount s) < 2 ^ 31"
  shows "rule_problems L r now s = [] \<longleftrightarrow> acceptable L r now s"
proof -
  have "rule_problems L r now s = [] \<longleftrightarrow> map re_field (rule_problems L r now s) = []" by simp
  then show ?thesis
    unfolding rule_problems_report [OF assms]
    by (auto simp: acceptable_def report_def split: option.splits)
qed

lemma accept_Accepted:
  assumes "accept L S r s w = (Accepted tx, w')"
  shows "rule_problems L r (fst (rules_now S r w)) s = []"
    and "\<exists>i. rules_new_id S r (snd (rules_now S r w)) = (Inr i, w')
      \<and> tx = accepted_tx L r (fst (rules_now S r w)) s i"
  using assms
  by (auto simp: accept_eq Let_def split: if_splits prod.splits sum.splits)
     (cases "rules_new_id S r (snd (rules_now S r w))"; auto split: sum.splits)+

lemma accept_Rejected:
  assumes "accept L S r s w = (Rejected ps, w')"
  shows "ps = rule_problems L r (fst (rules_now S r w)) s" and "ps \<noteq> []"
    and "w' = snd (rules_now S r w)"
  using assms
  by (cases "rules_new_id S r (snd (rules_now S r w))";
      auto simp: accept_eq Let_def split: if_splits sum.splits)+

lemma rule_problems_Nil_parts:
  assumes "rule_problems L r now s = []"
  shows "snd (validate_type L r (sub_type s)) = None"
    and "snd (validate_time r (sub_occurred_at s) now) = None"
    and "snd (resolve_currency L r (sub_currency s)) = None"
    and "snd (validate_amount L (sub_base_amount s)
      (fst (resolve_currency L r (sub_currency s)))) = None"
    and "snd (snd (validate_identity s)) = None"
proof -
  have "map re_field (rule_problems L r now s) = []" using assms by simp
  then show "snd (validate_type L r (sub_type s)) = None"
    "snd (validate_time r (sub_occurred_at s) now) = None"
    "snd (resolve_currency L r (sub_currency s)) = None"
    "snd (validate_amount L (sub_base_amount s)
      (fst (resolve_currency L r (sub_currency s)))) = None"
    "snd (snd (validate_identity s)) = None"
    unfolding rule_problems_fields by (auto simp: report_def split: if_splits)
qed

lemma effective_skew_pos: "0 < effective_skew r"
  by (simp add: effective_skew_def default_max_clock_skew_def minute_def second_def)

text \<open>
  The invariant of an accepted transaction: what every later component may rely on. Its amount
  was parsed from the producer's text in its currency and is not negative; each read it carries
  is usable and has the keys of its text, and there is at least one; it is stamped in UTC and
  starts as received and priced.
\<close>

definition tx_ok :: "('d, 'a) lib_scheme \<Rightarrow> 'd transaction \<Rightarrow> bool" where
  "tx_ok L t \<longleftrightarrow>
    (has_plate t \<or> has_transponder t)
    \<and> (\<forall>p. tx_plate t = Some p \<longrightarrow>
        \<not> plate_is_empty p \<and> p = new_plate (pl_number p) (pl_jurisdiction p))
    \<and> (\<forall>n. tx_transponder t = Some n \<longrightarrow>
        \<not> transponder_is_empty n \<and> n = new_transponder (tr_number n))
    \<and> parse L (amt_as_received (tx_base_amount t)) (amt_currency (tx_base_amount t))
        = Inr (tx_base_amount t)
    \<and> \<not> amount_is_negative L (tx_base_amount t)
    \<and> t_off (tx_occurred_at t) = 0 \<and> \<not> time_is_zero (tx_occurred_at t)
    \<and> tx_association t = AssociationReceived \<and> tx_settlement t = SettlementPriced"

lemma accepted_identity:
  assumes "snd (snd (validate_identity s)) = None"
  shows "has_plate (accepted_tx L r now s i) \<or> has_transponder (accepted_tx L r now s i)"
    and "tx_plate (accepted_tx L r now s i) = Some p \<Longrightarrow>
      \<not> plate_is_empty p \<and> p = new_plate (pl_number p) (pl_jurisdiction p)
      \<and> sub_plate s = Some \<lparr>pr_number = pl_number p, pr_jurisdiction = pl_jurisdiction p\<rparr>"
    and "tx_transponder (accepted_tx L r now s i) = Some n \<Longrightarrow>
      \<not> transponder_is_empty n \<and> n = new_transponder (tr_number n)
      \<and> tr_number n = sub_transponder s"
proof -
  obtain a b where ab: "validate_identity s = (a, b, None)"
    using assms by (cases "validate_identity s") auto
  note vals = validate_identity_value [OF ab]
  show "has_plate (accepted_tx L r now s i) \<or> has_transponder (accepted_tx L r now s i)"
    using vals ab by (auto simp: accepted_tx_def has_plate_def has_transponder_def)
  show "\<not> plate_is_empty p \<and> p = new_plate (pl_number p) (pl_jurisdiction p)
      \<and> sub_plate s = Some \<lparr>pr_number = pl_number p, pr_jurisdiction = pl_jurisdiction p\<rparr>"
    if "tx_plate (accepted_tx L r now s i) = Some p"
    using vals(2) [of p] ab that by (auto simp: accepted_tx_def new_plate_def)
  show "\<not> transponder_is_empty n \<and> n = new_transponder (tr_number n)
      \<and> tr_number n = sub_transponder s"
    if "tx_transponder (accepted_tx L r now s i) = Some n"
    using vals(3) [of n] ab that by (auto simp: accepted_tx_def new_transponder_def)
qed

lemma accepted_amount:
  assumes "rule_problems L r now s = []"
  shows "\<exists>c. currency_for L r s = Some c
    \<and> parse L (sub_base_amount s) c = Inr (tx_base_amount (accepted_tx L r now s i))
    \<and> \<not> amount_is_negative L (tx_base_amount (accepted_tx L r now s i))"
proof -
  note parts = rule_problems_Nil_parts [OF assms]
  then obtain c where c: "currency_for L r s = Some c" using resolve_currency_ok by blast
  then show ?thesis
    using parts(4) resolve_currency_value [OF c] validate_amount_value [of L "sub_base_amount s" c]
    by (auto simp: accepted_tx_def)
qed

lemma accepted_time:
  assumes "rule_problems L r now s = []"
  shows "tx_occurred_at (accepted_tx L r now s i) = time_utc (sub_occurred_at s)"
    and "time_ok r now s"
  using rule_problems_Nil_parts(2) [OF assms] validate_time_value [of r "sub_occurred_at s" now]
    validate_time_ok [of r s now] by (simp_all add: accepted_tx_def)

lemma accepted_tx_ok:
  assumes "rule_problems L r now s = []"
  shows "tx_ok L (accepted_tx L r now s i)"
proof -
  let ?t = "accepted_tx L r now s i"
  have status: "tx_association ?t = AssociationReceived" "tx_settlement ?t = SettlementPriced"
    by (simp_all add: accepted_tx_def)
  have amount: "parse L (amt_as_received (tx_base_amount ?t)) (amt_currency (tx_base_amount ?t))
      = Inr (tx_base_amount ?t)" "\<not> amount_is_negative L (tx_base_amount ?t)"
    using accepted_amount [OF assms, of i] by (auto simp: parse_Inr_iff)
  have time: "t_off (tx_occurred_at ?t) = 0" "\<not> time_is_zero (tx_occurred_at ?t)"
    using accepted_time [OF assms] by (simp_all add: time_ok_def time_is_zero_def)
  note reads = accepted_identity [OF rule_problems_Nil_parts(5) [OF assms], where L = L and r = r
      and now = now and i = i]
  show ?thesis
    unfolding tx_ok_def
    by (intro conjI allI impI status amount time reads(1))
       (insert reads(2,3), blast+)
qed

section \<open>Properties\<close>

text \<open>
  A concrete deployment for the witnesses: a clock that stands at 2026-01-02T00:00:00Z and ids
  counted from one.
\<close>

definition demo_now :: gotime where
  "demo_now = \<lparr>t_ns = 739617 * day_ns, t_off = 0\<rparr>"

definition demo_clock :: "uuid \<Rightarrow> gotime \<times> uuid" where
  "demo_clock w = (demo_now, w)"

definition demo_new_id :: "uuid \<Rightarrow> (string + uuid) \<times> uuid" where
  "demo_new_id w = (Inr (w + 1), w + 1)"

definition demo_runtime :: "uuid runtime" where
  "demo_runtime = \<lparr>sys_now = demo_clock, sys_new_v7 = demo_new_id\<rparr>"

definition demo_rules :: "uuid rules" where
  "demo_rules =
    \<lparr>r_types = Some (new_type_set ref_lib [''toll'', ''parking'']),
     r_default_currency = \<lparr>cur_code = ''USD'', cur_exponent = 2\<rparr>,
     r_max_clock_skew = 0, r_now = None, r_new_id = None\<rparr>"

definition demo_submission :: submission where
  "demo_submission =
    \<lparr>sub_source = ''lane-7'', sub_source_reference = ''0001'', sub_type = '' TOLL'',
     sub_occurred_at = \<lparr>t_ns = 739616 * day_ns, t_off = 3600\<rparr>,
     sub_plate = Some \<lparr>pr_number = ''abc-123'', pr_jurisdiction = ''TX''\<rparr>,
     sub_transponder = [], sub_base_amount = ''12.50'', sub_currency = [],
     sub_location = None, sub_metadata = None\<rparr>"

definition demo_bad_submission :: submission where
  "demo_bad_submission = demo_submission
    \<lparr>sub_type := ''ferry'', sub_base_amount := ''12.505'', sub_plate := None\<rparr>"

lemmas demo_eval [model_defs] = demo_now_def demo_clock_def demo_new_id_def demo_runtime_def
  demo_rules_def demo_submission_def demo_bad_submission_def

definition demo_tx :: "refdec transaction" where
  "demo_tx = accepted_tx ref_lib demo_rules demo_now demo_submission 7"

lemma demo_accept: "accept ref_lib demo_runtime demo_rules demo_submission 6 = (Accepted demo_tx, 7)"
proof -
  have "rules_now demo_runtime demo_rules 6 = (demo_now, 6)"
    and "rules_new_id demo_runtime demo_rules 6 = (Inr 7, 7)"
    and "rule_problems ref_lib demo_rules demo_now demo_submission = []" by code_simp+
  then show ?thesis by (simp add: accept_eq demo_tx_def)
qed

lemma demo_tx_ok: "tx_ok ref_lib demo_tx"
proof -
  have "rule_problems ref_lib demo_rules demo_now demo_submission = []" by code_simp
  then show ?thesis unfolding demo_tx_def by (rule accepted_tx_ok)
qed

text \<open>C14: \<open>Accept\<close> decides the rules: it accepts exactly the submissions that meet every
  condition, an unacceptable one is answered with at least one problem and no error and costs
  no id, and the only error channel is the id source, reached only by an acceptable one.\<close>

theorem accept_decides:
  assumes "decimal_ok L v" and "length (sub_base_amount s) < 2 ^ 31"
    and "rules_now S r w = (now, w1)"
  shows "if acceptable L r now s
    then (case rules_new_id S r w1 of
            (Inl e, w2) \<Rightarrow> accept L S r s w = (Faulted (''generate transaction id: '' @ e), w2)
          | (Inr i, w2) \<Rightarrow> \<exists>tx. accept L S r s w = (Accepted tx, w2) \<and> tx_id tx = i)
    else (\<exists>ps. ps \<noteq> [] \<and> accept L S r s w = (Rejected ps, w1))"
proof (cases "acceptable L r now s")
  case True
  then show ?thesis
    using assms(3) rule_problems_none [OF assms(1,2), of r now]
    by (auto simp: accept_eq Let_def accepted_tx_def split: sum.splits prod.splits)
next
  case False
  then show ?thesis
    using assms(3) rule_problems_none [OF assms(1,2), of r now] by (simp add: accept_eq Let_def)
qed

theorem accept_decides_witness:
  "acceptable ref_lib demo_rules demo_now demo_submission
    \<and> (\<exists>tx. accept ref_lib demo_runtime demo_rules demo_submission 6 = (Accepted tx, 7)
        \<and> tx_id tx = 7)"
proof -
  have now: "rules_now demo_runtime demo_rules 6 = (demo_now, 6)"
    and id: "rules_new_id demo_runtime demo_rules 6 = (Inr 7, 7)"
    and fine: "rule_problems ref_lib demo_rules demo_now demo_submission = []"
    by code_simp+
  have len: "length (sub_base_amount demo_submission) < 2 ^ 31" by (simp add: demo_submission_def)
  have "acceptable ref_lib demo_rules demo_now demo_submission"
    using rule_problems_none [OF ref_lib_ok len] fine by blast
  then show ?thesis using accept_decides [OF ref_lib_ok len now] id by simp
qed

text \<open>A rejection reports every rule that fails, in a fixed order: the type, the time, then
  the currency or, only when a currency is resolved, the amount, and last the identity rule,
  which names no field.\<close>

theorem accept_reports_every_failure:
  assumes "decimal_ok L v" and "length (sub_base_amount s) < 2 ^ 31"
    and "rules_now S r w = (now, w1)" and "accept L S r s w = (Rejected ps, w')"
  shows "map re_field ps =
    report (type_ok L r s) ''transaction_type''
    @ report (time_ok r now s) ''transaction_time_utc''
    @ (case currency_for L r s of
         None \<Rightarrow> [''currency''] | Some c \<Rightarrow> report (amount_ok s c) ''base_amount'')
    @ report (identity_ok s) []"
  using accept_Rejected(1) [OF assms(4)] rule_problems_report [OF assms(1,2)] assms(3) by simp

theorem accept_reports_every_failure_witness:
  "\<exists>ps w'. accept ref_lib demo_runtime demo_rules demo_bad_submission 6 = (Rejected ps, w')
    \<and> map re_field ps = [''transaction_type'', ''base_amount'', []]"
proof -
  let ?ps = "rule_problems ref_lib demo_rules demo_now demo_bad_submission"
  have now: "rules_now demo_runtime demo_rules 6 = (demo_now, 6)" by code_simp
  have bad: "\<not> type_ok ref_lib demo_rules demo_bad_submission"
      "time_ok demo_rules demo_now demo_bad_submission" "\<not> identity_ok demo_bad_submission"
      "currency_for ref_lib demo_rules demo_bad_submission
        = Some \<lparr>cur_code = ''USD'', cur_exponent = 2\<rparr>"
    unfolding validate_type_ok [symmetric] validate_time_ok [symmetric]
      validate_identity_ok [symmetric] by code_simp+
  have "length (frac_part (sub_base_amount demo_bad_submission)) = 3" by code_simp
  then have "\<not> amount_ok demo_bad_submission \<lparr>cur_code = ''USD'', cur_exponent = 2\<rparr>"
    by (simp add: amount_ok_def)
  moreover have rej: "accept ref_lib demo_runtime demo_rules demo_bad_submission 6 = (Rejected ?ps, 6)"
    using now by (simp add: accept_eq) code_simp
  moreover have "length (sub_base_amount demo_bad_submission) < 2 ^ 31"
    by (simp add: demo_bad_submission_def demo_submission_def)
  ultimately show ?thesis
    using accept_reports_every_failure [OF ref_lib_ok _ now rej] bad by (simp add: report_def)
qed

text \<open>C15: Every accepted transaction is well formed: it has a usable plate or transponder, each
  kept verbatim under its canonical key; a parsed, non-negative amount in a known currency; a
  time in UTC; and the statuses received and priced. The producer's key, references and
  passthrough reach it unchanged, and its type is the operator's own spelling.\<close>

theorem accepted_transaction_valid:
  assumes "accept L S r s w = (Accepted tx, w')"
  shows "tx_ok L tx
    \<and> (\<exists>ts. r_types r = Some ts \<and> canonical_type L ts (sub_type s) = Some (tx_type tx))
    \<and> currency_for L r s = Some (amt_currency (tx_base_amount tx))
    \<and> amt_as_received (tx_base_amount tx) = sub_base_amount s
    \<and> tx_occurred_at tx = time_utc (sub_occurred_at s)
    \<and> tx_received_at tx = fst (rules_now S r w)
    \<and> (\<forall>p. tx_plate tx = Some p \<longrightarrow> sub_plate s
          = Some \<lparr>pr_number = pl_number p, pr_jurisdiction = pl_jurisdiction p\<rparr>)
    \<and> (\<forall>n. tx_transponder tx = Some n \<longrightarrow> tr_number n = sub_transponder s)
    \<and> key_of tx = \<lparr>key_source = sub_source s, key_source_reference = sub_source_reference s\<rparr>
    \<and> tx_location tx = sub_location s \<and> tx_metadata tx = sub_metadata s"
proof -
  let ?now = "fst (rules_now S r w)"
  note none = accept_Accepted(1) [OF assms]
  obtain i where tx: "tx = accepted_tx L r ?now s i" using accept_Accepted(2) [OF assms] by blast
  note parts = rule_problems_Nil_parts [OF none]
  have "\<exists>ts. r_types r = Some ts \<and> canonical_type L ts (sub_type s) = Some (tx_type tx)"
    using validate_type_value [of L r "sub_type s"] parts(1) by (simp add: tx accepted_tx_def)
  moreover have "currency_for L r s = Some (amt_currency (tx_base_amount tx))"
      "amt_as_received (tx_base_amount tx) = sub_base_amount s"
    using accepted_amount [OF none, of i] by (auto simp: tx parse_Inr_iff)
  moreover have "tx_ok L tx" unfolding tx by (rule accepted_tx_ok [OF none])
  moreover have "tx_occurred_at tx = time_utc (sub_occurred_at s)"
    unfolding tx by (rule accepted_time(1) [OF none])
  moreover have "\<forall>p. tx_plate tx = Some p \<longrightarrow> sub_plate s
      = Some \<lparr>pr_number = pl_number p, pr_jurisdiction = pl_jurisdiction p\<rparr>"
      "\<forall>n. tx_transponder tx = Some n \<longrightarrow> tr_number n = sub_transponder s"
    unfolding tx using accepted_identity(2,3) [OF parts(5), where L = L and r = r
      and now = ?now and i = i] by blast+
  ultimately show ?thesis by (simp add: tx accepted_tx_def key_of_def)
qed

theorem accepted_transaction_valid_witness:
  "accept ref_lib demo_runtime demo_rules demo_submission 6 = (Accepted demo_tx, 7)
    \<and> tx_ok ref_lib demo_tx \<and> amt_as_received (tx_base_amount demo_tx) = ''12.50''"
  using accepted_transaction_valid [OF demo_accept] demo_accept by (simp add: demo_submission_def)

text \<open>The time rule: a zero time is missing, a time further ahead of the clock than the
  configured skew, or five minutes when none is configured, is refused with the skew named, and
  every other time, however old, is accepted in UTC. So no accepted transaction lies further in
  the future than the skew.\<close>

theorem clock_skew_bound:
  "validate_time r t now =
    (if t_ns t = 0
     then (zero_time, Some \<lparr>re_field = ''transaction_time_utc'', re_reason = ''is required''\<rparr>)
     else if t_ns now + effective_skew r < t_ns t
     then (zero_time, Some \<lparr>re_field = ''transaction_time_utc'',
       re_reason = ''is more than '' @ dur_string (effective_skew r) @ '' in the future''\<rparr>)
     else (\<lparr>t_ns = t_ns t, t_off = 0\<rparr>, None))
    \<and> (accept L S r s w = (Accepted tx, w') \<longrightarrow> - effective_skew r \<le> submission_lag tx)
    \<and> effective_skew r = (if 0 < r_max_clock_skew r then r_max_clock_skew r else 300000000000)"
proof -
  have "- effective_skew r \<le> submission_lag tx" if acc: "accept L S r s w = (Accepted tx, w')"
  proof -
    have now: "tx_received_at tx = fst (rules_now S r w)"
      using accept_Accepted(2) [OF acc] by (auto simp: accepted_tx_def)
    have "t_ns (tx_occurred_at tx) \<le> t_ns (tx_received_at tx) + effective_skew r"
      using accept_Accepted(2) [OF acc] accepted_time [OF accept_Accepted(1) [OF acc]] now
      by (auto simp: time_ok_def)
    then show ?thesis
      using effective_skew_pos [of r] by (simp add: submission_lag_def time_sub_def int64_max_def)
  qed
  moreover have "time_utc t = \<lparr>t_ns = t_ns t, t_off = 0\<rparr>" by (cases t) (simp add: time_utc_def)
  ultimately show ?thesis
    by (simp add: validate_time_def time_is_zero_def time_after_def time_add_def)
       (simp add: effective_skew_def default_max_clock_skew_def minute_def second_def)
qed

theorem clock_skew_bound_witness:
  "accept ref_lib demo_runtime demo_rules demo_submission 6 = (Accepted demo_tx, 7)
    \<and> - effective_skew demo_rules \<le> submission_lag demo_tx"
  using clock_skew_bound [of demo_rules zero_time demo_now ref_lib demo_runtime demo_submission 6
      demo_tx 7] demo_accept by blast

text \<open>However long a transaction type the producer sends, the problem that repeats it stays
  below 290 bytes.\<close>

theorem echoed_type_bounded:
  "snd (validate_type U r raw) = Some e \<longrightarrow> length (re_reason e) \<le> 289"
proof
  assume e: "snd (validate_type U r raw) = Some e"
  have "length (truncate_value raw max_echoed_value_length) \<le> 67"
    by (simp add: truncate_value_def max_echoed_value_length_def ellipsis_def)
  then have "length (quote U (truncate_value raw max_echoed_value_length)) \<le> 270"
    using length_quote [of U "truncate_value raw max_echoed_value_length"] by linarith
  with e show "length (re_reason e) \<le> 289"
    by (auto simp: validate_type_def split: option.splits)
qed

theorem echoed_type_bounded_witness:
  "\<exists>e. snd (validate_type ref_lib demo_rules (replicate 70 (CHR ''x''))) = Some e
    \<and> length (re_reason e) \<le> 289"
proof -
  have "snd (validate_type ref_lib demo_rules (replicate 70 (CHR ''x''))) \<noteq> None" by code_simp
  then show ?thesis using echoed_type_bounded [of ref_lib demo_rules "replicate 70 (CHR ''x'')"]
    by blast
qed

end
