(* ===== verification/Http.thy ===== *)
theory Http
  imports Metrics Json Rules
begin

text \<open>
  The part of \<open>net/http\<close> and \<open>log/slog\<close> the service is written against. What a handler does to
  its \<open>ResponseWriter\<close> is the list of its calls, so a middleware that wraps the writer reads
  them off that list; \<open>respond\<close> is what the server makes of them. A handler takes the request
  and the world, and may end in a panic. The world holds the clock and the sources of
  randomness (\<open>'e\<close>), the store (\<open>'s\<close>), the metrics, the log, and the pattern the router noted
  in the request.
\<close>

section \<open>Responses\<close>

datatype writer_call =
    Set_Header string string
  | Write_Header int
  | Write_Body string

record writer =
  wr_header :: "(string, string) gomap"
  wr_sent :: "(int \<times> (string, string) gomap) option"
  wr_body :: string

definition new_writer :: writer where
  "new_writer = \<lparr>wr_header = [], wr_sent = None, wr_body = []\<rparr>"

text \<open>
  The first status is the one that is sent, with the headers set until then; a body without a
  status sends 200.
\<close>

fun writer_step :: "writer_call \<Rightarrow> writer \<Rightarrow> writer" where
  "writer_step (Set_Header k v) w = w\<lparr>wr_header := gm_set k v (wr_header w)\<rparr>"
| "writer_step (Write_Header s) w =
     (if wr_sent w = None then w\<lparr>wr_sent := Some (s, wr_header w)\<rparr> else w)"
| "writer_step (Write_Body b) w =
     (let w1 = (if wr_sent w = None then w\<lparr>wr_sent := Some (200, wr_header w)\<rparr> else w)
      in w1\<lparr>wr_body := wr_body w1 @ b\<rparr>)"

record response =
  rs_status :: int
  rs_header :: "(string, string) gomap"
  rs_body :: string

definition respond :: "writer_call list \<Rightarrow> response" where
  "respond calls =
    (let w = fold writer_step calls new_writer in
     case wr_sent w of
       Some (s, h) \<Rightarrow> \<lparr>rs_status = s, rs_header = h, rs_body = wr_body w\<rparr>
     | None \<Rightarrow> \<lparr>rs_status = 200, rs_header = wr_header w, rs_body = []\<rparr>)"

section \<open>Requests\<close>

text \<open>
  The body is present or not; \<open>http.MaxBytesReader\<close> around it is a limit. Reading a body longer
  than its limit fails.
\<close>

record request =
  rq_method :: string
  rq_path :: string
  rq_header :: "(string, string) gomap"
  rq_body :: "string option"
  rq_limit :: "int option"
  rq_id :: "string option"
  rq_remote_addr :: string

definition header_get :: "string \<Rightarrow> request \<Rightarrow> string" where
  "header_get k r = (case map_of (rq_header r) k of Some v \<Rightarrow> v | None \<Rightarrow> [])"

text \<open>The bytes of the body, or the limit it exceeds.\<close>

definition read_body :: "request \<Rightarrow> int + string" where
  "read_body r =
    (let b = (case rq_body r of Some b \<Rightarrow> b | None \<Rightarrow> []) in
     case rq_limit r of
       Some n \<Rightarrow> if n < int (length b) then Inl n else Inr b
     | None \<Rightarrow> Inr b)"

section \<open>Handlers\<close>

datatype log_level = Level_Debug | Level_Info | Level_Warn | Level_Error

record log_line =
  lg_level :: log_level
  lg_msg :: string
  lg_attrs :: "(string \<times> string) list"

record ('e, 's) world =
  wd_env :: 'e
  wd_store :: 's
  wd_metrics :: metrics
  wd_log :: "log_line list"
  wd_pattern :: string

type_synonym 'w handler = "request \<Rightarrow> 'w \<Rightarrow> writer_call list \<times> panic option \<times> 'w"

definition log_attrs ::
  "log_level \<Rightarrow> string \<Rightarrow> (string \<times> string) list \<Rightarrow> ('e, 's) world \<Rightarrow> ('e, 's) world" where
  "log_attrs level msg attrs w =
    w\<lparr>wd_log := wd_log w @ [\<lparr>lg_level = level, lg_msg = msg, lg_attrs = attrs\<rparr>]\<rparr>"

definition with_metrics ::
  "(metrics \<Rightarrow> panic option \<times> metrics) \<Rightarrow> ('e, 's) world \<Rightarrow> panic option \<times> ('e, 's) world" where
  "with_metrics f w = (let (p, m) = f (wd_metrics w) in (p, w\<lparr>wd_metrics := m\<rparr>))"

text \<open>\<open>RequestIDFrom\<close>, on the request whose context it is.\<close>

definition request_id_from :: "request \<Rightarrow> string" where
  "request_id_from r = (case rq_id r of Some i \<Rightarrow> i | None \<Rightarrow> [])"

text \<open>\<open>writeJSON\<close>: the encoder ends the document with a newline.\<close>

definition write_json :: "int \<Rightarrow> string \<Rightarrow> writer_call list" where
  "write_json status doc =
    [Set_Header ''Content-Type'' ''application/json'', Write_Header status,
     Write_Body (doc @ [CHR 0x0A])]"

lemmas http_eval [model_defs] =
  new_writer_def respond_def header_get_def read_body_def log_attrs_def with_metrics_def
  request_id_from_def write_json_def

lemma respond_write_json [simp]:
  "respond (write_json status doc) =
    \<lparr>rs_status = status, rs_header = [(''Content-Type'', ''application/json'')],
     rs_body = doc @ [CHR 0x0A]\<rparr>"
  by (simp add: respond_def write_json_def new_writer_def gm_set_def Let_def)

lemma with_metrics_frame:
  "with_metrics f w = (p, w') \<Longrightarrow>
    wd_env w' = wd_env w \<and> wd_store w' = wd_store w \<and> wd_log w' = wd_log w \<and> wd_pattern w' = wd_pattern w"
  by (auto simp: with_metrics_def split: prod.splits)

lemma log_attrs_frame [simp]:
  "wd_env (log_attrs l m a w) = wd_env w" "wd_store (log_attrs l m a w) = wd_store w"
  "wd_metrics (log_attrs l m a w) = wd_metrics w" "wd_pattern (log_attrs l m a w) = wd_pattern w"
  by (simp_all add: log_attrs_def)

end
