(* ===== verification/Config.thy ===== *)
theory Config
  imports Http
begin

text \<open>
  \<open>internal/config/config.go\<close>: the configuration from the environment, and the parts of
  \<open>strconv\<close> and \<open>time\<close> it parses with. An environment is a partial map from names to values.
  Where \<open>time.ParseDuration\<close> multiplies a fraction in floating point, the product is the
  parameter \<open>fraction_ns\<close>; the rest of it is computed. The list of problems is threaded through
  the fields in the order the code evaluates them.
\<close>

section \<open>Numbers\<close>

definition split_sign :: "string \<Rightarrow> bool \<times> string" where
  "split_sign s =
    (case s of
       [] \<Rightarrow> (False, [])
     | c # t \<Rightarrow> if c = CHR ''-'' then (True, t) else if c = CHR ''+'' then (False, t) else (False, s))"

text \<open>\<open>strconv.Atoi\<close>, for a 64-bit \<open>int\<close>.\<close>

definition atoi :: "string \<Rightarrow> int option" where
  "atoi s =
    (let (neg, ds) = split_sign s in
     if ds = [] \<or> \<not> list_all is_digit ds then None
     else
       (let v = (if neg then - int (digits_val ds) else int (digits_val ds)) in
        if int64_min \<le> v \<and> v \<le> int64_max then Some v else None))"

section \<open>Durations\<close>

definition unit_ns :: "string \<Rightarrow> nat option" where
  "unit_ns = map_of
    [(''ns'', 1), (''us'', 1000), ([CHR 0xC2, CHR 0xB5, CHR ''s''], 1000),
     ([CHR 0xCE, CHR 0xBC, CHR ''s''], 1000), (''ms'', 1000000), (''s'', 1000000000),
     (''m'', 60000000000), (''h'', 3600000000000)]"

text \<open>\<open>leadingFraction\<close>: digits that no longer fit are dropped.\<close>

fun leading_fraction :: "string \<Rightarrow> nat \<Rightarrow> nat \<Rightarrow> nat \<times> nat" where
  "leading_fraction [] x scale = (x, scale)"
| "leading_fraction (c # cs) x scale =
     (if (2 ^ 63 - 1) div 10 < x then (x, scale)
      else
        (let y = x * 10 + digit_val c in
         if 2 ^ 63 < y then (x, scale) else leading_fraction cs y (scale * 10)))"

definition unit_char :: "char \<Rightarrow> bool" where
  "unit_char c \<longleftrightarrow> c \<noteq> CHR ''.'' \<and> \<not> is_digit c"

definition split_fraction :: "string \<Rightarrow> string \<times> string" where
  "split_fraction s =
    (case s of
       [] \<Rightarrow> ([], [])
     | c # t \<Rightarrow> if c = CHR ''.'' then (takeWhile is_digit t, dropWhile is_digit t) else ([], s))"

lemma length_dropWhile_less: "takeWhile P s \<noteq> [] \<Longrightarrow> length (dropWhile P s) < length s"
  by (cases s) (auto simp: le_imp_less_Suc length_dropWhile_le split: if_splits)

lemma length_split_fraction: "length (snd (split_fraction s)) \<le> length s"
  by (cases s) (auto simp: split_fraction_def le_SucI length_dropWhile_le)

lemma unit_ns_Nil [simp]: "unit_ns [] = None"
  by (simp add: unit_ns_def)

text \<open>
  The loop of \<open>time.ParseDuration\<close>: one number with its unit at a time, on an unsigned 64-bit
  sum.
\<close>

function dur_loop :: "(nat \<Rightarrow> nat \<Rightarrow> nat \<Rightarrow> nat) \<Rightarrow> string \<Rightarrow> nat \<Rightarrow> nat option" where
  "dur_loop fraction_ns s d =
    (if s = [] then Some d
     else if \<not> (hd s = CHR ''.'' \<or> is_digit (hd s)) then None
     else
       (let ds = takeWhile is_digit s;
            fs = fst (split_fraction (dropWhile is_digit s));
            rest = snd (split_fraction (dropWhile is_digit s));
            u = takeWhile unit_char rest
        in if 2 ^ 63 < digits_val ds \<or> ds = [] \<and> fs = [] then None
           else
             (case unit_ns u of
                None \<Rightarrow> None
              | Some ns \<Rightarrow>
                  if 2 ^ 63 div ns < digits_val ds then None
                  else
                    (let (f, scale) = leading_fraction fs 0 1;
                         v = digits_val ds * ns + (if 0 < f then fraction_ns f ns scale else 0)
                     in if 2 ^ 63 < v \<or> 2 ^ 63 < (d + v) mod 2 ^ 64 then None
                        else dur_loop fraction_ns (dropWhile unit_char rest) ((d + v) mod 2 ^ 64)))))"
  by pat_completeness auto
termination
proof (relation "measure (\<lambda>(F, s, d). length s)", goal_cases)
  case (2 F s d ds fs rest u ns p f scale v)
  then have "u \<noteq> []" by auto
  then have "length (dropWhile unit_char rest) < length rest"
    using 2 by (simp add: length_dropWhile_less)
  also have "length rest \<le> length (dropWhile is_digit s)"
    using 2 length_split_fraction by simp
  also have "\<dots> \<le> length s" by (rule length_dropWhile_le)
  finally show ?case by simp
qed simp

declare dur_loop.simps [simp del]

definition parse_duration :: "(nat \<Rightarrow> nat \<Rightarrow> nat \<Rightarrow> nat) \<Rightarrow> string \<Rightarrow> duration option" where
  "parse_duration fraction_ns s0 =
    (let (neg, s) = split_sign s0 in
     if s = ''0'' then Some 0
     else if s = [] then None
     else
       (case dur_loop fraction_ns s 0 of
          None \<Rightarrow> None
        | Some d \<Rightarrow>
            if neg then Some (- int d)
            else if 2 ^ 63 - 1 < d then None else Some (int d)))"

section \<open>The configuration\<close>

record config =
  cf_service_name :: string
  cf_environment :: string
  cf_http_addr :: string
  cf_read_timeout :: duration
  cf_write_timeout :: duration
  cf_idle_timeout :: duration
  cf_shutdown_timeout :: duration
  cf_log_level :: log_level
  cf_log_format :: string
  cf_transaction_types :: "string list"
  cf_default_currency :: string
  cf_max_clock_skew :: duration
  cf_database_url :: string
  cf_database_max_conns :: int
  cf_outbox_batch_size :: int
  cf_outbox_poll_interval :: duration
  cf_metrics_addr :: string

definition uses_database :: "config \<Rightarrow> bool" where
  "uses_database c \<longleftrightarrow> cf_database_url c \<noteq> []"

type_synonym environment = "string \<Rightarrow> string option"

definition env_string :: "environment \<Rightarrow> string \<Rightarrow> string \<Rightarrow> string" where
  "env_string env key fallback =
    (case env key of Some v \<Rightarrow> if v \<noteq> [] then v else fallback | None \<Rightarrow> fallback)"

text \<open>\<open>strings.SplitSeq\<close> at a comma.\<close>

fun split_commas :: "string \<Rightarrow> string list" where
  "split_commas [] = [[]]"
| "split_commas (c # s) =
     (if c = CHR '','' then [] # split_commas s
      else (case split_commas s of [] \<Rightarrow> [[c]] | p # ps \<Rightarrow> (c # p) # ps))"

definition env_string_slice :: "environment \<Rightarrow> string \<Rightarrow> string list \<Rightarrow> string list" where
  "env_string_slice env key fallback =
    (case env key of
       None \<Rightarrow> fallback
     | Some raw \<Rightarrow>
         if trim_space raw = [] then fallback
         else filter (\<lambda>p. p \<noteq> []) (map trim_space (split_commas raw)))"

definition env_int ::
  "('a) unicode_scheme \<Rightarrow> environment \<Rightarrow> string \<Rightarrow> int \<Rightarrow> string list \<Rightarrow> int \<times> string list" where
  "env_int U env key fallback errs =
    (case env key of
       None \<Rightarrow> (fallback, errs)
     | Some raw \<Rightarrow>
         if raw = [] then (fallback, errs)
         else
           (case atoi raw of
              None \<Rightarrow> (fallback, errs @ [key @ '': '' @ quote U raw @ '' is not a valid integer''])
            | Some n \<Rightarrow>
                if n \<le> 0
                then (fallback, errs @ [key @ '': must be positive, got '' @ show_int n])
                else (n, errs)))"

definition env_duration ::
  "('a) unicode_scheme \<Rightarrow> (nat \<Rightarrow> nat \<Rightarrow> nat \<Rightarrow> nat) \<Rightarrow> environment \<Rightarrow> string \<Rightarrow> duration
    \<Rightarrow> string list \<Rightarrow> duration \<times> string list" where
  "env_duration U fraction_ns env key fallback errs =
    (case env key of
       None \<Rightarrow> (fallback, errs)
     | Some raw \<Rightarrow>
         if raw = [] then (fallback, errs)
         else
           (case parse_duration fraction_ns raw of
              None \<Rightarrow> (fallback, errs @ [key @ '': '' @ quote U raw
                @ '' is not a valid duration (e.g. '' @ [CHR 0x22] @ ''5s'' @ [CHR 0x22] @ '')''])
            | Some d \<Rightarrow>
                if d \<le> 0
                then (fallback, errs @ [key @ '': must be positive, got '' @ dur_string d])
                else (d, errs)))"

definition parse_log_level :: "('a) unicode_scheme \<Rightarrow> string \<Rightarrow> log_level \<times> string option" where
  "parse_log_level U raw =
    (let l = to_lower U raw in
     if l = ''debug'' then (Level_Debug, None)
     else if l = ''info'' then (Level_Info, None)
     else if l = ''warn'' \<or> l = ''warning'' then (Level_Warn, None)
     else if l = ''error'' then (Level_Error, None)
     else (Level_Info,
       Some (''LOG_LEVEL: want one of debug|info|warn|error, got '' @ quote U raw)))"

definition load ::
  "('a) unicode_scheme \<Rightarrow> (nat \<Rightarrow> nat \<Rightarrow> nat \<Rightarrow> nat) \<Rightarrow> environment \<Rightarrow> config \<times> string list" where
  "load U fraction_ns env =
    (let dur = env_duration U fraction_ns env;
         (read, es) = dur ''HTTP_READ_TIMEOUT'' (5 * second) [];
         (write, es) = dur ''HTTP_WRITE_TIMEOUT'' (10 * second) es;
         (idle, es) = dur ''HTTP_IDLE_TIMEOUT'' (120 * second) es;
         (shutdown, es) = dur ''SHUTDOWN_TIMEOUT'' (15 * second) es;
         types = env_string_slice env ''TRANSACTION_TYPES'' [''toll'', ''violation'', ''fee''];
         currency = to_upper U (env_string env ''DEFAULT_CURRENCY'' ''USD'');
         (skew, es) = dur ''MAX_CLOCK_SKEW'' default_max_clock_skew es;
         (conns, es) = env_int U env ''DATABASE_MAX_CONNS'' 10 es;
         (batch, es) = env_int U env ''OUTBOX_BATCH_SIZE'' 100 es;
         (poll, es) = dur ''OUTBOX_POLL_INTERVAL'' (2 * second) es;
         es = (if types = [] then es @ [''TRANSACTION_TYPES: must list at least one accepted type'']
               else es);
         es = (if lookup U currency = None
               then es @ [''DEFAULT_CURRENCY: '' @ quote U currency
                 @ '' is not a recognised ISO-4217 code''] else es);
         (level, level_error) = parse_log_level U (env_string env ''LOG_LEVEL'' ''info'');
         es = (case level_error of None \<Rightarrow> es | Some e \<Rightarrow> es @ [e]);
         format = env_string env ''LOG_FORMAT'' ''json'';
         es = (if format \<noteq> ''json'' \<and> format \<noteq> ''text''
               then es @ [''LOG_FORMAT: want '' @ quote U ''json'' @ '' or '' @ quote U ''text''
                 @ '', got '' @ quote U format] else es);
         addr = env_string env ''HTTP_ADDR'' '':8080'';
         es = (if addr = [] then es @ [''HTTP_ADDR: must not be empty''] else es)
     in (\<lparr>cf_service_name = env_string env ''SERVICE_NAME'' ''transaction-ingest'',
          cf_environment = env_string env ''ENVIRONMENT'' ''local'', cf_http_addr = addr,
          cf_read_timeout = read, cf_write_timeout = write, cf_idle_timeout = idle,
          cf_shutdown_timeout = shutdown, cf_log_level = level, cf_log_format = format,
          cf_transaction_types = types, cf_default_currency = currency, cf_max_clock_skew = skew,
          cf_database_url = env_string env ''DATABASE_URL'' [], cf_database_max_conns = conns,
          cf_outbox_batch_size = batch, cf_outbox_poll_interval = poll,
          cf_metrics_addr = env_string env ''METRICS_ADDR'' '':9090''\<rparr>, es))"

lemmas config_eval [model_defs] =
  split_sign_def atoi_def unit_ns_def leading_fraction.simps unit_char_def split_fraction_def
  dur_loop.simps parse_duration_def uses_database_def env_string_def env_string_slice_def
  env_int_def env_duration_def parse_log_level_def load_def

section \<open>Each variable on its own\<close>

lemma env_duration_append:
  "env_duration U F env key fb es =
    (fst (env_duration U F env key fb []), es @ snd (env_duration U F env key fb []))"
  by (simp add: env_duration_def split: option.splits)

lemma env_int_append:
  "env_int U env key fb es = (fst (env_int U env key fb []), es @ snd (env_int U env key fb []))"
  by (simp add: env_int_def split: option.splits)

lemma env_duration_value: "\<exists>v e. \<forall>es. env_duration U F env key fb es = (v, es @ e)"
  by (metis env_duration_append)

lemma env_int_value: "\<exists>v e. \<forall>es. env_int U env key fb es = (v, es @ e)"
  by (metis env_int_append)

text \<open>What is wrong with the value of a variable: it is set and does not parse, or not positive.\<close>

definition dur_wrong :: "(nat \<Rightarrow> nat \<Rightarrow> nat \<Rightarrow> nat) \<Rightarrow> environment \<Rightarrow> string \<Rightarrow> bool" where
  "dur_wrong F env key \<longleftrightarrow>
    (\<exists>raw. env key = Some raw \<and> raw \<noteq> [] \<and> (case parse_duration F raw of None \<Rightarrow> True | Some d \<Rightarrow> d \<le> 0))"

definition int_wrong :: "environment \<Rightarrow> string \<Rightarrow> bool" where
  "int_wrong env key \<longleftrightarrow>
    (\<exists>raw. env key = Some raw \<and> raw \<noteq> [] \<and> (case atoi raw of None \<Rightarrow> True | Some n \<Rightarrow> n \<le> 0))"

text \<open>A problem starts with the name of its variable.\<close>

definition problem_key :: "string \<Rightarrow> string" where
  "problem_key p = takeWhile (\<lambda>c. c \<noteq> CHR '':'') p"

lemma problem_key_colon:
  "CHR '':'' \<notin> set k \<Longrightarrow> problem_key (k @ CHR '':'' # t) = k"
  by (simp add: problem_key_def takeWhile_append)

lemma env_duration_keys:
  "CHR '':'' \<notin> set key \<Longrightarrow>
    map problem_key (snd (env_duration U F env key fb [])) = report (\<not> dur_wrong F env key) key"
  by (auto simp: env_duration_def dur_wrong_def report_def problem_key_colon split: option.splits)

lemma env_int_keys:
  "CHR '':'' \<notin> set key \<Longrightarrow>
    map problem_key (snd (env_int U env key fb [])) = report (\<not> int_wrong env key) key"
  by (auto simp: env_int_def int_wrong_def report_def problem_key_colon split: option.splits)

lemma parse_duration_range: "parse_duration F raw = Some d \<Longrightarrow> d \<le> int64_max"
  by (auto simp: parse_duration_def int64_max_def split: prod.splits option.splits if_splits)

lemma env_duration_range:
  assumes "0 < fb" and "fb \<le> int64_max"
  shows "0 < fst (env_duration U F env key fb []) \<and> fst (env_duration U F env key fb []) \<le> int64_max"
  using assms parse_duration_range by (auto simp: env_duration_def split: option.splits)

lemma atoi_range: "atoi raw = Some n \<Longrightarrow> n \<le> int64_max"
  by (auto simp: atoi_def Let_def split: prod.splits if_splits)

lemma env_int_range:
  assumes "0 < fb" and "fb \<le> int64_max"
  shows "0 < fst (env_int U env key fb []) \<and> fst (env_int U env key fb []) \<le> int64_max"
  using assms atoi_range by (auto simp: env_int_def split: option.splits)

lemma env_string_slice_trimmed:
  assumes "list_all (\<lambda>t. trim_space t = t \<and> t \<noteq> []) fb"
  shows "list_all (\<lambda>t. trim_space t = t \<and> t \<noteq> []) (env_string_slice env key fb)"
  using assms by (auto simp: env_string_slice_def list_all_iff split: option.splits)

lemma env_string_nonempty [simp]: "fb \<noteq> [] \<Longrightarrow> env_string env key fb \<noteq> []"
  by (simp add: env_string_def split: option.splits)

section \<open>The invariant of a loaded configuration\<close>

text \<open>Every number is positive and fits its type, whatever the environment.\<close>

definition numbers_ok :: "config \<Rightarrow> bool" where
  "numbers_ok c \<longleftrightarrow>
    list_all (\<lambda>n. 0 < n \<and> n \<le> int64_max)
      [cf_read_timeout c, cf_write_timeout c, cf_idle_timeout c, cf_shutdown_timeout c,
       cf_max_clock_skew c, cf_database_max_conns c, cf_outbox_batch_size c, cf_outbox_poll_interval c]"

definition config_ok :: "('a) unicode_scheme \<Rightarrow> config \<Rightarrow> bool" where
  "config_ok U c \<longleftrightarrow> numbers_ok c
    \<and> cf_transaction_types c \<noteq> []
    \<and> list_all (\<lambda>t. trim_space t = t \<and> t \<noteq> []) (cf_transaction_types c)
    \<and> lookup U (cf_default_currency c) \<noteq> None
    \<and> cf_log_format c \<in> {''json'', ''text''} \<and> cf_http_addr c \<noteq> []"

lemma default_numbers:
  "0 < 5 * second" "0 < 10 * second" "0 < 120 * second" "0 < 15 * second" "0 < 2 * second"
  "0 < default_max_clock_skew" "5 * second \<le> int64_max" "10 * second \<le> int64_max"
  "120 * second \<le> int64_max" "15 * second \<le> int64_max" "2 * second \<le> int64_max"
  "default_max_clock_skew \<le> int64_max" "(10::int) \<le> int64_max" "(100::int) \<le> int64_max"
  by (simp_all add: second_def default_max_clock_skew_def minute_def int64_max_def)

lemma load_types:
  "list_all (\<lambda>t. trim_space t = t \<and> t \<noteq> []) (cf_transaction_types (fst (load U F env)))"
proof -
  have "list_all (\<lambda>t. trim_space t = t \<and> t \<noteq> []) [''toll'', ''violation'', ''fee'']" by code_simp
  then show ?thesis
    unfolding load_def Let_def case_prod_beta fst_conv config.select_convs
    by (rule env_string_slice_trimmed)
qed

text \<open>The last five checks, on the configuration they end up in.\<close>

definition level_wrong :: "('a) unicode_scheme \<Rightarrow> environment \<Rightarrow> bool" where
  "level_wrong U env \<longleftrightarrow> snd (parse_log_level U (env_string env ''LOG_LEVEL'' ''info'')) \<noteq> None"

lemma load_fields:
  "cf_transaction_types (fst (load U F env))
    = env_string_slice env ''TRANSACTION_TYPES'' [''toll'', ''violation'', ''fee'']"
  "cf_default_currency (fst (load U F env)) = to_upper U (env_string env ''DEFAULT_CURRENCY'' ''USD'')"
  "cf_log_format (fst (load U F env)) = env_string env ''LOG_FORMAT'' ''json''"
  "cf_http_addr (fst (load U F env)) = env_string env ''HTTP_ADDR'' '':8080''"
  "cf_database_url (fst (load U F env)) = env_string env ''DATABASE_URL'' []"
  unfolding load_def Let_def case_prod_beta fst_conv config.select_convs by simp_all

definition level_problem :: "('a) unicode_scheme \<Rightarrow> environment \<Rightarrow> string list" where
  "level_problem U env =
    (case snd (parse_log_level U (env_string env ''LOG_LEVEL'' ''info'')) of None \<Rightarrow> [] | Some e \<Rightarrow> [e])"

lemma level_problem_key: "map problem_key (level_problem U env) = report (\<not> level_wrong U env) ''LOG_LEVEL''"
  by (auto simp: level_problem_def level_wrong_def parse_log_level_def report_def Let_def problem_key_def)

text \<open>
  The numeric fields and the problems, each in terms of its own variable. The stages are named
  first, so that the big record is never split.
\<close>

lemma load_stages:
  "load U F env =
    ((fst (load U F env))
      \<lparr>cf_read_timeout := fst (env_duration U F env ''HTTP_READ_TIMEOUT'' (5 * second) []),
       cf_write_timeout := fst (env_duration U F env ''HTTP_WRITE_TIMEOUT'' (10 * second) []),
       cf_idle_timeout := fst (env_duration U F env ''HTTP_IDLE_TIMEOUT'' (120 * second) []),
       cf_shutdown_timeout := fst (env_duration U F env ''SHUTDOWN_TIMEOUT'' (15 * second) []),
       cf_max_clock_skew := fst (env_duration U F env ''MAX_CLOCK_SKEW'' default_max_clock_skew []),
       cf_database_max_conns := fst (env_int U env ''DATABASE_MAX_CONNS'' 10 []),
       cf_outbox_batch_size := fst (env_int U env ''OUTBOX_BATCH_SIZE'' 100 []),
       cf_outbox_poll_interval := fst (env_duration U F env ''OUTBOX_POLL_INTERVAL'' (2 * second) [])\<rparr>,
    snd (env_duration U F env ''HTTP_READ_TIMEOUT'' (5 * second) [])
    @ snd (env_duration U F env ''HTTP_WRITE_TIMEOUT'' (10 * second) [])
    @ snd (env_duration U F env ''HTTP_IDLE_TIMEOUT'' (120 * second) [])
    @ snd (env_duration U F env ''SHUTDOWN_TIMEOUT'' (15 * second) [])
    @ snd (env_duration U F env ''MAX_CLOCK_SKEW'' default_max_clock_skew [])
    @ snd (env_int U env ''DATABASE_MAX_CONNS'' 10 [])
    @ snd (env_int U env ''OUTBOX_BATCH_SIZE'' 100 [])
    @ snd (env_duration U F env ''OUTBOX_POLL_INTERVAL'' (2 * second) [])
    @ (if cf_transaction_types (fst (load U F env)) = []
       then [''TRANSACTION_TYPES: must list at least one accepted type''] else [])
    @ (if lookup U (cf_default_currency (fst (load U F env))) = None
       then [''DEFAULT_CURRENCY: '' @ quote U (cf_default_currency (fst (load U F env)))
         @ '' is not a recognised ISO-4217 code''] else [])
    @ level_problem U env
    @ (if cf_log_format (fst (load U F env)) \<noteq> ''json'' \<and> cf_log_format (fst (load U F env)) \<noteq> ''text''
       then [''LOG_FORMAT: want '' @ quote U ''json'' @ '' or '' @ quote U ''text''
         @ '', got '' @ quote U (cf_log_format (fst (load U F env)))] else []))"
  (is "load U F env = (_, ?problems)")
proof -
  have optional: "\<And>b x es. (if b then es @ [x] else es) = es @ (if b then [x] else [])"
    "\<And>m es. (case m of None \<Rightarrow> es | Some e \<Rightarrow> es @ [e]) = es @ (case m of None \<Rightarrow> [] | Some e \<Rightarrow> [e])"
    by (auto split: option.splits)
  obtain v1 e1 where 1: "\<And>es. env_duration U F env ''HTTP_READ_TIMEOUT'' (5 * second) es = (v1, es @ e1)"
    using env_duration_value by blast
  obtain v2 e2 where 2: "\<And>es. env_duration U F env ''HTTP_WRITE_TIMEOUT'' (10 * second) es = (v2, es @ e2)"
    using env_duration_value by blast
  obtain v3 e3 where 3: "\<And>es. env_duration U F env ''HTTP_IDLE_TIMEOUT'' (120 * second) es = (v3, es @ e3)"
    using env_duration_value by blast
  obtain v4 e4 where 4: "\<And>es. env_duration U F env ''SHUTDOWN_TIMEOUT'' (15 * second) es = (v4, es @ e4)"
    using env_duration_value by blast
  obtain v5 e5 where 5: "\<And>es. env_duration U F env ''MAX_CLOCK_SKEW'' default_max_clock_skew es = (v5, es @ e5)"
    using env_duration_value by blast
  obtain v6 e6 where 6: "\<And>es. env_int U env ''DATABASE_MAX_CONNS'' 10 es = (v6, es @ e6)"
    using env_int_value by blast
  obtain v7 e7 where 7: "\<And>es. env_int U env ''OUTBOX_BATCH_SIZE'' 100 es = (v7, es @ e7)"
    using env_int_value by blast
  obtain v8 e8 where 8: "\<And>es. env_duration U F env ''OUTBOX_POLL_INTERVAL'' (2 * second) es = (v8, es @ e8)"
    using env_duration_value by blast
  note stages = 1 2 3 4 5 6 7 8
  have addr: "env_string env ''HTTP_ADDR'' '':8080'' \<noteq> []" by simp
  show ?thesis
    unfolding load_fields level_problem_def
    unfolding load_def Let_def
    by (simp only: stages case_prod_conv split_beta fst_conv snd_conv optional addr if_False)
       (simp only: append_Nil append_Nil2 append_assoc config.update_convs)
qed

lemma load_values:
  "cf_database_max_conns (fst (load U F env)) = fst (env_int U env ''DATABASE_MAX_CONNS'' 10 [])"
  "cf_max_clock_skew (fst (load U F env)) = fst (env_duration U F env ''MAX_CLOCK_SKEW'' default_max_clock_skew [])"
  by (subst load_stages, simp)+

lemma load_numbers: "numbers_ok (fst (load U F env))"
  by (subst load_stages)
     (simp add: numbers_ok_def env_duration_range env_int_range default_numbers)

lemma config_ok_load:
  assumes "snd (load U F env) = []"
  shows "config_ok U (fst (load U F env))"
proof -
  let ?c = "fst (load U F env)"
  from assms [unfolded arg_cong [OF load_stages, of snd]]
  have "cf_transaction_types ?c \<noteq> []" and "lookup U (cf_default_currency ?c) \<noteq> None"
    and "cf_log_format ?c \<in> {''json'', ''text''}"
    by (auto split: if_splits)
  moreover have "cf_http_addr ?c \<noteq> []" by (simp add: load_fields)
  ultimately show ?thesis by (simp add: config_ok_def load_types load_numbers)
qed

text \<open>Whatever the environment holds, every number of the configuration is positive and fits a
  64-bit integer, and every accepted transaction type is nonempty and trimmed; and when \<open>Load\<close>
  reports no problem the configuration is the one the rest of the service is written for: a
  nonempty list of types, a default currency of the ISO table, and a known log format.\<close>

theorem load_valid:
  "numbers_ok (fst (load U F env))
    \<and> list_all (\<lambda>t. trim_space t = t \<and> t \<noteq> []) (cf_transaction_types (fst (load U F env)))
    \<and> (snd (load U F env) = [] \<longrightarrow> config_ok U (fst (load U F env)))"
  using load_numbers load_types config_ok_load by blast

definition empty_environment :: environment where
  "empty_environment key = None"

lemma lookup_usd: "lookup U ''USD'' \<noteq> None"
proof -
  have trim: "trim_space ''USD'' = ''USD''" and upper: "map ascii_upper ''USD'' = ''USD''"
    and ascii: "list_all is_ascii ''USD''" and table: "map_of currencies ''USD'' \<noteq> None"
    by code_simp+
  then show ?thesis unfolding lookup_def trim to_upper_ascii [OF ascii] upper by simp
qed

text \<open>The variables that are not set.\<close>

lemma env_unset:
  assumes "env key = None"
  shows "env_duration U F env key d es = (d, es)" and "env_int U env key n es = (n, es)"
    and "env_string env key s = s" and "env_string_slice env key ss = ss"
  using assms
  by (simp_all add: env_duration_def env_int_def env_string_def env_string_slice_def)

lemma load_only_conns:
  assumes "\<And>key. key \<noteq> ''DATABASE_MAX_CONNS'' \<Longrightarrow> key \<noteq> ''DATABASE_URL'' \<Longrightarrow> env key = None"
    and "snd (env_int U env ''DATABASE_MAX_CONNS'' 10 []) = []"
  shows "snd (load U F env) = []"
proof -
  have upper: "to_upper U ''USD'' = ''USD''" and level: "parse_log_level U ''info'' = (Level_Info, None)"
    by (simp_all add: parse_log_level_def ascii_lower_def ascii_upper_def byte_defs code_def)
  show ?thesis
    by (subst load_stages)
       (simp add: env_unset assms load_fields upper level lookup_usd level_problem_def)
qed

theorem load_valid_witness:
  "config_ok plain_unicode (fst (load plain_unicode (\<lambda>f ns scale. f * ns div scale) empty_environment))"
proof -
  have "snd (load plain_unicode (\<lambda>f ns scale. f * ns div scale) empty_environment) = []"
    by (rule load_only_conns) (simp_all add: empty_environment_def env_int_def)
  then show ?thesis
    using load_valid [of plain_unicode "\<lambda>f ns scale. f * ns div scale" empty_environment] by blast
qed

text \<open>C32: \<open>Load\<close> reports every problem of the environment in one go: the variables it names, in
  order, are exactly those whose values are wrong, each once.\<close>

theorem load_reports_every_problem:
  "map problem_key (snd (load U F env)) =
    report (\<not> dur_wrong F env ''HTTP_READ_TIMEOUT'') ''HTTP_READ_TIMEOUT''
    @ report (\<not> dur_wrong F env ''HTTP_WRITE_TIMEOUT'') ''HTTP_WRITE_TIMEOUT''
    @ report (\<not> dur_wrong F env ''HTTP_IDLE_TIMEOUT'') ''HTTP_IDLE_TIMEOUT''
    @ report (\<not> dur_wrong F env ''SHUTDOWN_TIMEOUT'') ''SHUTDOWN_TIMEOUT''
    @ report (\<not> dur_wrong F env ''MAX_CLOCK_SKEW'') ''MAX_CLOCK_SKEW''
    @ report (\<not> int_wrong env ''DATABASE_MAX_CONNS'') ''DATABASE_MAX_CONNS''
    @ report (\<not> int_wrong env ''OUTBOX_BATCH_SIZE'') ''OUTBOX_BATCH_SIZE''
    @ report (\<not> dur_wrong F env ''OUTBOX_POLL_INTERVAL'') ''OUTBOX_POLL_INTERVAL''
    @ report (env_string_slice env ''TRANSACTION_TYPES'' [''toll'', ''violation'', ''fee''] \<noteq> [])
        ''TRANSACTION_TYPES''
    @ report (lookup U (to_upper U (env_string env ''DEFAULT_CURRENCY'' ''USD'')) \<noteq> None)
        ''DEFAULT_CURRENCY''
    @ report (\<not> level_wrong U env) ''LOG_LEVEL''
    @ report (env_string env ''LOG_FORMAT'' ''json'' \<in> {''json'', ''text''}) ''LOG_FORMAT''"
proof -
  have key: "\<And>k t. CHR '':'' \<notin> set k \<Longrightarrow> problem_key (k @ '': '' @ t) = k"
    by (simp add: problem_key_colon)
  have optional: "\<And>b x. map problem_key (if b then [x] else []) = report (\<not> b) (problem_key x)"
    by (simp add: report_def)
  have "\<And>t. problem_key (''TRANSACTION_TYPES: '' @ t) = ''TRANSACTION_TYPES''"
    "\<And>t. problem_key (''DEFAULT_CURRENCY: '' @ t) = ''DEFAULT_CURRENCY''"
    "\<And>t. problem_key (''LOG_FORMAT: '' @ t) = ''LOG_FORMAT''"
    by (simp_all add: problem_key_def)
  then show ?thesis
    by (subst load_stages)
       (simp add: env_duration_keys env_int_keys level_problem_key optional load_fields
          problem_key_def)
qed

end
