(* ===== verification/Logging.thy ===== *)
theory Logging
  imports Http
begin

text \<open>
  \<open>internal/platform/logging/\<close>: the process logger and its redaction, over the part of
  \<open>log/slog\<close> it configures. A handler of \<open>slog\<close> calls \<open>ReplaceAttr\<close> on each attribute that is not
  a group, at every depth, with the groups that are open; what it writes is the list of the
  attributes with the groups they are in.
\<close>

section \<open>Levels\<close>

fun level_value :: "log_level \<Rightarrow> int" where
  "level_value Level_Debug = -4"
| "level_value Level_Info = 0"
| "level_value Level_Warn = 4"
| "level_value Level_Error = 8"

fun level_text :: "log_level \<Rightarrow> string" where
  "level_text Level_Debug = ''DEBUG''"
| "level_text Level_Info = ''INFO''"
| "level_text Level_Warn = ''WARN''"
| "level_text Level_Error = ''ERROR''"

lemma level_value_inject: "level_value a = level_value b \<Longrightarrow> a = b"
  by (cases a; cases b) simp_all

instantiation log_level :: linorder
begin

definition less_eq_log_level :: "log_level \<Rightarrow> log_level \<Rightarrow> bool" where
  "less_eq_log_level a b \<longleftrightarrow> level_value a \<le> level_value b"

definition less_log_level :: "log_level \<Rightarrow> log_level \<Rightarrow> bool" where
  "less_log_level a b \<longleftrightarrow> level_value a < level_value b"

instance
  by standard (auto simp: less_eq_log_level_def less_log_level_def dest: level_value_inject)

end

section \<open>Redaction\<close>

definition redacted_value :: string where
  "redacted_value = ''[REDACTED]''"

definition sensitive_keys :: "string list" where
  "sensitive_keys =
    [''plate'', ''plate_number'', ''plate_number_key'', ''license_plate'', ''transponder'',
     ''transponder_number'', ''transponder_number_key'', ''tag_id'', ''vehicle_id'']"

definition has_suffix :: "string \<Rightarrow> string \<Rightarrow> bool" where
  "has_suffix s suffix \<longleftrightarrow>
    length suffix \<le> length s \<and> drop (length s - length suffix) s = suffix"

definition is_sensitive_key :: "('a) unicode_scheme \<Rightarrow> string \<Rightarrow> bool" where
  "is_sensitive_key U key =
    (let normalized = to_lower U key in
     if list_ex (\<lambda>k. k = normalized) sensitive_keys then True
     else list_ex (\<lambda>k. has_suffix normalized (''_'' @ k)) sensitive_keys)"

text \<open>An attribute: a value as it is printed, or a group of attributes.\<close>

datatype attr = Attr string string | Group string "attr list"

definition redact_sensitive :: "('a) unicode_scheme \<Rightarrow> string list \<Rightarrow> string \<times> string \<Rightarrow> string \<times> string" where
  "redact_sensitive U groups a =
    (if is_sensitive_key U (fst a) then (fst a, redacted_value) else a)"

type_synonym replace_attr = "string list \<Rightarrow> string \<times> string \<Rightarrow> string \<times> string"

text \<open>
  \<open>appendAttr\<close> of the handlers of \<open>slog\<close>: a group without a key is inlined, an empty group
  leaves nothing.
\<close>

fun append_attr :: "replace_attr \<Rightarrow> string list \<Rightarrow> attr \<Rightarrow> (string list \<times> string \<times> string) list" where
  "append_attr rep groups (Attr k v) = [(groups, rep groups (k, v))]"
| "append_attr rep groups (Group k attrs) =
     concat (map (append_attr rep (if k = [] then groups else groups @ [k])) attrs)"

section \<open>The logger\<close>

record log_options =
  lo_level :: log_level
  lo_format :: string
  lo_service :: string
  lo_environment :: string
  lo_version :: string

record slogger =
  sl_json :: bool
  sl_level :: log_level
  sl_replace :: replace_attr
  sl_attrs :: "attr list"

definition new_logger :: "('a) unicode_scheme \<Rightarrow> log_options \<Rightarrow> slogger" where
  "new_logger U opts =
    \<lparr>sl_json = (if lo_format opts = ''text'' then False else True), sl_level = lo_level opts,
     sl_replace = redact_sensitive U,
     sl_attrs = [Attr ''service'' (lo_service opts), Attr ''env'' (lo_environment opts),
       Attr ''version'' (lo_version opts)]\<rparr>"

text \<open>A record below the level is not written; the time, the level and the message come first.\<close>

definition written ::
  "slogger \<Rightarrow> string \<Rightarrow> log_level \<Rightarrow> string \<Rightarrow> attr list \<Rightarrow> (string list \<times> string \<times> string) list option" where
  "written lg time level msg attrs =
    (if level < sl_level lg then None
     else Some (concat (map (append_attr (sl_replace lg) [])
       ([Attr ''time'' time, Attr ''level'' (level_text level), Attr ''msg'' msg]
        @ sl_attrs lg @ attrs))))"

text \<open>The lines of the service's model, whose attributes are not grouped.\<close>

definition write_line :: "slogger \<Rightarrow> string \<Rightarrow> log_line \<Rightarrow> (string list \<times> string \<times> string) list option" where
  "write_line lg time l =
    written lg time (lg_level l) (lg_msg l) (map (\<lambda>(k, v). Attr k v) (lg_attrs l))"

lemmas logging_eval [model_defs] =
  redacted_value_def sensitive_keys_def has_suffix_def is_sensitive_key_def redact_sensitive_def
  new_logger_def written_def write_line_def less_eq_log_level_def less_log_level_def

section \<open>What is redacted\<close>

lemma has_suffix_iff: "has_suffix s t \<longleftrightarrow> (\<exists>p. s = p @ t)"
  by (auto simp: has_suffix_def intro: exI [of _ "take (length s - length t) s"])
     (metis append_take_drop_id)

lemma is_sensitive_iff:
  "is_sensitive_key U key \<longleftrightarrow>
    (\<exists>k \<in> set sensitive_keys. to_lower U key = k \<or> (\<exists>p. to_lower U key = p @ ''_'' @ k))"
  by (auto simp: is_sensitive_key_def Let_def list_ex_iff has_suffix_iff)

text \<open>The attributes with their groups, as they were given.\<close>

fun leaves :: "string list \<Rightarrow> attr \<Rightarrow> (string list \<times> string \<times> string) list" where
  "leaves groups (Attr k v) = [(groups, k, v)]"
| "leaves groups (Group k attrs) =
     concat (map (leaves (if k = [] then groups else groups @ [k])) attrs)"

definition redact_leaf ::
  "('a) unicode_scheme \<Rightarrow> string list \<times> string \<times> string \<Rightarrow> string list \<times> string \<times> string" where
  "redact_leaf U l =
    (let (groups, k, v) = l in (groups, k, if is_sensitive_key U k then redacted_value else v))"

lemma append_attr_leaves: "append_attr (redact_sensitive U) groups a = map (redact_leaf U) (leaves groups a)"
proof (induction a arbitrary: groups)
  case (Attr k v)
  show ?case by (simp add: redact_sensitive_def redact_leaf_def)
next
  case (Group k attrs)
  then have "concat (map (append_attr (redact_sensitive U) gs) attrs)
      = concat (map (\<lambda>a. map (redact_leaf U) (leaves gs a)) attrs)" for gs
    by (intro arg_cong [where f = concat] map_cong refl)
  then show ?case by (simp only: append_attr.simps leaves.simps map_concat map_map comp_def)
qed

lemma to_lower_plain: "list_all (\<lambda>c. is_ascii c \<and> ascii_lower c = c) s \<Longrightarrow> to_lower U s = s"
  by (simp add: list_all_iff map_idI)

lemma builtin_safe:
  "list_all (\<lambda>k. \<not> is_sensitive_key U k)
    [''time'', ''level'', ''msg'', ''service'', ''env'', ''version'']"
  by (simp add: is_sensitive_key_def sensitive_keys_def has_suffix_def to_lower_plain ascii_lower_def
      is_upper_def is_ascii_def code_def)

text \<open>C33: A record at or above the level is written, whole, with the identity of the service in
  front of it. At every depth of it, an attribute that is not a group and whose key, in any case,
  is a sensitive one or ends in one after an underscore is written as \<open>[REDACTED]\<close>, and every other
  one as it was given. The key of a group is not looked at: what a group with a sensitive key holds
  is redacted by its own keys alone (\<open>sensitive_group_discloses\<close>).\<close>

theorem logger_redacts:
  "written (new_logger U opts) time level msg attrs =
    (if level_value level < level_value (lo_level opts) then None
     else Some
       ([([], ''time'', time), ([], ''level'', level_text level), ([], ''msg'', msg),
         ([], ''service'', lo_service opts), ([], ''env'', lo_environment opts),
         ([], ''version'', lo_version opts)]
        @ map (\<lambda>(groups, k, v).
            (groups, k,
             if \<exists>s \<in> set sensitive_keys. to_lower U k = s \<or> (\<exists>p. to_lower U k = p @ ''_'' @ s)
             then ''[REDACTED]'' else v))
          (concat (map (leaves []) attrs))))"
proof -
  have safe: "redact_sensitive U gs (k, v) = (k, v)"
    if "k \<in> set [''time'', ''level'', ''msg'', ''service'', ''env'', ''version'']" for gs k v
    using that builtin_safe [of U] by (auto simp: list_all_iff redact_sensitive_def)
  have "concat (map (append_attr (redact_sensitive U) []) attrs)
      = map (redact_leaf U) (concat (map (leaves []) attrs))"
    by (simp add: append_attr_leaves [abs_def] map_concat comp_def)
  then show ?thesis
    unfolding is_sensitive_iff [symmetric] redacted_value_def [symmetric]
    by (simp add: written_def new_logger_def less_log_level_def safe)
       (simp add: redact_leaf_def [abs_def] case_prod_beta)
qed

text \<open>
  A group is not an attribute to \<open>ReplaceAttr\<close>: under a group whose own key is sensitive, a member
  with a harmless key is written as it is.
\<close>

lemma sensitive_group_discloses:
  "is_sensitive_key U ''plate'' \<and>
    append_attr (redact_sensitive U) [] (Group ''plate'' [Attr ''number'' v]) = [([''plate''], ''number'', v)]"
  by (simp add: is_sensitive_key_def sensitive_keys_def has_suffix_def redact_sensitive_def
      to_lower_plain ascii_lower_def is_upper_def is_ascii_def code_def)

end
