(* ===== verification/Healthcheck.thy ===== *)
theory Healthcheck
  imports Prelude Go_Strings
begin

text \<open>
  \<open>cmd/transaction-api/healthcheck.go\<close>: the probe of the process by itself, and the part of \<open>net\<close>
  it takes addresses apart with. Parsing the URL and the HTTP exchange are parameters.
\<close>

section \<open>Host and port\<close>

datatype addr_error =
    Missing_Port
  | Too_Many_Colons
  | Missing_Bracket
  | Unexpected_Open
  | Unexpected_Close

text \<open>What is in front of the last colon, and what is behind it.\<close>

definition split_last_colon :: "string \<Rightarrow> (string \<times> string) option" where
  "split_last_colon s =
    (case dropWhile (\<lambda>c. c \<noteq> CHR '':'') (rev s) of
       [] \<Rightarrow> None
     | _ # before \<Rightarrow> Some (rev before, rev (takeWhile (\<lambda>c. c \<noteq> CHR '':'') (rev s))))"

definition split_bracketed :: "string \<Rightarrow> string \<Rightarrow> string \<Rightarrow> addr_error + string \<times> string" where
  "split_bracketed s before port =
    (let inside = takeWhile (\<lambda>c. c \<noteq> CHR '']'') s; rest = dropWhile (\<lambda>c. c \<noteq> CHR '']'') s in
     if rest = [] then Inl Missing_Bracket
     else if length inside + 1 = length s then Inl Missing_Port
     else if length inside + 1 = length before then
       (if CHR ''['' \<in> set (tl s) then Inl Unexpected_Open
        else if CHR '']'' \<in> set (tl rest) then Inl Unexpected_Close
        else Inr (tl inside, port))
     else if s ! (length inside + 1) = CHR '':'' then Inl Too_Many_Colons
     else Inl Missing_Port)"

definition split_host_port :: "string \<Rightarrow> addr_error + string \<times> string" where
  "split_host_port s =
    (case split_last_colon s of
       None \<Rightarrow> Inl Missing_Port
     | Some (before, port) \<Rightarrow>
         if hd s = CHR ''['' then split_bracketed s before port
         else if CHR '':'' \<in> set before then Inl Too_Many_Colons
         else if CHR ''['' \<in> set s then Inl Unexpected_Open
         else if CHR '']'' \<in> set s then Inl Unexpected_Close
         else Inr (before, port))"

definition join_host_port :: "string \<Rightarrow> string \<Rightarrow> string" where
  "join_host_port host port =
    (if CHR '':'' \<in> set host then ''['' @ host @ '']:'' @ port else host @ '':'' @ port)"

section \<open>The probe\<close>

definition local_address :: "string \<Rightarrow> string" where
  "local_address addr =
    (case split_host_port addr of
       Inl _ \<Rightarrow> addr
     | Inr (host, port) \<Rightarrow>
         (let host1 = (if host = [] \<or> host = ''0.0.0.0'' \<or> host = ''::'' then ''127.0.0.1'' else host)
          in join_host_port host1 port))"

record http_client =
  hc_new_request :: "string \<Rightarrow> string \<Rightarrow> string option"
  hc_do :: "string \<Rightarrow> string \<Rightarrow> string + int \<times> string"

definition run_healthcheck :: "http_client \<Rightarrow> string \<Rightarrow> string option" where
  "run_healthcheck client addr =
    (let url = ''http://'' @ local_address addr @ ''/healthz'' in
     case hc_new_request client ''GET'' url of
       Some e \<Rightarrow> Some (''build healthcheck request: '' @ e)
     | None \<Rightarrow>
         (case hc_do client ''GET'' url of
            Inl e \<Rightarrow> Some (''healthcheck request to '' @ url @ '': '' @ e)
          | Inr (n, status) \<Rightarrow>
              if n \<noteq> 200 then Some (''healthcheck returned '' @ status) else None))"

lemmas healthcheck_eval [model_defs] =
  split_last_colon_def split_bracketed_def split_host_port_def join_host_port_def
  local_address_def run_healthcheck_def

section \<open>Taking apart and putting together\<close>

lemma split_last_colon_join:
  "CHR '':'' \<notin> set port \<Longrightarrow> split_last_colon (before @ CHR '':'' # port) = Some (before, port)"
  by (simp add: split_last_colon_def dropWhile_append takeWhile_append)

lemma split_last_colon_Some:
  "split_last_colon s = Some (before, port) \<Longrightarrow> s = before @ CHR '':'' # port \<and> CHR '':'' \<notin> set port"
proof (cases "dropWhile (\<lambda>c. c \<noteq> CHR '':'') (rev s)")
  case (Cons c r)
  assume "split_last_colon s = Some (before, port)"
  then have parts: "before = rev r" "port = rev (takeWhile (\<lambda>c. c \<noteq> CHR '':'') (rev s))"
    by (simp_all add: split_last_colon_def Cons)
  have "c = CHR '':''" using Cons hd_dropWhile [of "\<lambda>c. c \<noteq> CHR '':''" "rev s"] by simp
  then have "rev s = rev port @ CHR '':'' # rev before"
    using takeWhile_dropWhile_id [of "\<lambda>c. c \<noteq> CHR '':''" "rev s"] Cons parts by simp
  then have "s = before @ CHR '':'' # port" by (metis rev_rev_ident rev_append rev.simps(2) append_assoc append_Cons append_Nil)
  moreover have "CHR '':'' \<notin> set port" using parts by (auto dest: set_takeWhileD)
  ultimately show ?thesis ..
qed (simp add: split_last_colon_def)

definition plain_host :: "string \<Rightarrow> bool" where
  "plain_host h \<longleftrightarrow> CHR ''['' \<notin> set h \<and> CHR '']'' \<notin> set h"

lemma split_join:
  assumes "plain_host h" and "plain_host p" and "CHR '':'' \<notin> set p"
  shows "split_host_port (join_host_port h p) = Inr (h, p)"
proof (cases "CHR '':'' \<in> set h")
  case True
  have split: "split_last_colon (''['' @ h @ '']:'' @ p) = Some (''['' @ h @ '']'', p)"
    using split_last_colon_join [OF assms(3), of "''['' @ h @ '']''"] by simp
  have inside: "takeWhile (\<lambda>c. c \<noteq> CHR '']'') (''['' @ h @ '']:'' @ p) = ''['' @ h"
    "dropWhile (\<lambda>c. c \<noteq> CHR '']'') (''['' @ h @ '']:'' @ p) = '']:'' @ p"
    using assms(1) by (auto simp: plain_host_def takeWhile_append dropWhile_append)
  have "split_bracketed (''['' @ h @ '']:'' @ p) (''['' @ h @ '']'') p = Inr (h, p)"
    using assms unfolding split_bracketed_def Let_def inside by (simp add: plain_host_def)
  with True split show ?thesis by (simp add: join_host_port_def split_host_port_def)
next
  case False
  have "split_last_colon (h @ '':'' @ p) = Some (h, p)"
    using split_last_colon_join [OF assms(3)] by simp
  moreover have "hd (h @ '':'' @ p) \<noteq> CHR ''[''"
    using assms(1) by (cases h) (auto simp: plain_host_def)
  ultimately show ?thesis
    using False assms by (simp add: join_host_port_def split_host_port_def plain_host_def)
qed

lemma split_Inr:
  assumes "split_host_port s = Inr (h, p)"
  shows "plain_host h \<and> plain_host p \<and> CHR '':'' \<notin> set p"
proof -
  obtain before where split: "split_last_colon s = Some (before, p)"
    using assms
    by (auto simp: split_host_port_def split_bracketed_def Let_def split: option.splits if_splits)
  then have s: "s = before @ CHR '':'' # p" "CHR '':'' \<notin> set p"
    using split_last_colon_Some by blast+
  show ?thesis
  proof (cases "hd s = CHR ''[''")
    case True
    then have b: "split_bracketed s before p = Inr (h, p)"
      using assms split by (simp add: split_host_port_def)
    let ?inside = "takeWhile (\<lambda>c. c \<noteq> CHR '']'') s" and ?rest = "dropWhile (\<lambda>c. c \<noteq> CHR '']'') s"
    have h: "h = tl ?inside" and len: "length ?inside + 1 = length before" and rest: "?rest \<noteq> []"
      and no: "CHR ''['' \<notin> set (tl s)" "CHR '']'' \<notin> set (tl ?rest)"
      using b by (auto simp: split_bracketed_def Let_def split: if_splits)
    have whole: "s = ?inside @ ?rest" by simp
    have "set (tl ?inside) \<subseteq> set (tl s)"
      by (cases s) (auto dest: set_takeWhileD)
    moreover have "CHR '']'' \<notin> set ?inside" by (auto dest: set_takeWhileD)
    then have "CHR '']'' \<notin> set h" using h by (metis list.set_sel(2) tl_Nil)
    moreover have "tl ?rest = drop (length ?inside + 1) s"
      by (subst (3) whole) (simp add: drop_Suc del: takeWhile_dropWhile_id)
    then have "tl ?rest = CHR '':'' # p" using len s(1) by simp
    moreover have "before \<noteq> []" using len by auto
    then have "set p \<subseteq> set (tl s)" using s(1) by (cases before) auto
    ultimately have "CHR '']'' \<notin> set p \<and> CHR ''['' \<notin> set p \<and> CHR '']'' \<notin> set h
        \<and> CHR ''['' \<notin> set h"
      using no h by (metis list.set_intros(2) subsetD)
    then show ?thesis using s(2) by (simp add: plain_host_def)
  next
    case False
    then show ?thesis
      using assms split s by (auto simp: split_host_port_def plain_host_def split: if_splits)
  qed
qed

text \<open>The address the self-probe dials: when the listen address is a host and a port, the dialled
  one is a host and the same port too, and the host is one that can be reached, loopback where the
  service listens on every interface and the configured host otherwise; a second translation
  changes nothing. Anything else is handed back as it is.\<close>

theorem local_address_dialable:
  "case split_host_port addr of
     Inl _ \<Rightarrow> local_address addr = addr
   | Inr (h, p) \<Rightarrow>
       split_host_port (local_address addr) =
         Inr (if h \<in> {[], ''0.0.0.0'', ''::''} then ''127.0.0.1'' else h, p)
       \<and> local_address (local_address addr) = local_address addr"
proof (cases "split_host_port addr")
  case (Inr hp)
  obtain h p where hp: "hp = (h, p)" by fastforce
  obtain h' where h': "h' = (if h \<in> {[], ''0.0.0.0'', ''::''} then ''127.0.0.1'' else h)" by blast
  have plain: "plain_host p" "CHR '':'' \<notin> set p" "plain_host h'"
    using split_Inr Inr hp by (auto simp: plain_host_def h')
  have addr: "local_address addr = join_host_port h' p"
    by (simp add: local_address_def Inr hp h')
  have again: "split_host_port (local_address addr) = Inr (h', p)"
    using split_join [OF plain(3,1,2)] addr by simp
  have "h' \<noteq> [] \<and> h' \<noteq> ''0.0.0.0'' \<and> h' \<noteq> ''::''" by (auto simp: h')
  then have "local_address (local_address addr) = local_address addr"
    by (simp add: local_address_def [of "local_address addr"] again addr [symmetric])
  with again show ?thesis by (simp add: Inr hp h')
qed (simp add: local_address_def)

end
