(* ===== verification/Api_Error.thy ===== *)
theory Api_Error
  imports Http
begin

text \<open>
  \<open>internal/httpapi/apierror.go\<close>: the error body of the contract and the field errors in it. The
  errors of the contract validator are trees, as its library wraps them: the constructors are
  the kinds \<open>errors.As\<close> looks for, and any other error with what it wraps. The text of an error
  (\<open>Error()\<close>) is the library's, a parameter.
\<close>

record field_error =
  fe_field :: string
  fe_reason :: string

section \<open>The error body\<close>

definition format_part :: "field_error \<Rightarrow> string list" where
  "format_part f =
    (if fe_field f = [] \<and> fe_reason f = [] then []
     else if fe_field f = [] then [fe_reason f]
     else [fe_field f @ '': '' @ fe_reason f])"

text \<open>\<open>slices.Sort\<close>, then \<open>slices.Compact\<close>, which drops equal neighbours.\<close>

definition format_field_errors :: "field_error list \<Rightarrow> string" where
  "format_field_errors errs =
    (if errs = [] then []
     else join ''; '' (remdups_adj (sort (concat (map format_part errs)))))"

text \<open>The \<open>Error\<close> schema: pointers that are \<open>nil\<close> are left out.\<close>

record api_error =
  ae_code :: "int option"
  ae_fields :: "string option"
  ae_message :: "string option"

definition opt_member :: "string \<Rightarrow> ('a \<Rightarrow> string) \<Rightarrow> 'a option \<Rightarrow> (string \<times> string) list" where
  "opt_member k enc v = (case v of None \<Rightarrow> [] | Some x \<Rightarrow> [(k, enc x)])"

definition api_error_json :: "api_error \<Rightarrow> string" where
  "api_error_json e =
    json_members (opt_member ''code'' show_int (ae_code e)
      @ opt_member ''fields'' json_string (ae_fields e)
      @ opt_member ''message'' json_string (ae_message e))"

definition write_error :: "int \<Rightarrow> string \<Rightarrow> field_error list \<Rightarrow> writer_call list" where
  "write_error status message errs =
    (let formatted = format_field_errors errs in
     write_json status (api_error_json
       \<lparr>ae_code = Some status, ae_fields = (if formatted = [] then None else Some formatted),
        ae_message = Some message\<rparr>))"

section \<open>The validator's errors\<close>

record schema_failure =
  sf_pointer :: "string list"
  sf_schema_field :: string
  sf_reason :: string
  sf_format :: "string option"

record request_failure =
  rf_parameter :: "string option"
  rf_reason :: string

datatype spec_err =
    Multi_Error "spec_err list"
  | Schema_Error schema_failure "spec_err option"
  | Request_Error request_failure "spec_err option"
  | Max_Bytes_Error int
  | Other_Error string "spec_err option"

text \<open>
  \<open>errors.As\<close>: the error itself, then what it wraps; a \<open>MultiError\<close> asks its members in turn.
\<close>

fun as_multi :: "spec_err \<Rightarrow> spec_err list option" where
  "as_multi (Multi_Error es) = Some es"
| "as_multi (Schema_Error f (Some e)) = as_multi e"
| "as_multi (Request_Error f (Some e)) = as_multi e"
| "as_multi (Other_Error t (Some e)) = as_multi e"
| "as_multi _ = None"

fun first_some :: "'a option list \<Rightarrow> 'a option" where
  "first_some [] = None"
| "first_some (Some x # xs) = Some x"
| "first_some (None # xs) = first_some xs"

fun as_schema :: "spec_err \<Rightarrow> schema_failure option" where
  "as_schema (Schema_Error f e) = Some f"
| "as_schema (Multi_Error es) = first_some (map as_schema es)"
| "as_schema (Request_Error f (Some e)) = as_schema e"
| "as_schema (Other_Error t (Some e)) = as_schema e"
| "as_schema _ = None"

fun as_request :: "spec_err \<Rightarrow> (request_failure \<times> spec_err option) option" where
  "as_request (Request_Error f e) = Some (f, e)"
| "as_request (Multi_Error es) = first_some (map as_request es)"
| "as_request (Schema_Error f (Some e)) = as_request e"
| "as_request (Other_Error t (Some e)) = as_request e"
| "as_request _ = None"

fun as_max_bytes :: "spec_err \<Rightarrow> int option" where
  "as_max_bytes (Max_Bytes_Error n) = Some n"
| "as_max_bytes (Multi_Error es) = first_some (map as_max_bytes es)"
| "as_max_bytes (Schema_Error f (Some e)) = as_max_bytes e"
| "as_max_bytes (Request_Error f (Some e)) = as_max_bytes e"
| "as_max_bytes (Other_Error t (Some e)) = as_max_bytes e"
| "as_max_bytes _ = None"

definition reason :: "(spec_err \<Rightarrow> string) \<Rightarrow> string \<Rightarrow> spec_err option \<Rightarrow> string" where
  "reason error_text primary fallback =
    (if primary \<noteq> [] then primary
     else case fallback of Some e \<Rightarrow> error_text e | None \<Rightarrow> ''is invalid'')"

definition field_error_from_schema :: "(spec_err \<Rightarrow> string) \<Rightarrow> schema_failure \<Rightarrow> field_error" where
  "field_error_from_schema error_text se =
    (let joined = join ''.'' (sf_pointer se);
         field = (if joined = [] then ''body'' else joined)
     in if sf_schema_field se = ''required''
        then \<lparr>fe_field = field, fe_reason = ''is required''\<rparr>
        else if sf_schema_field se = ''format'' \<and> sf_format se \<noteq> None \<and> sf_format se \<noteq> Some []
        then \<lparr>fe_field = field, fe_reason = ''must be a valid '' @ the (sf_format se)\<rparr>
        else \<lparr>fe_field = field, fe_reason = reason error_text (sf_reason se) None\<rparr>)"

lemma as_multi_size: "as_multi e = Some es \<Longrightarrow> x \<in> set es \<Longrightarrow> size x < size e"
proof (induction e rule: as_multi.induct)
  case (1 es')
  then show ?case using size_list_estimation' [of x es' "size x" size] by auto
qed auto

text \<open>\<open>collectFieldErrors\<close>, with the accumulated list as its result.\<close>

function collect_field_errors :: "(spec_err \<Rightarrow> string) \<Rightarrow> spec_err \<Rightarrow> field_error list" where
  "collect_field_errors error_text e =
    (case as_multi e of
       Some es \<Rightarrow> concat (map (collect_field_errors error_text) es)
     | None \<Rightarrow>
         (case as_schema e of
            Some f \<Rightarrow> [field_error_from_schema error_text f]
          | None \<Rightarrow>
              (case as_request e of
                 Some (f, wrapped) \<Rightarrow>
                   [\<lparr>fe_field = (case rf_parameter f of Some p \<Rightarrow> p | None \<Rightarrow> ''body''),
                     fe_reason = reason error_text (rf_reason f) wrapped\<rparr>]
               | None \<Rightarrow> [])))"
  by pat_completeness auto
termination
  by (relation "measure (size \<circ> snd)") (auto dest: as_multi_size)

declare collect_field_errors.simps [simp del]

text \<open>\<open>fieldErrorsFromSpecValidation\<close>: no error has no fields.\<close>

definition field_errors_from_spec_validation ::
  "(spec_err \<Rightarrow> string) \<Rightarrow> spec_err option \<Rightarrow> field_error list" where
  "field_errors_from_spec_validation error_text e =
    (case e of None \<Rightarrow> [] | Some e \<Rightarrow> collect_field_errors error_text e)"

lemmas api_error_eval [model_defs] =
  format_part_def format_field_errors_def opt_member_def api_error_json_def write_error_def
  reason_def field_error_from_schema_def field_errors_from_spec_validation_def

section \<open>Properties\<close>

lemma respond_write_error:
  "rs_status (respond (write_error status message errs)) = status"
  by (simp add: write_error_def Let_def)

lemma distinct_remdups_adj_sorted:
  fixes xs :: "'a::linorder list"
  shows "sorted xs \<Longrightarrow> distinct (remdups_adj xs)"
  by (induction xs rule: remdups_adj.induct) (auto simp: order.antisym)

lemma remdups_adj_sort:
  fixes xs :: "'a::linorder list"
  shows "remdups_adj (sort xs) = sorted_list_of_set (set xs)"
  by (rule sorted_distinct_set_unique) (simp_all add: distinct_remdups_adj_sorted)

text \<open>The field list of an error body depends only on the set of the rendered failures: it is
  the different ones in byte order, so the same invalid payload is answered with the same bytes
  whatever order the failures were found in and however often.\<close>

theorem format_field_errors_canonical:
  "format_field_errors errs
    = join ''; '' (sorted_list_of_set (\<Union>f \<in> set errs. set (format_part f)))"
  by (simp add: format_field_errors_def remdups_adj_sort)

text \<open>Every schema violation the validator reports under a request error reaches the producer,
  in the order of the report, each as its own field error.\<close>

theorem all_violations_reported:
  "field_errors_from_spec_validation error_text
      (Some (Request_Error rf (Some (Multi_Error (map (\<lambda>f. Schema_Error f None) fs)))))
    = map (field_error_from_schema error_text) fs"
proof -
  have leaf: "collect_field_errors error_text (Schema_Error f None)
      = [field_error_from_schema error_text f]" for f
    by (subst collect_field_errors.simps) simp
  show ?thesis
    by (simp add: field_errors_from_spec_validation_def collect_field_errors.simps comp_def leaf)
qed

end
