(* ===== verification/Fingerprint.thy ===== *)
theory Fingerprint
  imports Rules
begin

text \<open>
  \<open>internal/transaction/fingerprint.go\<close>: the digest of a transaction's billable content. The
  hashed text is the JSON object of the fields in the order of the struct, the empty ones among
  those marked \<open>omitempty\<close> left out; the time is written in UTC. \<open>json.Marshal\<close> fails when the
  year of the time has not four digits, and its error is dropped: the digest is then that of no
  bytes.
\<close>

definition quoted_member :: "string \<Rightarrow> string \<Rightarrow> string \<times> string" where
  "quoted_member name v = (name, json_string v)"

definition omit_empty :: "string \<Rightarrow> string \<Rightarrow> (string \<times> string) list" where
  "omit_empty name v = (if v = [] then [] else [quoted_member name v])"

definition omit_empty_map :: "string \<Rightarrow> json_obj option \<Rightarrow> (string \<times> string) list" where
  "omit_empty_map name m =
    (case m of None \<Rightarrow> [] | Some kvs \<Rightarrow> if kvs = [] then [] else [(name, json_object kvs)])"

definition fingerprint_fields :: "('d, 'a) lib_scheme \<Rightarrow> 'd transaction \<Rightarrow> (string \<times> string) list" where
  "fingerprint_fields L t =
    [quoted_member ''source'' (tx_source t),
     quoted_member ''source_reference'' (tx_source_reference t),
     quoted_member ''type'' (tx_type t),
     (''occurred_at'', [CHR 0x22] @ time_rfc3339 (time_utc (tx_occurred_at t)) @ [CHR 0x22])]
    @ (case tx_plate t of
         None \<Rightarrow> []
       | Some p \<Rightarrow> omit_empty ''plate_number'' (pl_number p)
           @ omit_empty ''plate_jurisdiction'' (pl_jurisdiction p))
    @ (case tx_transponder t of None \<Rightarrow> [] | Some n \<Rightarrow> omit_empty ''transponder'' (tr_number n))
    @ [quoted_member ''amount'' (dec_string L (amt_value (tx_base_amount t))),
       quoted_member ''currency'' (cur_code (amt_currency (tx_base_amount t)))]
    @ omit_empty_map ''location'' (tx_location t)
    @ omit_empty_map ''metadata'' (tx_metadata t)"

definition fingerprint_encoding :: "('d, 'a) lib_scheme \<Rightarrow> 'd transaction \<Rightarrow> string" where
  "fingerprint_encoding L t =
    (if time_json_ok (time_utc (tx_occurred_at t)) then json_members (fingerprint_fields L t)
     else [])"

text \<open>\<open>hex.EncodeToString\<close>.\<close>

definition hex_encode :: "string \<Rightarrow> string" where
  "hex_encode s = concat (map (\<lambda>c. pad_hex 2 (code c)) s)"

definition fingerprint :: "('d, 'a) lib_scheme \<Rightarrow> 'd transaction \<Rightarrow> string" where
  "fingerprint L t = hex_encode (sha256 L (fingerprint_encoding L t))"

lemmas fingerprint_eval [model_defs] =
  quoted_member_def omit_empty_def omit_empty_map_def fingerprint_fields_def
  fingerprint_encoding_def hex_encode_def fingerprint_def

section \<open>Billable content\<close>

text \<open>
  Two transactions have the same billable content when they agree on the key, the type, the
  instant, the raw reads, the money and the passthrough, whatever the order in which a map's
  members are ranged over; an absent map counts as an empty one.
\<close>

definition map_content :: "json_obj option \<Rightarrow> (string \<times> json) multiset" where
  "map_content m = (case m of None \<Rightarrow> {#} | Some kvs \<Rightarrow> mset kvs)"

definition map_wf :: "json_obj option \<Rightarrow> bool" where
  "map_wf m = (case m of None \<Rightarrow> True | Some kvs \<Rightarrow> gm_wf kvs)"

definition same_content :: "('d, 'a) lib_scheme \<Rightarrow> 'd transaction \<Rightarrow> 'd transaction \<Rightarrow> bool" where
  "same_content L t u \<longleftrightarrow>
    key_of t = key_of u \<and> tx_type t = tx_type u
    \<and> t_ns (tx_occurred_at t) = t_ns (tx_occurred_at u)
    \<and> map_option (\<lambda>p. (pl_number p, pl_jurisdiction p)) (tx_plate t)
        = map_option (\<lambda>p. (pl_number p, pl_jurisdiction p)) (tx_plate u)
    \<and> map_option tr_number (tx_transponder t) = map_option tr_number (tx_transponder u)
    \<and> amount_equal L (tx_base_amount t) (tx_base_amount u)
    \<and> map_content (tx_location t) = map_content (tx_location u)
    \<and> map_content (tx_metadata t) = map_content (tx_metadata u)"

lemma omit_empty_map_content:
  assumes "map_wf m" and "map_content m = map_content m'"
  shows "omit_empty_map k m = omit_empty_map k m'"
proof -
  have "omit_empty_map k m = (if map_content m = {#} then [] else [(k, json_object (the m))])" for m
    by (auto simp: omit_empty_map_def map_content_def split: option.splits)
  moreover have "json_object (the m) = json_object (the m')" if "map_content m \<noteq> {#}"
    using assms that
    by (auto simp: map_content_def map_wf_def intro: json_object_order split: option.splits)
  ultimately show ?thesis using assms(2) by simp
qed

lemma fingerprint_encoding_content:
  assumes "decimal_ok L v" and "map_wf (tx_location t)" and "map_wf (tx_metadata t)"
    and "same_content L t u"
  shows "fingerprint_encoding L t = fingerprint_encoding L u"
proof -
  have time: "time_utc (tx_occurred_at t) = time_utc (tx_occurred_at u)"
    using assms(4) by (simp add: same_content_def time_utc_eq_iff)
  have dec: "dec_string L (amt_value (tx_base_amount t)) = dec_string L (amt_value (tx_base_amount u))"
    using assms(4) by (simp add: same_content_def amount_equal_def decimal_ok_equal [OF assms(1)]
        decimal_ok_string [OF assms(1)])
  have maps: "omit_empty_map k (tx_location t) = omit_empty_map k (tx_location u)"
    "omit_empty_map k (tx_metadata t) = omit_empty_map k (tx_metadata u)" for k
    using assms(2-4) by (simp_all add: same_content_def omit_empty_map_content)
  have "fingerprint_fields L t = fingerprint_fields L u"
    using assms(4) unfolding fingerprint_fields_def time dec maps
    by (auto simp: same_content_def key_of_eq_iff amount_equal_def split: option.splits)
  then show ?thesis by (simp add: fingerprint_encoding_def time)
qed

section \<open>Differences show\<close>

lemma pad_hex_2: "pad_hex 2 n = [hex_char (n div 16 mod 16), hex_char (n mod 16)]"
  by (simp add: numeral_2_eq_2)

lemma hex_encode_inject: "hex_encode s = hex_encode t \<longleftrightarrow> s = t"
proof
  show "hex_encode s = hex_encode t \<Longrightarrow> s = t"
  proof (induction s arbitrary: t)
    case Nil
    then show ?case by (cases t) (simp_all add: hex_encode_def pad_hex_2)
  next
    case (Cons c s)
    then obtain d t' where t: "t = d # t'"
      by (cases t) (simp_all add: hex_encode_def pad_hex_2)
    have "code c div 16 mod 16 = code d div 16 mod 16" "code c mod 16 = code d mod 16"
      using Cons.prems by (simp_all add: hex_encode_def pad_hex_2 hex_char_inject t)
    moreover have "code c div 16 < 16" "code d div 16 < 16"
      using code_less [of c] code_less [of d] by (simp_all add: less_mult_imp_div_less)
    ultimately have "code c = code d" by (metis div_mult_mod_eq mod_less)
    then show ?case using Cons t by (simp add: hex_encode_def)
  qed
qed simp

text \<open>
  A JSON string of plain characters is the string between quotes, so a member's value can be
  read back from what follows it.
\<close>

definition plain_char :: "char \<Rightarrow> bool" where
  "plain_char c \<longleftrightarrow> is_digit c \<or> is_upper c \<or> c = CHR ''-'' \<or> c = CHR ''.''"

lemma plain_char_props:
  "plain_char c \<Longrightarrow> is_ascii c \<and> json_escape (code c, [c]) = [c] \<and> c \<noteq> CHR 0x22"
  by (auto simp: plain_char_def json_escape_def byte_defs code_def)

lemma json_string_plain:
  assumes "list_all plain_char s"
  shows "json_string s = [CHR 0x22] @ s @ [CHR 0x22]"
proof -
  have "list_all is_ascii s" using assms by (auto simp: list_all_iff plain_char_props)
  moreover have "concat (map (\<lambda>c. json_escape (code c, [c])) s) = s"
    using assms by (induction s) (auto simp: plain_char_props)
  ultimately show ?thesis by (simp add: json_string_def runes_ascii comp_def)
qed

lemma plain_quote_cancel:
  assumes "list_all plain_char s" and "list_all plain_char t"
    and "s @ CHR 0x22 # x = t @ CHR 0x22 # y"
  shows "s = t \<and> x = y"
  using assms
proof (induction s arbitrary: t)
  case Nil
  then show ?case by (cases t) (auto dest: plain_char_props)
next
  case (Cons c s)
  then show ?case by (cases t) (auto dest: plain_char_props)
qed

definition member_text :: "string \<times> string \<Rightarrow> string" where
  "member_text m = json_string (fst m) @ '':'' @ snd m"

lemma json_members_cancel:
  assumes "json_members (pre @ xs) = json_members (pre @ ys)" and "xs \<noteq> []" and "ys \<noteq> []"
  shows "join '','' (map member_text xs) = join '','' (map member_text ys)"
proof -
  have members: "json_members ms = ''{'' @ join '','' (map member_text ms) @ ''}''" for ms
    by (simp add: json_members_def member_text_def [abs_def] case_prod_unfold)
  show ?thesis using assms by (simp add: members join_append split: if_splits)
qed

text \<open>The money of a transaction can be read off its encoding, whatever surrounds it.\<close>

lemma fingerprint_encoding_money:
  assumes "time_json_ok (time_utc (tx_occurred_at t))"
    and "list_all plain_char (dec_string L (amt_value a))"
    and "list_all plain_char (dec_string L (amt_value b))"
    and "list_all plain_char (cur_code (amt_currency a))"
    and "list_all plain_char (cur_code (amt_currency b))"
    and "fingerprint_encoding L (t\<lparr>tx_base_amount := a\<rparr>)
      = fingerprint_encoding L (t\<lparr>tx_base_amount := b\<rparr>)"
  shows "dec_string L (amt_value a) = dec_string L (amt_value b)
    \<and> cur_code (amt_currency a) = cur_code (amt_currency b)"
proof -
  let ?money = "\<lambda>a. [quoted_member ''amount'' (dec_string L (amt_value a)),
       quoted_member ''currency'' (cur_code (amt_currency a))]"
  let ?pre = "[quoted_member ''source'' (tx_source t),
     quoted_member ''source_reference'' (tx_source_reference t),
     quoted_member ''type'' (tx_type t),
     (''occurred_at'', [CHR 0x22] @ time_rfc3339 (time_utc (tx_occurred_at t)) @ [CHR 0x22])]
    @ (case tx_plate t of
         None \<Rightarrow> []
       | Some p \<Rightarrow> omit_empty ''plate_number'' (pl_number p)
           @ omit_empty ''plate_jurisdiction'' (pl_jurisdiction p))
    @ (case tx_transponder t of None \<Rightarrow> [] | Some n \<Rightarrow> omit_empty ''transponder'' (tr_number n))"
  let ?post = "omit_empty_map ''location'' (tx_location t) @ omit_empty_map ''metadata'' (tx_metadata t)"
  have fields: "fingerprint_fields L (t\<lparr>tx_base_amount := a\<rparr>) = ?pre @ ?money a @ ?post" for a
    by (simp add: fingerprint_fields_def)
  have pre: "?pre \<noteq> []" by simp
  have "json_members (?pre @ ?money a @ ?post) = json_members (?pre @ ?money b @ ?post)"
    using assms(1,6) unfolding fingerprint_encoding_def fields by simp
  then have "join '','' (map member_text (?money a @ ?post))
      = join '','' (map member_text (?money b @ ?post))"
    by (rule json_members_cancel) simp_all
  then obtain x y where
      amount: "dec_string L (amt_value a) @ CHR 0x22 # '','' @ x
        = dec_string L (amt_value b) @ CHR 0x22 # '','' @ y"
      and x: "\<exists>z. x = join '','' (map member_text (quoted_member ''currency'' (cur_code (amt_currency a)) # z))"
      and y: "\<exists>z. y = join '','' (map member_text (quoted_member ''currency'' (cur_code (amt_currency b)) # z))"
    by (simp add: join_Cons member_text_def quoted_member_def json_string_plain assms(2,3))
  have "x = y" using plain_quote_cancel [OF assms(2,3) amount] by simp
  with x y have "\<exists>z z'. cur_code (amt_currency a) @ CHR 0x22 # z = cur_code (amt_currency b) @ CHR 0x22 # z'"
    by (auto simp: join_Cons member_text_def quoted_member_def json_string_plain assms(4,5))
  then show ?thesis
    using plain_quote_cancel [OF assms(2,3) amount] plain_quote_cancel [OF assms(4,5)] by blast
qed

section \<open>Properties\<close>

text \<open>The fingerprint depends on nothing but the billable content: not on the id, the time of
  receipt, the statuses, the offset a time was written in, trailing zeros of the amount, or the
  order in which the members of a map come.\<close>

theorem fingerprint_content_only:
  assumes "decimal_ok L v" and "map_wf (tx_location t)" and "map_wf (tx_metadata t)"
    and "same_content L t u"
  shows "fingerprint L t = fingerprint L u"
  unfolding fingerprint_def fingerprint_encoding_content [OF assms] by (rule refl)

definition demo_retry :: "refdec transaction" where
  "demo_retry = demo_tx\<lparr>tx_id := 9, tx_received_at := zero_time,
    tx_occurred_at := \<lparr>t_ns = t_ns (tx_occurred_at demo_tx), t_off = 7200\<rparr>,
    tx_base_amount := \<lparr>amt_value = (125, 1), amt_currency = amt_currency (tx_base_amount demo_tx),
      amt_as_received = ''12.5''\<rparr>,
    tx_location := Some []\<rparr>"

theorem fingerprint_content_only_witness:
  "demo_retry \<noteq> demo_tx \<and> fingerprint ref_lib demo_retry = fingerprint ref_lib demo_tx"
proof -
  have "map_wf (tx_location demo_retry)" "map_wf (tx_metadata demo_retry)"
    and "same_content ref_lib demo_retry demo_tx" and diff: "tx_id demo_retry \<noteq> tx_id demo_tx"
    by code_simp+
  note fp = fingerprint_content_only [OF ref_lib_ok this(1-3)]
  have "demo_retry \<noteq> demo_tx" using diff by auto
  with fp show ?thesis by simp
qed

text \<open>A changed amount of money shows: when only the amount or its currency differs, and the
  time can be written, the hashed texts differ, so the fingerprints do as long as the hash does
  not collide on the two texts.\<close>

theorem changed_money_changes_fingerprint:
  assumes "decimal_ok L v" and "time_json_ok (time_utc (tx_occurred_at t))"
    and "cur_code (amt_currency a) \<in> set codes" and "cur_code (amt_currency b) \<in> set codes"
    and "\<not> amount_equal L a b"
    and "\<And>x y. x = fingerprint_encoding L (t\<lparr>tx_base_amount := a\<rparr>) \<Longrightarrow>
      y = fingerprint_encoding L (t\<lparr>tx_base_amount := b\<rparr>) \<Longrightarrow> sha256 L x = sha256 L y \<Longrightarrow> x = y"
  shows "fingerprint L (t\<lparr>tx_base_amount := a\<rparr>) \<noteq> fingerprint L (t\<lparr>tx_base_amount := b\<rparr>)"
proof
  assume "fingerprint L (t\<lparr>tx_base_amount := a\<rparr>) = fingerprint L (t\<lparr>tx_base_amount := b\<rparr>)"
  then have enc: "fingerprint_encoding L (t\<lparr>tx_base_amount := a\<rparr>)
      = fingerprint_encoding L (t\<lparr>tx_base_amount := b\<rparr>)"
    using assms(6) by (simp add: fingerprint_def hex_encode_inject)
  have "list_all plain_char (dec_string L d)" for d
    using decimal_ok_string_chars [OF assms(1), of d]
    by (auto simp: list_all_iff num_char_def plain_char_def)
  moreover have "list_all plain_char k" if "k \<in> set codes" for k
    using codes_shape that by (auto simp: list_all_iff plain_char_def)
  ultimately have "amount_equal L a b"
    using fingerprint_encoding_money [OF assms(2) _ _ _ _ enc] assms(3,4)
    by (simp add: amount_equal_def decimal_ok_equal [OF assms(1)] decimal_ok_string [OF assms(1)])
  with assms(5) show False by simp
qed

theorem changed_money_changes_fingerprint_witness:
  "fingerprint ref_lib (demo_tx\<lparr>tx_base_amount := tx_base_amount demo_retry\<rparr>)
    \<noteq> fingerprint ref_lib (demo_tx\<lparr>tx_base_amount :=
        \<lparr>amt_value = (1251, 2), amt_currency = amt_currency (tx_base_amount demo_tx),
         amt_as_received = ''12.51''\<rparr>\<rparr>)"
proof -
  let ?b = "\<lparr>amt_value = (1251, 2), amt_currency = amt_currency (tx_base_amount demo_tx),
    amt_as_received = ''12.51''\<rparr>"
  have "time_json_ok (time_utc (tx_occurred_at demo_tx))"
    and "cur_code (amt_currency (tx_base_amount demo_retry)) \<in> set codes"
    and "cur_code (amt_currency ?b) \<in> set codes"
    and "\<not> amount_equal ref_lib (tx_base_amount demo_retry) ?b" by code_simp+
  from changed_money_changes_fingerprint [OF ref_lib_ok this] show ?thesis
    by (simp add: ref_lib_def)
qed

text \<open>Where the time in UTC has no four-digit year, the fingerprint is the digest of no bytes
  at all, the same for every such transaction. The rules do accept such times: there are two
  accepted transactions under one key that differ in their amounts and not in their
  fingerprints.\<close>

theorem unwritable_year_fingerprint:
  "(time_json_ok (time_utc (tx_occurred_at t)) \<or> fingerprint L t = hex_encode (sha256 L []))
    \<and> (\<exists>s1 s2 t1 t2. accept ref_lib demo_runtime demo_rules s1 6 = (Accepted t1, 7)
        \<and> accept ref_lib demo_runtime demo_rules s2 6 = (Accepted t2, 7)
        \<and> key_of t1 = key_of t2 \<and> \<not> amount_equal ref_lib (tx_base_amount t1) (tx_base_amount t2)
        \<and> fingerprint ref_lib t1 = fingerprint ref_lib t2)"
proof -
  let ?early = "\<lparr>t_ns = - 366 * day_ns - 3600000000000, t_off = 3600\<rparr>"
  let ?s1 = "demo_submission\<lparr>sub_occurred_at := ?early\<rparr>"
  let ?s2 = "?s1\<lparr>sub_base_amount := ''99.00''\<rparr>"
  let ?t = "\<lambda>s. accepted_tx ref_lib demo_rules demo_now s 7"
  have now: "rules_now demo_runtime demo_rules 6 = (demo_now, 6)"
    and id: "rules_new_id demo_runtime demo_rules 6 = (Inr 7, 7)"
    and fine: "rule_problems ref_lib demo_rules demo_now ?s1 = []"
      "rule_problems ref_lib demo_rules demo_now ?s2 = []"
    and late: "\<not> time_json_ok (time_utc (tx_occurred_at (?t ?s1)))"
      "\<not> time_json_ok (time_utc (tx_occurred_at (?t ?s2)))"
    and key: "key_of (?t ?s1) = key_of (?t ?s2)"
    and diff: "\<not> amount_equal ref_lib (tx_base_amount (?t ?s1)) (tx_base_amount (?t ?s2))"
    by code_simp+
  have "accept ref_lib demo_runtime demo_rules ?s1 6 = (Accepted (?t ?s1), 7)"
    "accept ref_lib demo_runtime demo_rules ?s2 6 = (Accepted (?t ?s2), 7)"
    using now id fine by (simp_all add: accept_eq)
  moreover have "fingerprint ref_lib (?t ?s1) = fingerprint ref_lib (?t ?s2)"
    using late by (simp add: fingerprint_def fingerprint_encoding_def)
  moreover have "time_json_ok (time_utc (tx_occurred_at t))
      \<or> fingerprint L t = hex_encode (sha256 L [])"
    by (simp add: fingerprint_def fingerprint_encoding_def)
  ultimately show ?thesis using key diff by blast
qed

end
