(* ===== verification/Store.thy ===== *)
theory Store
  imports Fingerprint
begin

text \<open>
  \<open>internal/transaction/store.go\<close>: the contract of \<open>Store.Ingest\<close> as a locale. A store is a
  state with two observations, the transaction found under a key and the fingerprint kept with
  it; \<open>view\<close> is what the store's representation keeps of a transaction (all of it in memory,
  times to the microsecond in the database). An ingest that reports an error may still have
  recorded its transaction, as a commit whose acknowledgement is lost has. The laws are for the
  transactions the store \<open>admits\<close>, the well-formed ones. The ingest handler
  needs no more than these laws, and its guarantees are proved here once.
\<close>

locale transaction_store =
  fixes ingest :: "'s \<Rightarrow> 'd transaction \<Rightarrow> (string + 'd ingest_outcome) \<times> 's"
    and found :: "'s \<Rightarrow> key \<Rightarrow> 'd transaction option"
    and kept_fingerprint :: "'s \<Rightarrow> key \<Rightarrow> string option"
    and valid :: "'s \<Rightarrow> bool"
    and admits :: "'d transaction \<Rightarrow> bool"
    and print_of :: "'d transaction \<Rightarrow> string"
    and view :: "'d transaction \<Rightarrow> 'd transaction"
  assumes ingest_valid: "valid s \<Longrightarrow> admits t \<Longrightarrow> ingest s t = (r, s') \<Longrightarrow> valid s'"
    and ingest_new: "valid s \<Longrightarrow> admits t \<Longrightarrow> found s (key_of t) = None \<Longrightarrow> ingest s t = (Inr out, s') \<Longrightarrow>
      out = \<lparr>out_transaction = t, out_duplicate = False, out_divergent = False\<rparr>
      \<and> found s' = (found s)(key_of t \<mapsto> view t)
      \<and> kept_fingerprint s' = (kept_fingerprint s)(key_of t \<mapsto> print_of t)"
    and ingest_known: "valid s \<Longrightarrow> admits t \<Longrightarrow> found s (key_of t) = Some u \<Longrightarrow> ingest s t = (Inr out, s') \<Longrightarrow>
      out = \<lparr>out_transaction = u, out_duplicate = True,
        out_divergent = (kept_fingerprint s (key_of t) \<noteq> Some (print_of t))\<rparr>
      \<and> found s' = found s \<and> kept_fingerprint s' = kept_fingerprint s"
    and ingest_error: "valid s \<Longrightarrow> admits t \<Longrightarrow> ingest s t = (Inl e, s') \<Longrightarrow>
      found s' = found s \<and> kept_fingerprint s' = kept_fingerprint s
      \<or> found s (key_of t) = None \<and> found s' = (found s)(key_of t \<mapsto> view t)
        \<and> kept_fingerprint s' = (kept_fingerprint s)(key_of t \<mapsto> print_of t)"
begin

text \<open>Pushes served one after the other, each with what it was answered.\<close>

fun serve :: "'s \<Rightarrow> 'd transaction list \<Rightarrow> (string + 'd ingest_outcome) list \<times> 's" where
  "serve s [] = ([], s)"
| "serve s (t # ts) =
    (let (r, s1) = ingest s t; (rs, s2) = serve s1 ts in (r # rs, s2))"

lemma serve_Cons:
  "ingest s t = (r, s1) \<Longrightarrow> serve s1 ts = (rs, s2) \<Longrightarrow> serve s (t # ts) = (r # rs, s2)"
  by simp

lemma serve_ConsE:
  assumes "serve s (t # ts) = (rs, s')"
  obtains r s1 qs where "ingest s t = (r, s1)" and "serve s1 ts = (qs, s')" and "rs = r # qs"
  using assms by (auto split: prod.splits)

lemma ingest_effect:
  assumes "valid s" and "admits t" and "ingest s t = (r, s')"
  shows "found s' = found s \<and> kept_fingerprint s' = kept_fingerprint s
    \<or> found s (key_of t) = None \<and> found s' = (found s)(key_of t \<mapsto> view t)
      \<and> kept_fingerprint s' = (kept_fingerprint s)(key_of t \<mapsto> print_of t)"
proof (cases r)
  case (Inl e)
  then show ?thesis using ingest_error [OF assms(1,2), of e s'] assms(3) by simp
next
  case (Inr out)
  then have ok: "ingest s t = (Inr out, s')" using assms(3) by simp
  show ?thesis
  proof (cases "found s (key_of t)")
    case None
    then show ?thesis using ingest_new [OF assms(1,2) None ok] by simp
  next
    case (Some u)
    then show ?thesis using ingest_known [OF assms(1,2) Some ok] by simp
  qed
qed

lemma ingest_monotone:
  assumes "valid s" and "admits t" and "ingest s t = (r, s')"
  shows "found s \<subseteq>\<^sub>m found s'"
    and "kept_fingerprint s k = Some f \<Longrightarrow> found s k \<noteq> None \<Longrightarrow> kept_fingerprint s' k = Some f"
  using ingest_effect [OF assms] by (auto simp: map_le_def dom_def)

lemma serve_valid:
  "valid s \<Longrightarrow> list_all admits ts \<Longrightarrow> serve s ts = (rs, s') \<Longrightarrow> valid s'"
proof (induction ts arbitrary: s rs)
  case (Cons t ts)
  obtain r s1 qs where step: "ingest s t = (r, s1)" and rest: "serve s1 ts = (qs, s')"
      and rs: "rs = r # qs"
    by (rule serve_ConsE [OF Cons.prems(3)])
  have "valid s1" by (rule ingest_valid [OF Cons.prems(1) _ step]) (use Cons.prems(2) in simp)
  with Cons.IH [OF _ _ rest] Cons.prems(2) show ?case by simp
qed simp

lemma serve_monotone:
  "valid s \<Longrightarrow> list_all admits ts \<Longrightarrow> serve s ts = (rs, s') \<Longrightarrow> found s \<subseteq>\<^sub>m found s'"
proof (induction ts arbitrary: s rs)
  case (Cons t ts)
  obtain r s1 qs where step: "ingest s t = (r, s1)" and rest: "serve s1 ts = (qs, s')"
      and rs: "rs = r # qs"
    by (rule serve_ConsE [OF Cons.prems(3)])
  have t: "admits t" and ts: "list_all admits ts" using Cons.prems(2) by simp_all
  show ?case
    using ingest_monotone(1) [OF Cons.prems(1) t step]
      Cons.IH [OF ingest_valid [OF Cons.prems(1) t step] ts rest] by (rule map_le_trans)
qed simp

lemma serve_fingerprint:
  "valid s \<Longrightarrow> list_all admits ts \<Longrightarrow> serve s ts = (rs, s') \<Longrightarrow> kept_fingerprint s k = Some f \<Longrightarrow>
    found s k \<noteq> None \<Longrightarrow> kept_fingerprint s' k = Some f"
proof (induction ts arbitrary: s rs)
  case (Cons t ts)
  obtain r s1 qs where step: "ingest s t = (r, s1)" and rest: "serve s1 ts = (qs, s')"
      and rs: "rs = r # qs"
    by (rule serve_ConsE [OF Cons.prems(3)])
  have t: "admits t" and ts: "list_all admits ts" using Cons.prems(2) by simp_all
  have "found s1 k \<noteq> None"
    using ingest_monotone(1) [OF Cons.prems(1) t step] Cons.prems(5) by (auto simp: map_le_def dom_def)
  then show ?case
    using Cons.IH [OF ingest_valid [OF Cons.prems(1) t step] ts rest]
      ingest_monotone(2) [OF Cons.prems(1) t step] Cons.prems(4,5) by blast
qed simp

text \<open>An acknowledged transaction stays found, as the store keeps it, whatever comes after.\<close>

lemma acknowledged_kept:
  assumes "valid s" and "admits t" and "ingest s t = (Inr out, s1)" and "\<not> out_duplicate out"
    and "list_all admits ts" and "serve s1 ts = (rs, s')"
  shows "found s' (key_of t) = Some (view t)"
    and "kept_fingerprint s' (key_of t) = Some (print_of t)"
proof -
  have new: "found s (key_of t) = None"
    using ingest_known [OF assms(1,2) _ assms(3)] assms(4) by (cases "found s (key_of t)") auto
  note stored = ingest_new [OF assms(1,2) new assms(3)]
  note valid1 = ingest_valid [OF assms(1-3)]
  show "found s' (key_of t) = Some (view t)"
    using serve_monotone [OF valid1 assms(5,6)] stored by (auto simp: map_le_def dom_def)
  show "kept_fingerprint s' (key_of t) = Some (print_of t)"
    using serve_fingerprint [OF valid1 assms(5,6)] stored by simp
qed

text \<open>
  A replay of an acknowledged push is a duplicate that carries the first record, and it is
  flagged exactly when its fingerprint is another.
\<close>

lemma replay_answer:
  assumes "valid s" and "admits t" and "ingest s t = (Inr out, s1)" and "\<not> out_duplicate out"
    and "list_all admits ts" and "serve s1 ts = (rs, s2)"
    and "admits u" and "key_of u = key_of t" and "ingest s2 u = (Inr out', s')"
  shows "out' = \<lparr>out_transaction = view t, out_duplicate = True,
    out_divergent = (print_of u \<noteq> print_of t)\<rparr>" and "found s' = found s2"
proof -
  have valid2: "valid s2" using serve_valid [OF ingest_valid [OF assms(1-3)] assms(5,6)] .
  have known: "found s2 (key_of u) = Some (view t)"
    and "kept_fingerprint s2 (key_of u) = Some (print_of t)"
    using acknowledged_kept [OF assms(1-6)] assms(8) by simp_all
  then show "out' = \<lparr>out_transaction = view t, out_duplicate = True,
      out_divergent = (print_of u \<noteq> print_of t)\<rparr>" and "found s' = found s2"
    using ingest_known [OF valid2 assms(7) known assms(9)] by auto
qed

text \<open>However often a key is pushed, at most one push of it is answered as new.\<close>

definition new_pushes :: "key \<Rightarrow> 'd transaction list \<Rightarrow> (string + 'd ingest_outcome) list \<Rightarrow> nat" where
  "new_pushes k ts rs =
    length (filter (\<lambda>(t, r). key_of t = k \<and> (\<exists>out. r = Inr out \<and> \<not> out_duplicate out)) (zip ts rs))"

lemma serve_known_none_new:
  "valid s \<Longrightarrow> list_all admits ts \<Longrightarrow> serve s ts = (rs, s') \<Longrightarrow> found s k \<noteq> None \<Longrightarrow>
    new_pushes k ts rs = 0"
proof (induction ts arbitrary: s rs)
  case (Cons t ts)
  obtain r s1 qs where step: "ingest s t = (r, s1)" and rest: "serve s1 ts = (qs, s')"
      and rs: "rs = r # qs"
    by (rule serve_ConsE [OF Cons.prems(3)])
  have t: "admits t" and ts: "list_all admits ts" using Cons.prems(2) by simp_all
  have "found s1 k \<noteq> None"
    using ingest_monotone(1) [OF Cons.prems(1) t step] Cons.prems(4) by (auto simp: map_le_def dom_def)
  then have "new_pushes k ts qs = 0"
    using Cons.IH [OF ingest_valid [OF Cons.prems(1) t step] ts rest] by simp
  moreover have "out_duplicate out" if "key_of t = k" "r = Inr out" for out
    using that ingest_known [OF Cons.prems(1) t] step Cons.prems(4) by fastforce
  ultimately show ?case by (auto simp: new_pushes_def rs)
qed (simp add: new_pushes_def)

lemma one_new_push:
  "valid s \<Longrightarrow> list_all admits ts \<Longrightarrow> serve s ts = (rs, s') \<Longrightarrow> new_pushes k ts rs \<le> 1"
proof (induction ts arbitrary: s rs)
  case (Cons t ts)
  obtain r s1 qs where step: "ingest s t = (r, s1)" and rest: "serve s1 ts = (qs, s')"
      and rs: "rs = r # qs"
    by (rule serve_ConsE [OF Cons.prems(3)])
  have t: "admits t" and ts: "list_all admits ts" using Cons.prems(2) by simp_all
  note valid1 = ingest_valid [OF Cons.prems(1) t step]
  show ?case
  proof (cases "key_of t = k \<and> (\<exists>out. r = Inr out \<and> \<not> out_duplicate out)")
    case True
    then obtain out where "r = Inr out" "\<not> out_duplicate out" "key_of t = k" by blast
    then have "found s1 k \<noteq> None"
      using acknowledged_kept(1) [OF Cons.prems(1) t, of out s1 "[]"] step by simp
    then have "new_pushes k ts qs = 0" using serve_known_none_new [OF valid1 ts rest] by blast
    then show ?thesis using True by (simp add: new_pushes_def rs)
  next
    case False
    then have "new_pushes k (t # ts) rs = new_pushes k ts qs" by (auto simp: new_pushes_def rs)
    then show ?thesis using Cons.IH [OF valid1 ts rest] by simp
  qed
qed (simp add: new_pushes_def)

end

end
