(* ===== verification/Ingest_Handler.thy ===== *)
theory Ingest_Handler
  imports Api_Error Store
begin

text \<open>
  \<open>internal/httpapi/mapping.go\<close> and \<open>ingest.go\<close>, with the request and result types of the
  generated \<open>gen/api.gen.go\<close>: the handler of \<open>POST /ingest/v1/transactions\<close>, over any store.
  How the body is decoded is a field of the server, which \<open>Request_Decode\<close> fills in; the Prometheus
  check of label values and the clock that measures the handling time are parameters.
\<close>

section \<open>The wire types and the domain\<close>

record plate_ref =
  prf_jurisdiction :: string
  prf_number :: string

record ingest_request =
  ir_base_amount :: string
  ir_currency :: "string option"
  ir_location :: "json_obj option"
  ir_metadata :: "json_obj option"
  ir_plate :: "plate_ref option"
  ir_source :: string
  ir_source_reference :: string
  ir_transaction_time_utc :: gotime
  ir_transaction_type :: string
  ir_transponder_number :: "string option"

definition to_submission :: "ingest_request \<Rightarrow> submission" where
  "to_submission req =
    \<lparr>sub_source = ir_source req, sub_source_reference = ir_source_reference req,
     sub_type = ir_transaction_type req, sub_occurred_at = ir_transaction_time_utc req,
     sub_plate =
       (case ir_plate req of
          Some p \<Rightarrow> Some \<lparr>pr_number = prf_number p, pr_jurisdiction = prf_jurisdiction p\<rparr>
        | None \<Rightarrow> None),
     sub_transponder = (case ir_transponder_number req of Some t \<Rightarrow> t | None \<Rightarrow> []),
     sub_base_amount = ir_base_amount req,
     sub_currency = (case ir_currency req of Some c \<Rightarrow> c | None \<Rightarrow> []),
     sub_location = ir_location req, sub_metadata = ir_metadata req\<rparr>"

record ingest_result =
  is_association_status :: string
  is_duplicate :: bool
  is_id :: string
  is_settlement_status :: string

definition to_result :: "('d, 'a) lib_scheme \<Rightarrow> 'd ingest_outcome \<Rightarrow> ingest_result" where
  "to_result L out =
    (let tx = out_transaction out in
     \<lparr>is_association_status = association_text (tx_association tx),
      is_duplicate = out_duplicate out, is_id = uuid_string L (tx_id tx),
      is_settlement_status = settlement_text (tx_settlement tx)\<rparr>)"

definition ingest_result_json :: "ingest_result \<Rightarrow> string" where
  "ingest_result_json res =
    json_members
      [(''association_status'', json_string (is_association_status res)),
       (''duplicate'', if is_duplicate res then ''true'' else ''false''),
       (''id'', json_string (is_id res)),
       (''settlement_status'', json_string (is_settlement_status res))]"

definition to_field_errors :: "rule_error list \<Rightarrow> field_error list" where
  "to_field_errors problems =
    map (\<lambda>p. \<lparr>fe_field = re_field p, fe_reason = re_reason p\<rparr>) problems"

section \<open>The server\<close>

record ('e, 's, 'd) ingest_server =
  srv_runtime :: "'e runtime"
  srv_rules :: "'e rules"
  srv_store :: "'s \<Rightarrow> 'd transaction \<Rightarrow> (string + 'd ingest_outcome) \<times> 's"
  srv_accepts :: "string list \<Rightarrow> bool"
  srv_since :: "gotime \<Rightarrow> 'e \<Rightarrow> duration \<times> 'e"
  srv_decode :: "request \<Rightarrow> string + ingest_request"

text \<open>\<open>IngestResult\<close> with the time since the start, then the answer unless it panicked.\<close>

definition answer ::
  "('e, 's, 'd) ingest_server \<Rightarrow> string \<Rightarrow> string \<Rightarrow> gotime \<Rightarrow> writer_call list
    \<Rightarrow> ('e, 's) world \<Rightarrow> writer_call list \<times> panic option \<times> ('e, 's) world" where
  "answer srv source result started calls w =
    (let (took, e) = srv_since srv started (wd_env w);
         (p, w1) = with_metrics (Metrics.ingest_result (srv_accepts srv) source result took)
                     (w\<lparr>wd_env := e\<rparr>)
     in case p of Some pn \<Rightarrow> ([], Some pn, w1) | None \<Rightarrow> (calls, None, w1))"

text \<open>One \<open>ValidationFailure\<close> for each field, up to the first that panics.\<close>

fun count_failures ::
  "(string list \<Rightarrow> bool) \<Rightarrow> string \<Rightarrow> string \<Rightarrow> field_error list
    \<Rightarrow> ('e, 's) world \<Rightarrow> panic option \<times> ('e, 's) world" where
  "count_failures accepts source layer [] w = (None, w)"
| "count_failures accepts source layer (f # fs) w =
    (case with_metrics (validation_failure accepts source layer (fe_field f)) w of
       (Some pn, w1) \<Rightarrow> (Some pn, w1)
     | (None, w1) \<Rightarrow> count_failures accepts source layer fs w1)"

text \<open>The stored fingerprint is computed again, from the transaction the store returned.\<close>

definition log_divergence ::
  "('d, 'a) lib_scheme \<Rightarrow> request \<Rightarrow> 'd transaction \<Rightarrow> 'd ingest_outcome
    \<Rightarrow> ('e, 's) world \<Rightarrow> ('e, 's) world" where
  "log_divergence L r submitted out =
    log_attrs Level_Warn ''duplicate transaction diverges from the stored record''
      [(''request_id'', request_id_from r), (''source'', tx_source submitted),
       (''source_reference'', tx_source_reference submitted),
       (''stored_id'', uuid_string L (tx_id (out_transaction out))),
       (''stored_fingerprint'', fingerprint L (out_transaction out)),
       (''submitted_fingerprint'', fingerprint L submitted),
       (''stored_amount'', amount_string L (tx_base_amount (out_transaction out))),
       (''submitted_amount'', amount_string L (tx_base_amount submitted))]"

text \<open>From the accepted transaction on: the store, the divergence, and the answer.\<close>

definition answer_outcome ::
  "('d, 'a) lib_scheme \<Rightarrow> ('e, 's, 'd) ingest_server \<Rightarrow> gotime \<Rightarrow> 'd transaction \<Rightarrow> 'd ingest_outcome
    \<Rightarrow> ('e, 's) world \<Rightarrow> writer_call list \<times> panic option \<times> ('e, 's) world" where
  "answer_outcome L srv started tx out =
    (if out_duplicate out
     then answer srv (tx_source tx) result_duplicate started
            (write_json 200 (ingest_result_json (to_result L out)))
     else answer srv (tx_source tx) result_created started
            (write_json 201 (ingest_result_json (to_result L out))))"

definition record_transaction ::
  "('d, 'a) lib_scheme \<Rightarrow> ('e, 's, 'd) ingest_server \<Rightarrow> request \<Rightarrow> gotime \<Rightarrow> 'd transaction
    \<Rightarrow> ('e, 's) world \<Rightarrow> writer_call list \<times> panic option \<times> ('e, 's) world" where
  "record_transaction L srv r started tx w =
    (case srv_store srv (wd_store w) tx of
       (Inl e, s) \<Rightarrow>
         answer srv (tx_source tx) result_error started
           (write_error 500 ''transaction could not be recorded'' [])
           (log_attrs Level_Error ''could not record transaction''
             [(''request_id'', request_id_from r), (''source'', tx_source tx),
              (''source_reference'', tx_source_reference tx), (''error'', e)]
             (w\<lparr>wd_store := s\<rparr>))
     | (Inr out, s) \<Rightarrow>
         (let w1 = w\<lparr>wd_store := s\<rparr> in
          if out_divergent out then
            (case with_metrics (divergent_replay (srv_accepts srv) (tx_source tx))
                    (log_divergence L r tx out w1) of
               (Some pn, w2) \<Rightarrow> ([], Some pn, w2)
             | (None, w2) \<Rightarrow> answer_outcome L srv started tx out w2)
          else answer_outcome L srv started tx out w1))"

definition ingest_transaction ::
  "('d, 'a) lib_scheme \<Rightarrow> ('e, 's, 'd) ingest_server \<Rightarrow> ('e, 's) world handler" where
  "ingest_transaction L srv r w0 =
    (let (started, e0) = sys_now (srv_runtime srv) (wd_env w0);
         w = w0\<lparr>wd_env := e0\<rparr>
     in case srv_decode srv r of
          Inl e \<Rightarrow>
            answer srv ''unknown'' result_rejected started
              (write_error 400 ''request body could not be read''
                [\<lparr>fe_field = ''body'', fe_reason = ''is not valid JSON''\<rparr>])
              (log_attrs Level_Warn ''body decoded by the validator but not by the handler''
                [(''request_id'', request_id_from r), (''error'', e)] w)
        | Inr body \<Rightarrow>
            (case accept L (srv_runtime srv) (srv_rules srv) (to_submission body) (wd_env w) of
               (Faulted e, e1) \<Rightarrow>
                 answer srv (ir_source body) result_error started
                   (write_error 500 ''transaction could not be processed'' [])
                   (log_attrs Level_Error ''could not build transaction''
                     [(''request_id'', request_id_from r), (''source'', ir_source body),
                      (''error'', e)] (w\<lparr>wd_env := e1\<rparr>))
             | (Rejected problems, e1) \<Rightarrow>
                 (let errs = to_field_errors problems in
                  case count_failures (srv_accepts srv) (ir_source body) ''semantic'' errs
                         (log_attrs Level_Info ''transaction rejected by validation rules''
                           [(''request_id'', request_id_from r), (''source'', ir_source body),
                            (''source_reference'', ir_source_reference body),
                            (''fields'', format_field_errors errs)] (w\<lparr>wd_env := e1\<rparr>)) of
                    (Some pn, w1) \<Rightarrow> ([], Some pn, w1)
                  | (None, w1) \<Rightarrow>
                      answer srv (ir_source body) result_rejected started
                        (write_error 400 ''transaction failed validation'' errs) w1)
             | (Accepted tx, e1) \<Rightarrow>
                 record_transaction L srv r started tx (w\<lparr>wd_env := e1\<rparr>)))"

lemmas handler_eval [model_defs] =
  to_submission_def to_result_def ingest_result_json_def to_field_errors_def answer_def
  log_divergence_def answer_outcome_def record_transaction_def ingest_transaction_def

section \<open>What the metrics refuse\<close>

text \<open>
  A source is labelled by a valid string, whatever is tracked, exactly when its first 64 bytes
  are valid UTF-8.
\<close>

definition source_label_valid :: "string \<Rightarrow> bool" where
  "source_label_valid source \<longleftrightarrow> utf8_valid (take 64 source)"

lemma label_valid:
  assumes "source_label_valid source"
  shows "utf8_valid (fst (label s source))"
  using assms
  by (auto simp: label_eq source_label_valid_def source_unknown_def source_overflow_def
      intro!: utf8_valid_ascii) (simp_all add: is_ascii_def code_def)

lemma results_valid [simp]:
  "utf8_valid result_created" "utf8_valid result_duplicate" "utf8_valid result_rejected"
  "utf8_valid result_error" "utf8_valid ''semantic''"
  by (simp_all add: result_created_def result_duplicate_def result_rejected_def result_error_def
      utf8_valid_ascii is_ascii_def code_def)

lemma ingest_result_returns:
  assumes "prometheus_ok accepts" and "source_label_valid source" and "utf8_valid result"
  shows "fst (Metrics.ingest_result accepts source result took m) = None"
  using assms label_valid [OF assms(2), of "m_sources m"]
  by (simp add: Metrics.ingest_result_def prometheus_ok_def case_prod_beta Let_def)

lemma with_metrics_returns:
  assumes "fst (f (wd_metrics w)) = None"
  shows "\<exists>w'. with_metrics f w = (None, w') \<and> wd_store w' = wd_store w"
  using assms by (simp add: with_metrics_def case_prod_beta)

section \<open>What the handler does to the store\<close>

lemma answer_store: "wd_store (snd (snd (answer srv source result started calls w))) = wd_store w"
  by (auto simp: answer_def with_metrics_def case_prod_beta Let_def split: option.splits)

lemma answer_returns:
  assumes "prometheus_ok (srv_accepts srv)" and "source_label_valid source" and "utf8_valid result"
  shows "\<exists>w'. answer srv source result started calls w = (calls, None, w') \<and> wd_store w' = wd_store w"
proof -
  obtain took e where since: "srv_since srv started (wd_env w) = (took, e)" by fastforce
  obtain w' where "with_metrics (Metrics.ingest_result (srv_accepts srv) source result took)
      (w\<lparr>wd_env := e\<rparr>) = (None, w')" "wd_store w' = wd_store (w\<lparr>wd_env := e\<rparr>)"
    using with_metrics_returns ingest_result_returns [OF assms] by blast
  then show ?thesis by (simp add: answer_def since)
qed

lemma answer_outcome_store:
  "wd_store (snd (snd (answer_outcome L srv started tx out w))) = wd_store w"
  by (simp add: answer_outcome_def answer_store)

lemma with_metrics_store: "wd_store (snd (with_metrics f w)) = wd_store w"
  by (simp add: with_metrics_def case_prod_beta)

lemma count_failures_store:
  "wd_store (snd (count_failures accepts source layer fs w)) = wd_store w"
proof (induction fs arbitrary: w)
  case (Cons f fs)
  then show ?case
    using with_metrics_store [of "validation_failure accepts source layer (fe_field f)" w]
    by (auto split: prod.splits option.splits)
qed simp

lemma record_transaction_store:
  "wd_store (snd (snd (record_transaction L srv r started tx w))) = snd (srv_store srv (wd_store w) tx)"
proof (cases "srv_store srv (wd_store w) tx")
  case (Pair res s)
  show ?thesis
  proof (cases res)
    case (Inl e)
    then show ?thesis using Pair by (simp add: record_transaction_def answer_store)
  next
    case (Inr out)
    have "wd_store (snd (with_metrics f (log_divergence L r tx out (w\<lparr>wd_store := s\<rparr>)))) = s" for f
      by (simp add: with_metrics_store log_divergence_def)
    then show ?thesis
      using Pair Inr
      by (auto simp: record_transaction_def answer_outcome_store Let_def split: prod.splits option.splits)
         (metis snd_conv answer_outcome_store)+
  qed
qed

text \<open>A request the rules accept, and with which transaction.\<close>

definition accepted_request ::
  "('d, 'a) lib_scheme \<Rightarrow> ('e, 's, 'd) ingest_server \<Rightarrow> request \<Rightarrow> 'e \<Rightarrow> 'd transaction option" where
  "accepted_request L srv r e =
    (case srv_decode srv r of
       Inl _ \<Rightarrow> None
     | Inr body \<Rightarrow>
         (case fst (accept L (srv_runtime srv) (srv_rules srv) (to_submission body)
                  (snd (sys_now (srv_runtime srv) e))) of
            Accepted tx \<Rightarrow> Some tx | _ \<Rightarrow> None))"

lemma ingest_transaction_store:
  "wd_store (snd (snd (ingest_transaction L srv r w))) =
    (case accepted_request L srv r (wd_env w) of
       Some tx \<Rightarrow> snd (srv_store srv (wd_store w) tx)
     | None \<Rightarrow> wd_store w)"
proof (cases "srv_decode srv r")
  case (Inl e)
  then show ?thesis
    by (simp add: ingest_transaction_def accepted_request_def case_prod_beta Let_def answer_store)
next
  case (Inr body)
  obtain started e0 where now: "sys_now (srv_runtime srv) (wd_env w) = (started, e0)" by fastforce
  obtain a e1 where acc: "accept L (srv_runtime srv) (srv_rules srv) (to_submission body) e0 = (a, e1)"
    by fastforce
  show ?thesis
  proof (cases a)
    case (Accepted tx)
    then show ?thesis
      using Inr now acc
      by (simp add: ingest_transaction_def accepted_request_def record_transaction_store)
  next
    case (Rejected ps)
    have "wd_store (snd (count_failures A src l es (log_attrs lv m ats (w\<lparr>wd_env := e1\<rparr>))))
        = wd_store w" for A src l es lv m ats
      by (simp add: count_failures_store)
    then show ?thesis
      using Inr now acc Rejected
      by (auto simp: ingest_transaction_def accepted_request_def Let_def answer_store
          split: prod.splits option.splits) (metis snd_conv)+
  next
    case (Faulted e)
    then show ?thesis
      using Inr now acc by (simp add: ingest_transaction_def accepted_request_def answer_store)
  qed
qed

lemma accepted_request_tx_ok: "accepted_request L srv r e = Some tx \<Longrightarrow> tx_ok L tx"
  by (auto simp: accepted_request_def split: sum.splits acceptance.splits)
     (metis accepted_tx_ok accept_Accepted prod.collapse)

end
