(* ===== verification/Validation.thy ===== *)
theory Validation
  imports Ingest_Handler
begin

text \<open>
  \<open>internal/httpapi/validation.go\<close>: the contract validator in front of the handler. Whether a
  request satisfies the contract is the library's, a parameter: nothing, or the tree of errors
  with the status the library proposes. The validator reads the body, so it is the first to meet
  one that exceeds its limit; that it reports the reader's error then is the hypothesis
  \<open>validator_reads\<close>.
\<close>

record validator =
  vd_check :: "request \<Rightarrow> (spec_err \<times> int) option"
  vd_error_text :: "spec_err \<Rightarrow> string"

definition validator_reads :: "validator \<Rightarrow> bool" where
  "validator_reads V \<longleftrightarrow>
    (\<forall>r n. read_body r = Inl n \<longrightarrow> (\<exists>e st. vd_check V r = Some (e, st) \<and> as_max_bytes e = Some n))"

definition contract_error ::
  "validator \<Rightarrow> (string list \<Rightarrow> bool) \<Rightarrow> spec_err \<Rightarrow> int \<Rightarrow> ('e, 's) world handler" where
  "contract_error V accepts err status0 r w =
    (case as_max_bytes err of
       Some limit \<Rightarrow>
         (write_error 413 ''request body is too large''
            [\<lparr>fe_field = ''body'',
              fe_reason = ''must not exceed '' @ show_int limit @ '' bytes''\<rparr>],
          None,
          log_attrs Level_Warn ''request body exceeded the limit''
            [(''request_id'', request_id_from r), (''limit_bytes'', show_int limit)] w)
     | None \<Rightarrow>
         (let status = (if status0 = 0 then 400 else status0);
              errs = field_errors_from_spec_validation (vd_error_text V) (Some err);
              w1 = log_attrs Level_Info ''request rejected by contract validation''
                [(''request_id'', request_id_from r), (''path'', rq_path r),
                 (''status'', show_int status), (''fields'', format_field_errors errs)] w
          in case count_failures accepts ''unknown'' ''contract'' errs w1 of
               (Some pn, w2) \<Rightarrow> ([], Some pn, w2)
             | (None, w2) \<Rightarrow>
                 (write_error status ''request does not satisfy the API contract'' errs, None, w2)))"

definition spec_validator ::
  "validator \<Rightarrow> (string list \<Rightarrow> bool) \<Rightarrow> ('e, 's) world handler \<Rightarrow> ('e, 's) world handler" where
  "spec_validator V accepts next r w =
    (case vd_check V r of
       None \<Rightarrow> next r w
     | Some (err, status) \<Rightarrow> contract_error V accepts err status r w)"

text \<open>The generated wrapper: each middleware of the operation around the handler.\<close>

definition wrapped_operation ::
  "('w handler \<Rightarrow> 'w handler) list \<Rightarrow> 'w handler \<Rightarrow> 'w handler" where
  "wrapped_operation mws h = fold (\<lambda>m h. m h) mws h"

lemmas validation_eval [model_defs] =
  contract_error_def spec_validator_def wrapped_operation_def

lemma contract_error_store:
  "wd_store (snd (snd (contract_error V accepts err status0 r w))) = wd_store w"
proof -
  have "wd_store (snd (count_failures accepts src l es (log_attrs lv m ats w))) = wd_store w"
    for src l es lv m ats by (simp add: count_failures_store)
  then show ?thesis
    by (auto simp: contract_error_def Let_def split: option.splits prod.splits) (metis snd_conv)+
qed

lemma spec_validator_too_large:
  assumes "validator_reads V" and "read_body r = Inl n"
  shows "spec_validator V accepts next r w =
    (write_error 413 ''request body is too large''
       [\<lparr>fe_field = ''body'', fe_reason = ''must not exceed '' @ show_int n @ '' bytes''\<rparr>],
     None,
     log_attrs Level_Warn ''request body exceeded the limit''
       [(''request_id'', request_id_from r), (''limit_bytes'', show_int n)] w)"
proof -
  obtain e st where "vd_check V r = Some (e, st)" "as_max_bytes e = Some n"
    using assms unfolding validator_reads_def by blast
  then show ?thesis by (simp add: spec_validator_def contract_error_def)
qed

end
