(* ===== verification/Health.thy ===== *)
theory Health
  imports Http
begin

text \<open>
  \<open>internal/platform/health/health.go\<close> and the probes of \<open>internal/httpapi/health.go\<close>. A check
  is what a dependency answers within a time limit, an error text or nothing, with the time it
  took. The checks of one evaluation run at the same time and each merges its result into the
  report under a mutex, so an evaluation is a sequence of merges in the order the checks end.
\<close>

datatype status = Status_Up | Status_Down

fun status_text :: "status \<Rightarrow> string" where
  "status_text Status_Up = ''up''"
| "status_text Status_Down = ''down''"

type_synonym check = "duration \<Rightarrow> string option \<times> duration"

record check_result =
  cr_status :: status
  cr_reason :: string
  cr_latency :: string
  cr_detail :: string

definition reason_unavailable :: string where
  "reason_unavailable = ''unavailable''"

record report =
  rp_status :: status
  rp_checks :: "(string, check_result) gomap"

record checker =
  ck_checks :: "(string, check) gomap"
  ck_timeout :: duration

definition new_checker :: "duration \<Rightarrow> checker" where
  "new_checker timeout = \<lparr>ck_checks = [], ck_timeout = timeout\<rparr>"

definition register :: "string \<Rightarrow> check \<Rightarrow> checker \<Rightarrow> checker" where
  "register name c ck = ck\<lparr>ck_checks := gm_set name c (ck_checks ck)\<rparr>"

section \<open>Readiness\<close>

definition run_check :: "duration \<Rightarrow> check \<Rightarrow> check_result" where
  "run_check timeout c =
    (case c timeout of
       (None, took) \<Rightarrow>
         \<lparr>cr_status = Status_Up, cr_reason = [], cr_latency = dur_string took, cr_detail = []\<rparr>
     | (Some e, took) \<Rightarrow>
         \<lparr>cr_status = Status_Down, cr_reason = reason_unavailable, cr_latency = dur_string took,
          cr_detail = e\<rparr>)"

text \<open>What one goroutine does under the mutex.\<close>

definition merge_check :: "duration \<Rightarrow> string \<times> check \<Rightarrow> report \<Rightarrow> report" where
  "merge_check timeout nc rp =
    (let result = run_check timeout (snd nc);
         rp1 = rp\<lparr>rp_checks := gm_set (fst nc) result (rp_checks rp)\<rparr>
     in if fst (snd nc timeout) \<noteq> None then rp1\<lparr>rp_status := Status_Down\<rparr> else rp1)"

text \<open>An evaluation, for an order in which the checks end.\<close>

definition ready_in :: "checker \<Rightarrow> (string \<times> check) list \<Rightarrow> report" where
  "ready_in ck order =
    fold (merge_check (ck_timeout ck)) order \<lparr>rp_status = Status_Up, rp_checks = []\<rparr>"

definition ready :: "checker \<Rightarrow> report" where
  "ready ck = ready_in ck (ck_checks ck)"

section \<open>The probes\<close>

definition handle_live :: "('e, 's) world handler" where
  "handle_live r w =
    (write_json 200 (json_members [(''status'', json_string (status_text Status_Up))]), None, w)"

text \<open>The detail of a result is not part of its document.\<close>

definition check_result_json :: "check_result \<Rightarrow> string" where
  "check_result_json c =
    json_members
      ([(''status'', json_string (status_text (cr_status c)))]
       @ (if cr_reason c = [] then [] else [(''reason'', json_string (cr_reason c))])
       @ [(''latency'', json_string (cr_latency c))])"

definition report_json :: "report \<Rightarrow> string" where
  "report_json rp =
    json_members
      [(''status'', json_string (status_text (rp_status rp))),
       (''checks'', json_members
          (sort_key fst (map (\<lambda>(n, c). (n, check_result_json c)) (rp_checks rp))))]"

definition log_failed_check :: "string \<times> check_result \<Rightarrow> ('e, 's) world \<Rightarrow> ('e, 's) world" where
  "log_failed_check nc w =
    (if cr_status (snd nc) = Status_Up then w
     else log_attrs Level_Warn ''readiness check failed''
       [(''check'', fst nc), (''error'', cr_detail (snd nc))] w)"

definition handle_ready :: "checker \<Rightarrow> ('e, 's) world handler" where
  "handle_ready ck r w =
    (let rp = ready ck in
     if rp_status rp \<noteq> Status_Up
     then (write_json 503 (report_json rp), None, fold log_failed_check (rp_checks rp) w)
     else (write_json 200 (report_json rp), None, w))"

lemmas health_eval [model_defs] =
  reason_unavailable_def new_checker_def register_def run_check_def merge_check_def ready_in_def
  ready_def handle_live_def check_result_json_def report_json_def log_failed_check_def
  handle_ready_def

section \<open>The report of an evaluation\<close>

definition checker_ok :: "checker \<Rightarrow> bool" where
  "checker_ok ck \<longleftrightarrow> gm_wf (ck_checks ck)"

lemma checker_ok_new: "checker_ok (new_checker timeout)"
  by (simp add: checker_ok_def new_checker_def)

lemma checker_ok_register: "checker_ok ck \<Longrightarrow> checker_ok (register name c ck)"
  by (simp add: checker_ok_def register_def)

definition fails :: "checker \<Rightarrow> check \<Rightarrow> bool" where
  "fails ck c \<longleftrightarrow> fst (c (ck_timeout ck)) \<noteq> None"

lemma merge_status:
  "rp_status (fold (merge_check t) order rp) =
    (if \<exists>(n, c) \<in> set order. fst (c t) \<noteq> None then Status_Down else rp_status rp)"
  by (induction order arbitrary: rp) (auto simp: merge_check_def Let_def)

definition run_all :: "duration \<Rightarrow> (string \<times> check) list \<Rightarrow> (string \<times> check_result) list" where
  "run_all t cs = map (\<lambda>(n, c). (n, run_check t c)) cs"

lemma merge_checks:
  "map_of (rp_checks (fold (merge_check t) order rp)) k =
    (case map_of (rev (run_all t order)) k of Some v \<Rightarrow> Some v | None \<Rightarrow> map_of (rp_checks rp) k)"
proof (induction order arbitrary: rp)
  case Nil
  show ?case by (simp add: run_all_def)
next
  case (Cons x order)
  obtain n c where x: "x = (n, c)" by (cases x)
  have split: "map_of (rev (run_all t (x # order))) k =
      (case map_of (rev (run_all t order)) k of
         Some v \<Rightarrow> Some v | None \<Rightarrow> if k = n then Some (run_check t c) else None)"
    by (simp add: run_all_def x map_add_def split: option.split)
  have "map_of (rp_checks (merge_check t x rp)) k =
      (if k = n then Some (run_check t c) else map_of (rp_checks rp) k)"
    by (simp add: x merge_check_def Let_def)
  then show ?case
    unfolding split using Cons.IH [of "merge_check t x rp"]
    by (cases "k = n") (auto split: option.split)
qed

lemma distinct_map_of_eq:
  assumes "distinct (map fst xs)" and "mset xs = mset ys"
  shows "map_of xs = map_of ys"
proof -
  have "distinct (map fst ys)"
    using assms mset_eq_imp_distinct_iff [of "map fst xs" "map fst ys"] by simp
  then show ?thesis using map_of_inject_set [OF assms(1)] mset_eq_setD [OF assms(2)] by simp
qed

lemma run_all_keys: "map fst (run_all t cs) = map fst cs"
  by (simp add: run_all_def comp_def case_prod_beta)

lemma map_of_run_all: "map_of (run_all t cs) k = map_option (run_check t) (map_of cs k)"
  by (simp add: run_all_def map_of_map)

lemma ready_in_report:
  assumes "checker_ok ck" and "mset order = mset (ck_checks ck)"
  shows "rp_status (ready_in ck order) =
      (if \<exists>(n, c) \<in> set (ck_checks ck). fails ck c then Status_Down else Status_Up)"
    and "map_of (rp_checks (ready_in ck order)) k
      = map_option (run_check (ck_timeout ck)) (map_of (ck_checks ck) k)"
proof -
  let ?t = "ck_timeout ck"
  show "rp_status (ready_in ck order) =
      (if \<exists>(n, c) \<in> set (ck_checks ck). fails ck c then Status_Down else Status_Up)"
    using mset_eq_setD [OF assms(2)] by (simp add: ready_in_def merge_status fails_def)
  have "distinct (map fst (run_all ?t (ck_checks ck)))"
    using assms(1) by (simp add: run_all_keys checker_ok_def gm_wf_def)
  moreover have "mset (run_all ?t (ck_checks ck)) = mset (rev (run_all ?t order))"
    using assms(2) by (simp add: run_all_def)
  ultimately have "map_of (run_all ?t (ck_checks ck)) = map_of (rev (run_all ?t order))"
    by (rule distinct_map_of_eq)
  then have "map_of (rev (run_all ?t order)) k = map_option (run_check ?t) (map_of (ck_checks ck) k)"
    using map_of_run_all by metis
  then show "map_of (rp_checks (ready_in ck order)) k
      = map_option (run_check (ck_timeout ck)) (map_of (ck_checks ck) k)"
    by (simp add: ready_in_def merge_checks split: option.split)
qed

section \<open>Properties\<close>

text \<open>C34: Whatever order the checks of an evaluation end in, the report is the same: down exactly
  when a registered check fails within its limit, with one result for every registered check, its
  own.\<close>

theorem readiness_order_independent:
  assumes "checker_ok ck" and "mset order = mset (ck_checks ck)"
  shows "rp_status (ready_in ck order) =
      (if \<exists>(n, c) \<in> set (ck_checks ck). fails ck c then Status_Down else Status_Up)
    \<and> map_of (rp_checks (ready_in ck order)) name
      = map_option (run_check (ck_timeout ck)) (map_of (ck_checks ck) name)"
  using ready_in_report [OF assms] by simp

definition demo_checker :: checker where
  "demo_checker = register ''database'' (\<lambda>_. (Some ''dial tcp 10.0.0.7:5432'', 5))
    (register ''cache'' (\<lambda>_. (None, 7)) (new_checker 2000000000))"

theorem readiness_order_independent_witness:
  "rp_status (ready_in demo_checker (rev (ck_checks demo_checker))) = Status_Down"
proof -
  have "checker_ok demo_checker"
    unfolding demo_checker_def by (intro checker_ok_register checker_ok_new)
  moreover have "mset (rev (ck_checks demo_checker)) = mset (ck_checks demo_checker)" by simp
  ultimately show ?thesis
    using readiness_order_independent [of demo_checker "rev (ck_checks demo_checker)"]
    by (simp add: demo_checker_def register_def new_checker_def gm_set_def fails_def)
qed

text \<open>The readiness answer does not tell why a dependency failed: two deployments whose checks
  fail alike and take as long are answered with the same bytes, whatever the errors say.\<close>

theorem readiness_hides_details:
  assumes "ck_timeout a = ck_timeout b"
    and "list_all2 (\<lambda>(m, c) (n, d). m = n \<and> fails a c = fails b d
      \<and> snd (c (ck_timeout a)) = snd (d (ck_timeout b))) (ck_checks a) (ck_checks b)"
  shows "fst (handle_ready a r w) = fst (handle_ready b r w)"
proof -
  let ?t = "ck_timeout b"
  let ?same = "\<lambda>(m :: string, c) (n, d). m = n \<and> check_result_json c = check_result_json d"
  have run: "check_result_json (run_check ?t c) = check_result_json (run_check ?t d)"
    if "fails a c = fails b d" "snd (c ?t) = snd (d ?t)" for c d
    using that assms(1)
    by (cases "c ?t"; cases "d ?t") (auto simp: run_check_def fails_def check_result_json_def split: option.splits)
  have upd: "list_all2 ?same (gm_set n x xs) (gm_set n y ys)"
    if "list_all2 ?same xs ys" "check_result_json x = check_result_json y" for n x y xs ys
    using that unfolding gm_set_def by (induction rule: list_all2_induct) auto
  have "list_all2 ?same (rp_checks (fold (merge_check ?t) xs ra)) (rp_checks (fold (merge_check ?t) ys rb))
      \<and> rp_status (fold (merge_check ?t) xs ra) = rp_status (fold (merge_check ?t) ys rb)"
    if "list_all2 (\<lambda>(m, c) (n, d). m = n \<and> fails a c = fails b d \<and> snd (c ?t) = snd (d ?t)) xs ys"
      "list_all2 ?same (rp_checks ra) (rp_checks rb)" "rp_status ra = rp_status rb" for xs ys ra rb
    using that
  proof (induction arbitrary: ra rb rule: list_all2_induct)
    case (Cons x xs y ys)
    then obtain n c d where xy: "x = (n, c)" "y = (n, d)"
        and eq: "fails a c = fails b d" "snd (c ?t) = snd (d ?t)"
      by (cases x; cases y) auto
    have "list_all2 ?same (rp_checks (merge_check ?t x ra)) (rp_checks (merge_check ?t y rb))"
      using upd [OF Cons.prems(1) run [OF eq]] by (simp add: xy merge_check_def Let_def)
    moreover have "rp_status (merge_check ?t x ra) = rp_status (merge_check ?t y rb)"
      using eq(1) Cons.prems(2) assms(1) by (simp add: xy merge_check_def Let_def fails_def)
    ultimately show ?case using Cons.IH by simp
  qed simp
  from this [OF assms(2) [unfolded assms(1)]]
  have reports: "list_all2 ?same (rp_checks (ready a)) (rp_checks (ready b))"
      "rp_status (ready a) = rp_status (ready b)"
    by (simp_all add: ready_def ready_in_def assms(1))
  have "map (\<lambda>(n, c). (n, check_result_json c)) xs = map (\<lambda>(n, c). (n, check_result_json c)) ys"
    if "list_all2 ?same xs ys" for xs ys
    using that by (induction rule: list_all2_induct) auto
  then have "report_json (ready a) = report_json (ready b)"
    using reports by (simp add: report_json_def)
  then show ?thesis using reports(2) by (simp add: handle_ready_def Let_def)
qed

theorem readiness_hides_details_witness:
  "fst (handle_ready demo_checker r w) = fst (handle_ready
      (register ''database'' (\<lambda>_. (Some ''password authentication failed'', 5))
        (register ''cache'' (\<lambda>_. (None, 7)) (new_checker 2000000000))) r w)"
  by (rule readiness_hides_details)
     (simp_all add: demo_checker_def register_def new_checker_def gm_set_def fails_def)

end
