(* ===== verification/Middleware.thy ===== *)
theory Middleware
  imports Http Fingerprint
begin

text \<open>
  \<open>internal/httpapi/middleware/\<close>: the layers around the router. A middleware turns a handler into
  a handler. What \<open>RequestID\<close> and \<open>Logger\<close> take from outside, the random bytes and the clock, is
  the record \<open>mw_env\<close>.
\<close>

type_synonym 'w middleware = "'w handler \<Rightarrow> 'w handler"

text \<open>\<open>Chain\<close> wraps from the last middleware to the first.\<close>

definition chain :: "'w handler \<Rightarrow> 'w middleware list \<Rightarrow> 'w handler" where
  "chain h mws = fold (\<lambda>m h. m h) (rev mws) h"

section \<open>The response recorder\<close>

record recorder =
  rc_status :: int
  rc_bytes :: nat

fun recorder_step :: "writer_call \<Rightarrow> recorder \<Rightarrow> recorder" where
  "recorder_step (Set_Header k v) rc = rc"
| "recorder_step (Write_Header s) rc = (if rc_status rc = 0 then rc\<lparr>rc_status := s\<rparr> else rc)"
| "recorder_step (Write_Body b) rc =
     (let rc1 = (if rc_status rc = 0 then rc\<lparr>rc_status := 200\<rparr> else rc)
      in rc1\<lparr>rc_bytes := rc_bytes rc1 + length b\<rparr>)"

definition recorded :: "writer_call list \<Rightarrow> recorder" where
  "recorded calls = fold recorder_step calls \<lparr>rc_status = 0, rc_bytes = 0\<rparr>"

definition status_code :: "recorder \<Rightarrow> int" where
  "status_code rc = (if rc_status rc = 0 then 200 else rc_status rc)"

section \<open>The middlewares\<close>

record 'e mw_env =
  mw_rand :: "'e \<Rightarrow> string \<times> 'e"
  mw_now :: "'e \<Rightarrow> gotime \<times> 'e"
  mw_since :: "gotime \<Rightarrow> 'e \<Rightarrow> duration \<times> 'e"
  mw_stack :: string

definition max_inbound_len :: nat where
  "max_inbound_len = 128"

definition request_id_header :: string where
  "request_id_header = ''X-Request-Id''"

definition new_request_id :: "'e mw_env \<Rightarrow> 'e \<Rightarrow> string \<times> 'e" where
  "new_request_id M e = (let (b, e') = mw_rand M e in (hex_encode b, e'))"

definition request_id :: "'e mw_env \<Rightarrow> ('e, 's) world middleware" where
  "request_id M next r w =
    (let inbound = header_get request_id_header r;
         (i, e) = (if inbound = [] \<or> max_inbound_len < length inbound
                   then new_request_id M (wd_env w) else (inbound, wd_env w));
         (calls, p, w1) = next (r\<lparr>rq_id := Some i\<rparr>) (w\<lparr>wd_env := e\<rparr>)
     in (Set_Header request_id_header i # calls, p, w1))"

definition default_max_body_bytes :: int where
  "default_max_body_bytes = 1048576"

definition max_body :: "int \<Rightarrow> 'w middleware" where
  "max_body limit0 next r w =
    (let limit = (if limit0 \<le> 0 then default_max_body_bytes else limit0) in
     if rq_body r \<noteq> None
     then next (r\<lparr>rq_limit := Some (case rq_limit r of None \<Rightarrow> limit | Some l \<Rightarrow> min l limit)\<rparr>) w
     else next r w)"

definition is_probe :: "string \<Rightarrow> bool" where
  "is_probe path \<longleftrightarrow> path = ''/healthz'' \<or> path = ''/readyz''"

text \<open>A panic of the handler passes through \<open>Logger\<close> and \<open>Metrics\<close> before they record.\<close>

definition logger :: "'e mw_env \<Rightarrow> ('e, 's) world middleware" where
  "logger M next r w =
    (if is_probe (rq_path r) then next r w
     else
       (let (start, e) = mw_now M (wd_env w);
            (calls, p, w1) = next r (w\<lparr>wd_env := e\<rparr>)
        in case p of
             Some pn \<Rightarrow> (calls, Some pn, w1)
           | None \<Rightarrow>
               (let rc = recorded calls; (took, e1) = mw_since M start (wd_env w1) in
                (calls, None, log_attrs Level_Info ''http request''
                  [(''request_id'', request_id_from r), (''method'', rq_method r),
                   (''path'', rq_path r), (''status'', show_int (status_code rc)),
                   (''bytes'', show_nat (rc_bytes rc)), (''duration'', dur_string took),
                   (''remote_addr'', rq_remote_addr r), (''user_agent'', header_get ''User-Agent'' r)]
                  (w1\<lparr>wd_env := e1\<rparr>)))))"

definition route_of :: "('e, 's) world \<Rightarrow> string" where
  "route_of w = (if wd_pattern w \<noteq> [] then wd_pattern w else ''unmatched'')"

definition metrics_mw :: "(string list \<Rightarrow> bool) \<Rightarrow> ('e, 's) world middleware" where
  "metrics_mw accepts next r w =
    (let (calls, p, w1) = next r w in
     case p of
       Some pn \<Rightarrow> (calls, Some pn, w1)
     | None \<Rightarrow>
         (let (p1, w2) = with_metrics
                (http_request accepts (rq_method r) (route_of w1) (status_code (recorded calls))) w1
          in (calls, p1, w2)))"

definition panic_body :: string where
  "panic_body = concat [''{'', [CHR 0x22], ''code'', [CHR 0x22], '':500,'', [CHR 0x22], ''message'',
    [CHR 0x22], '':'', [CHR 0x22], ''internal server error'', [CHR 0x22], ''}'']"

definition recover :: "'e mw_env \<Rightarrow> ('e, 's) world middleware" where
  "recover M next r w =
    (let (calls, p, w1) = next r w in
     case p of
       None \<Rightarrow> (calls, None, w1)
     | Some Abort_Handler \<Rightarrow> (calls, Some Abort_Handler, w1)
     | Some (Panic t) \<Rightarrow>
         (calls @ [Set_Header ''Content-Type'' ''application/json'', Write_Header 500,
            Write_Body panic_body],
          None,
          log_attrs Level_Error ''panic recovered''
            [(''request_id'', request_id_from r), (''method'', rq_method r), (''path'', rq_path r),
             (''panic'', t), (''stack'', mw_stack M)] w1))"

lemmas middleware_eval [model_defs] =
  chain_def recorded_def status_code_def max_inbound_len_def request_id_header_def
  new_request_id_def request_id_def default_max_body_bytes_def max_body_def is_probe_def
  logger_def route_of_def metrics_mw_def panic_body_def recover_def

section \<open>Order\<close>

lemma chain_Nil [simp]: "chain h [] = h"
  by (simp add: chain_def)

lemma chain_Cons [simp]: "chain h (m # ms) = m (chain h ms)"
  by (simp add: chain_def)

section \<open>The recorder sees what the server sends\<close>

definition agrees :: "writer \<Rightarrow> recorder \<Rightarrow> bool" where
  "agrees wr rc \<longleftrightarrow> rc_bytes rc = length (wr_body wr) \<and>
    (case wr_sent wr of
       None \<Rightarrow> rc_status rc = 0 \<and> wr_body wr = []
     | Some (s, _) \<Rightarrow> s \<noteq> 0 \<and> rc_status rc = s)"

lemma agrees_step:
  "agrees wr rc \<Longrightarrow> (\<And>s. c = Write_Header s \<Longrightarrow> s \<noteq> 0) \<Longrightarrow>
    agrees (writer_step c wr) (recorder_step c rc)"
  by (cases c) (auto simp: agrees_def Let_def split: option.splits)

lemma agrees_fold:
  "agrees wr rc \<Longrightarrow> \<forall>s. Write_Header s \<in> set calls \<longrightarrow> s \<noteq> 0 \<Longrightarrow>
    agrees (fold writer_step calls wr) (fold recorder_step calls rc)"
  by (induction calls arbitrary: wr rc) (simp_all add: agrees_step)

lemma status_code_respond:
  assumes "\<forall>s. Write_Header s \<in> set calls \<longrightarrow> s \<noteq> 0"
  shows "status_code (recorded calls) = rs_status (respond calls)"
    and "rc_bytes (recorded calls) = length (rs_body (respond calls))"
proof -
  have "agrees new_writer \<lparr>rc_status = 0, rc_bytes = 0\<rparr>"
    by (simp add: agrees_def new_writer_def)
  from agrees_fold [OF this assms]
  have "agrees (fold writer_step calls new_writer) (recorded calls)" by (simp add: recorded_def)
  then show "status_code (recorded calls) = rs_status (respond calls)"
    "rc_bytes (recorded calls) = length (rs_body (respond calls))"
    by (auto simp: agrees_def respond_def status_code_def Let_def split: option.splits)
qed

end
