(* ===== verification/Router.thy ===== *)
theory Router
  imports Validation Health Middleware
begin

text \<open>
  \<open>internal/httpapi/router.go\<close>: the routes and the layers around them. The router is the one of
  \<open>net/http\<close>, for paths that are already clean: a route answers its method and path, a \<open>GET\<close>
  route also \<open>HEAD\<close>; another method is answered 405 with the methods there are, another path 404.
  It notes the pattern of the route in the request. The handler of \<open>/metrics\<close> is the Prometheus
  client's, a parameter.
\<close>

record 'w route =
  rt_method :: string
  rt_path :: string
  rt_handler :: "'w handler"

definition route_pattern :: "'w route \<Rightarrow> string" where
  "route_pattern rt = rt_method rt @ '' '' @ rt_path rt"

definition answers_method :: "string \<Rightarrow> 'w route \<Rightarrow> bool" where
  "answers_method meth rt \<longleftrightarrow> meth = rt_method rt \<or> meth = ''HEAD'' \<and> rt_method rt = ''GET''"

definition http_error :: "int \<Rightarrow> string \<Rightarrow> writer_call list" where
  "http_error status text =
    [Set_Header ''Content-Type'' ''text/plain; charset=utf-8'',
     Set_Header ''X-Content-Type-Options'' ''nosniff'', Write_Header status,
     Write_Body (text @ [CHR 0x0A])]"

definition allowed_methods :: "'w route list \<Rightarrow> string \<Rightarrow> string list" where
  "allowed_methods routes path =
    sort (concat (map (\<lambda>rt. if rt_path rt = path
      then (if rt_method rt = ''GET'' then [''GET'', ''HEAD''] else [rt_method rt]) else []) routes))"

definition serve_mux :: "('e, 's) world route list \<Rightarrow> ('e, 's) world handler" where
  "serve_mux routes r w =
    (case find (\<lambda>rt. rt_path rt = rq_path r \<and> answers_method (rq_method r) rt) routes of
       Some rt \<Rightarrow> rt_handler rt r (w\<lparr>wd_pattern := route_pattern rt\<rparr>)
     | None \<Rightarrow>
         (let w1 = w\<lparr>wd_pattern := []\<rparr>; allowed = allowed_methods routes (rq_path r) in
          if allowed = [] then (http_error 404 ''404 page not found'', None, w1)
          else (Set_Header ''Allow'' (join '', '' allowed) # http_error 405 ''Method Not Allowed'',
                None, w1)))"

section \<open>The service\<close>

definition ingest_path :: string where
  "ingest_path = ''/ingest/v1/transactions''"

definition service_routes ::
  "('d, 'a) lib_scheme \<Rightarrow> ('e, 's, 'd) ingest_server \<Rightarrow> validator \<Rightarrow> checker
    \<Rightarrow> ('e, 's) world handler \<Rightarrow> ('e, 's) world route list" where
  "service_routes L srv V ck prom =
    [\<lparr>rt_method = ''GET'', rt_path = ''/healthz'', rt_handler = handle_live\<rparr>,
     \<lparr>rt_method = ''GET'', rt_path = ''/readyz'', rt_handler = handle_ready ck\<rparr>,
     \<lparr>rt_method = ''GET'', rt_path = ''/metrics'', rt_handler = prom\<rparr>,
     \<lparr>rt_method = ''POST'', rt_path = ingest_path,
      rt_handler = wrapped_operation [spec_validator V (srv_accepts srv)] (ingest_transaction L srv)\<rparr>]"

definition service_layers ::
  "'e mw_env \<Rightarrow> (string list \<Rightarrow> bool) \<Rightarrow> ('e, 's) world middleware list" where
  "service_layers M accepts =
    [request_id M, max_body default_max_body_bytes, logger M, metrics_mw accepts, recover M]"

text \<open>The contract is loaded first, and may fail to.\<close>

definition new_router ::
  "('d, 'a) lib_scheme \<Rightarrow> ('e, 's, 'd) ingest_server \<Rightarrow> string + validator \<Rightarrow> checker
    \<Rightarrow> ('e, 's) world handler \<Rightarrow> 'e mw_env \<Rightarrow> string + ('e, 's) world handler" where
  "new_router L srv spec ck prom M =
    (case spec of
       Inl e \<Rightarrow> Inl (''build router: '' @ e)
     | Inr V \<Rightarrow>
         Inr (chain (serve_mux (service_routes L srv V ck prom))
           (service_layers M (srv_accepts srv))))"

lemmas router_eval [model_defs] =
  route_pattern_def answers_method_def http_error_def allowed_methods_def serve_mux_def
  ingest_path_def service_routes_def service_layers_def new_router_def

section \<open>Through the layers\<close>

text \<open>What the inner handler is given.\<close>

definition inbound_id :: "'e mw_env \<Rightarrow> request \<Rightarrow> 'e \<Rightarrow> string \<times> 'e" where
  "inbound_id M r e =
    (let inbound = header_get request_id_header r in
     if inbound = [] \<or> 128 < length inbound then new_request_id M e else (inbound, e))"

definition inner_request :: "request \<Rightarrow> string \<Rightarrow> request" where
  "inner_request r i =
    (let r1 = r\<lparr>rq_id := Some i\<rparr> in
     if rq_body r = None then r1
     else r1\<lparr>rq_limit := Some (case rq_limit r of None \<Rightarrow> 1048576 | Some l \<Rightarrow> min l 1048576)\<rparr>)"

lemma inner_request_simps [simp]:
  "rq_method (inner_request r i) = rq_method r" "rq_path (inner_request r i) = rq_path r"
  "rq_body (inner_request r i) = rq_body r" "rq_header (inner_request r i) = rq_header r"
  "rq_id (inner_request r i) = Some i"
  by (simp_all add: inner_request_def Let_def)

lemma layers_outer:
  "chain h (service_layers M accepts) r w =
    (let (i, e) = inbound_id M r (wd_env w);
         (calls, p, w1) = logger M (metrics_mw accepts (recover M h)) (inner_request r i) (w\<lparr>wd_env := e\<rparr>)
     in (Set_Header request_id_header i # calls, p, w1))"
  by (simp add: service_layers_def request_id_def max_body_def inbound_id_def max_inbound_len_def
      default_max_body_bytes_def inner_request_def Let_def case_prod_beta)

text \<open>The layer that counts, over a handler that returned or panicked.\<close>

definition caught :: "'e mw_env \<Rightarrow> request \<Rightarrow> writer_call list \<times> panic option \<times> ('e, 's) world
    \<Rightarrow> writer_call list \<times> panic option \<times> ('e, 's) world" where
  "caught M r res = recover M (\<lambda>_ _. res) r (snd (snd res))"

lemma recover_caught: "recover M h r w = caught M r (h r w)"
  by (simp add: caught_def recover_def case_prod_beta)

lemma caught_returns:
  "caught M r (calls, p, w) = (calls', p', w') \<Longrightarrow> p' = None \<or> p' = Some Abort_Handler"
  by (auto simp: caught_def recover_def split: option.splits panic.splits)

lemma caught_panic:
  "caught M r (calls, Some (Panic t), w) =
    (calls @ [Set_Header ''Content-Type'' ''application/json'', Write_Header 500, Write_Body panic_body],
     None,
     log_attrs Level_Error ''panic recovered''
       [(''request_id'', request_id_from r), (''method'', rq_method r), (''path'', rq_path r),
        (''panic'', t), (''stack'', mw_stack M)] w)"
  by (simp add: caught_def recover_def)

lemma caught_fine: "caught M r (calls, None, w) = (calls, None, w)"
  by (simp add: caught_def recover_def)

definition countable_request :: "(string list \<Rightarrow> bool) \<Rightarrow> request \<Rightarrow> ('e, 's) world \<Rightarrow> bool" where
  "countable_request accepts r w \<longleftrightarrow> (\<forall>s. accepts [rq_method r, route_of w, show_int s])"

definition count_http :: "request \<Rightarrow> int \<Rightarrow> ('e, 's) world \<Rightarrow> ('e, 's) world" where
  "count_http r s w =
    w\<lparr>wd_metrics := (wd_metrics w)\<lparr>m_http_requests :=
      inc [rq_method r, route_of w, show_int s] (m_http_requests (wd_metrics w))\<rparr>\<rparr>"

lemma metrics_mw_counts:
  assumes "recover M h r w = (calls, None, w1)" and "countable_request accepts r w1"
  shows "metrics_mw accepts (recover M h) r w
    = (calls, None, count_http r (status_code (recorded calls)) w1)"
  using assms
  by (simp add: metrics_mw_def with_metrics_def http_request_def countable_request_def count_http_def)

lemma count_http_simps [simp]:
  "wd_store (count_http r s w) = wd_store w" "wd_log (count_http r s w) = wd_log w"
  "wd_pattern (count_http r s w) = wd_pattern w" "wd_env (count_http r s w) = wd_env w"
  by (simp_all add: count_http_def)

end
