(* ===== verification/Source_Labels.thy ===== *)
theory Source_Labels
  imports Ingest_Handler
begin

text \<open>
  The handler of \<open>internal/httpapi/ingest.go\<close> and the label of a source, in all cases: the metrics
  take the source of a push, as \<open>labels.go\<close> shortens it, or they panic. A source whose first 64
  bytes end inside a character is refused, unless the label set is full and counts it among the
  others. What the handler has done to the store by then stays.
\<close>

section \<open>Sources the metrics take\<close>

definition countable_source :: "source_labels \<Rightarrow> string \<Rightarrow> bool" where
  "countable_source s source \<longleftrightarrow> utf8_valid (fst (label s source))"

lemma plain_labels_valid: "utf8_valid source_unknown" "utf8_valid source_overflow" "source_label_valid []"
  by (simp_all add: source_unknown_def source_overflow_def source_label_valid_def utf8_valid_ascii
      is_ascii_def code_def)

lemma countable_source_iff:
  "countable_source s source \<longleftrightarrow>
    source_label_valid source \<or> sources_full s \<and> take 64 source \<notin> set (sl_seen s)"
  using plain_labels_valid by (auto simp: countable_source_def label_eq source_label_valid_def)

lemma source_label_countable: "source_label_valid source \<Longrightarrow> countable_source s source"
  by (simp add: countable_source_iff)

text \<open>The second call with the same source answers as the first and changes nothing.\<close>

lemma label_again: "label (snd (label s source)) source = label s source"
  by (auto simp: label_eq sources_full_def)

lemma countable_again: "countable_source (snd (label s source)) source = countable_source s source"
  by (simp add: countable_source_def label_again)

abbreviation sources_of :: "('e, 's) world \<Rightarrow> source_labels" where
  "sources_of w \<equiv> m_sources (wd_metrics w)"

section \<open>The recordings\<close>

lemma ingest_result_total:
  assumes "prometheus_ok accepts" and "utf8_valid result"
  shows "fst (Metrics.ingest_result accepts source result took m)
      = (if countable_source (m_sources m) source then None else Some (Panic label_error))"
    and "m_sources (snd (Metrics.ingest_result accepts source result took m)) = snd (label (m_sources m) source)"
  using assms
  by (simp_all add: Metrics.ingest_result_def countable_source_def prometheus_ok_def case_prod_beta Let_def)

lemma divergent_replay_total:
  assumes "prometheus_ok accepts"
  shows "fst (divergent_replay accepts source m)
      = (if countable_source (m_sources m) source then None else Some (Panic label_error))"
    and "m_sources (snd (divergent_replay accepts source m)) = snd (label (m_sources m) source)"
  using assms by (simp_all add: divergent_replay_def countable_source_def prometheus_ok_def case_prod_beta Let_def)

lemma validation_failure_total:
  assumes "prometheus_ok accepts" and "utf8_valid layer" and "utf8_valid field"
  shows "fst (validation_failure accepts source layer field m)
      = (if countable_source (m_sources m) source then None else Some (Panic label_error))"
    and "m_sources (snd (validation_failure accepts source layer field m)) = snd (label (m_sources m) source)"
proof -
  have "utf8_valid ''request''" by (rule utf8_valid_ascii) code_simp
  then show "fst (validation_failure accepts source layer field m)
      = (if countable_source (m_sources m) source then None else Some (Panic label_error))"
    and "m_sources (snd (validation_failure accepts source layer field m)) = snd (label (m_sources m) source)"
    using assms
    by (simp_all add: validation_failure_def countable_source_def prometheus_ok_def case_prod_beta Let_def)
qed

lemma with_metrics_parts:
  "with_metrics f w = (fst (f (wd_metrics w)), w\<lparr>wd_metrics := snd (f (wd_metrics w))\<rparr>)"
  by (simp add: with_metrics_def case_prod_beta)

section \<open>The answers\<close>

text \<open>What the handler ends in when it answers under a source: the answer, or the panic of the metrics.\<close>

definition counted ::
  "source_labels \<Rightarrow> string \<Rightarrow> writer_call list \<Rightarrow> writer_call list \<times> panic option" where
  "counted s source calls =
    (if countable_source s source then (calls, None) else ([], Some (Panic label_error)))"

lemma answer_total:
  assumes "prometheus_ok (srv_accepts srv)" and "utf8_valid result"
  shows "\<exists>w'. answer srv source result started calls w
      = (fst (counted (sources_of w) source calls), snd (counted (sources_of w) source calls), w')
    \<and> wd_store w' = wd_store w \<and> sources_of w' = snd (label (sources_of w) source)"
proof -
  obtain took e where since: "srv_since srv started (wd_env w) = (took, e)" by fastforce
  show ?thesis
    using ingest_result_total [OF assms, of source took "wd_metrics w"]
    by (simp add: answer_def since with_metrics_parts counted_def)
qed

definition store_answer ::
  "('d, 'a) lib_scheme \<Rightarrow> string + 'd ingest_outcome \<Rightarrow> writer_call list" where
  "store_answer L res =
    (case res of
       Inl e \<Rightarrow> write_error 500 ''transaction could not be recorded'' []
     | Inr out \<Rightarrow> write_json (if out_duplicate out then 200 else 201) (ingest_result_json (to_result L out)))"

lemma answer_outcome_total:
  assumes "prometheus_ok (srv_accepts srv)"
  shows "\<exists>w'. answer_outcome L srv started tx out w
      = (fst (counted (sources_of w) (tx_source tx) (store_answer L (Inr out))),
         snd (counted (sources_of w) (tx_source tx) (store_answer L (Inr out))), w')
    \<and> wd_store w' = wd_store w \<and> sources_of w' = snd (label (sources_of w) (tx_source tx))"
  using answer_total [OF assms results_valid(1)] answer_total [OF assms results_valid(2)]
  by (simp add: answer_outcome_def store_answer_def)

lemma record_transaction_total:
  assumes "prometheus_ok (srv_accepts srv)" and "srv_store srv (wd_store w) tx = (res, s)"
  shows "\<exists>w'. record_transaction L srv r started tx w
      = (fst (counted (sources_of w) (tx_source tx) (store_answer L res)),
         snd (counted (sources_of w) (tx_source tx) (store_answer L res)), w')
    \<and> wd_store w' = s \<and> sources_of w' = snd (label (sources_of w) (tx_source tx))"
proof (cases res)
  case (Inl e)
  then show ?thesis
    using assms(2) answer_total [OF assms(1) results_valid(4), of "tx_source tx" started
        "write_error 500 ''transaction could not be recorded'' []"
        "log_attrs Level_Error ''could not record transaction''
          [(''request_id'', request_id_from r), (''source'', tx_source tx),
           (''source_reference'', tx_source_reference tx), (''error'', e)] (w\<lparr>wd_store := s\<rparr>)"]
    by (simp add: record_transaction_def store_answer_def)
next
  case (Inr out)
  let ?w = "w\<lparr>wd_store := s\<rparr>"
  show ?thesis
  proof (cases "out_divergent out")
    case True
    let ?d = "divergent_replay (srv_accepts srv) (tx_source tx)" and ?l = "log_divergence L r tx out ?w"
    define v where "v = ?l\<lparr>wd_metrics := snd (?d (wd_metrics w))\<rparr>"
    note d = divergent_replay_total [OF assms(1), of "tx_source tx" "wd_metrics w"]
    have log: "wd_metrics ?l = wd_metrics w" "wd_store ?l = s" by (simp_all add: log_divergence_def)
    then have m: "with_metrics ?d ?l = (fst (?d (wd_metrics w)), v)" by (simp add: with_metrics_parts v_def)
    have v: "wd_store v = s" "sources_of v = snd (label (sources_of w) (tx_source tx))"
      using log(2) d(2) by (simp_all add: v_def)
    show ?thesis
      using assms(2) Inr True m d(1) v countable_again label_again
        answer_outcome_total [OF assms(1), of L started tx out v]
      by (auto simp: record_transaction_def counted_def)
  next
    case False
    then show ?thesis
      using assms(2) Inr answer_outcome_total [OF assms(1), of L started tx out ?w]
      by (simp add: record_transaction_def)
  qed
qed

lemma ingest_transaction_accepted:
  assumes "accepted_request L srv r (wd_env w) = Some tx"
  shows "\<exists>started e1. ingest_transaction L srv r w
    = record_transaction L srv r started tx (w\<lparr>wd_env := e1\<rparr>)"
proof -
  obtain body where dec: "srv_decode srv r = Inr body"
    using assms by (auto simp: accepted_request_def split: sum.splits)
  obtain started e0 where now: "sys_now (srv_runtime srv) (wd_env w) = (started, e0)" by fastforce
  obtain a e1 where acc: "accept L (srv_runtime srv) (srv_rules srv) (to_submission body) e0 = (a, e1)"
    by fastforce
  then have "a = Accepted tx"
    using assms dec now by (auto simp: accepted_request_def split: acceptance.splits)
  then have "ingest_transaction L srv r w
      = record_transaction L srv r started tx (w\<lparr>wd_env := e1\<rparr>)"
    using dec now acc by (simp add: ingest_transaction_def)
  then show ?thesis by blast
qed

text \<open>The answer to a transaction the rules accepted, by what the store said.\<close>

lemma accepted_total:
  assumes "accepted_request L srv r (wd_env w) = Some tx" and "prometheus_ok (srv_accepts srv)"
    and "srv_store srv (wd_store w) tx = (res, s)"
  shows "\<exists>w'. ingest_transaction L srv r w
      = (fst (counted (sources_of w) (tx_source tx) (store_answer L res)),
         snd (counted (sources_of w) (tx_source tx) (store_answer L res)), w')
    \<and> wd_store w' = s \<and> sources_of w' = snd (label (sources_of w) (tx_source tx))"
proof -
  obtain started e1 where eq: "ingest_transaction L srv r w
      = record_transaction L srv r started tx (w\<lparr>wd_env := e1\<rparr>)"
    using ingest_transaction_accepted [OF assms(1)] by blast
  have "srv_store srv (wd_store (w\<lparr>wd_env := e1\<rparr>)) tx = (res, s)" using assms(3) by simp
  from record_transaction_total [OF assms(2) this] show ?thesis unfolding eq by simp
qed

lemma accepted_answer:
  assumes "accepted_request L srv r (wd_env w) = Some tx" and "prometheus_ok (srv_accepts srv)"
    and "source_label_valid (tx_source tx)" and "srv_store srv (wd_store w) tx = (Inr out, s)"
  shows "\<exists>w'. ingest_transaction L srv r w =
    (write_json (if out_duplicate out then 200 else 201) (ingest_result_json (to_result L out)),
     None, w') \<and> wd_store w' = s"
  using accepted_total [OF assms(1,2,4)] source_label_countable [OF assms(3)]
  by (auto simp: counted_def store_answer_def)

section \<open>The label set over time\<close>

text \<open>Tracked sources stay tracked, and a full set does not change.\<close>

definition labels_later :: "source_labels \<Rightarrow> source_labels \<Rightarrow> bool" where
  "labels_later s s' \<longleftrightarrow> set (sl_seen s) \<subseteq> set (sl_seen s') \<and> (sources_full s \<longrightarrow> s' = s)"

lemma labels_later_refl [simp]: "labels_later s s"
  by (simp add: labels_later_def)

lemma labels_later_trans: "labels_later s s' \<Longrightarrow> labels_later s' s'' \<Longrightarrow> labels_later s s''"
  by (auto simp: labels_later_def)

lemma label_later [simp]: "labels_later s (snd (label s source))"
  by (auto simp: labels_later_def label_eq)

lemma countable_later: "labels_later s s' \<Longrightarrow> countable_source s source \<Longrightarrow> countable_source s' source"
  by (auto simp: labels_later_def countable_source_iff)

text \<open>A source that was refused once is refused from then on.\<close>

lemma refused_later:
  assumes "\<not> countable_source s source" and "labels_later (snd (label s source)) s'"
  shows "\<not> countable_source s' source"
proof -
  have "take 64 source \<in> set (sl_seen (snd (label s source)))"
    using assms(1) plain_labels_valid(3) by (auto simp: countable_source_iff label_eq)
  then show ?thesis
    using assms by (auto simp: labels_later_def countable_source_iff)
qed

lemma recordings_label:
  "m_sources (snd (Metrics.ingest_result accepts source result took m)) = snd (label (m_sources m) source)"
  "m_sources (snd (validation_failure accepts source layer field m)) = snd (label (m_sources m) source)"
  "m_sources (snd (divergent_replay accepts source m)) = snd (label (m_sources m) source)"
  by (simp_all add: Metrics.ingest_result_def validation_failure_def divergent_replay_def case_prod_beta Let_def)

lemma answer_later:
  "labels_later (sources_of w) (sources_of (snd (snd (answer srv source result started calls w))))"
  using label_later
  by (auto simp: answer_def with_metrics_parts recordings_label case_prod_beta Let_def split: option.splits)

lemma count_failures_later:
  "labels_later (sources_of w) (sources_of (snd (count_failures accepts source layer fs w)))"
proof (induction fs arbitrary: w)
  case (Cons f fs)
  let ?f = "validation_failure accepts source layer (fe_field f)"
  let ?w = "w\<lparr>wd_metrics := snd (?f (wd_metrics w))\<rparr>"
  have "labels_later (sources_of w) (sources_of ?w)"
    using label_later by (simp add: recordings_label)
  with Cons.IH [of ?w] labels_later_trans show ?case
    by (fastforce simp: with_metrics_parts split: option.splits)
qed simp

lemma answer_outcome_later:
  "labels_later (sources_of w) (sources_of (snd (snd (answer_outcome L srv started tx out w))))"
  by (simp add: answer_outcome_def answer_later)

lemma record_transaction_later:
  "labels_later (sources_of w) (sources_of (snd (snd (record_transaction L srv r started tx w))))"
proof -
  obtain res s where st: "srv_store srv (wd_store w) tx = (res, s)" by fastforce
  show ?thesis
  proof (cases res)
    case (Inl e)
    let ?v = "log_attrs Level_Error ''could not record transaction''
      [(''request_id'', request_id_from r), (''source'', tx_source tx),
       (''source_reference'', tx_source_reference tx), (''error'', e)] (w\<lparr>wd_store := s\<rparr>)"
    have "sources_of ?v = sources_of w" by simp
    then show ?thesis
      using st Inl answer_later [of ?v] by (simp add: record_transaction_def)
  next
    case (Inr out)
    let ?d = "divergent_replay (srv_accepts srv) (tx_source tx)"
    let ?l = "log_divergence L r tx out (w\<lparr>wd_store := s\<rparr>)"
    let ?v = "?l\<lparr>wd_metrics := snd (?d (wd_metrics ?l))\<rparr>"
    have "sources_of ?l = sources_of w" by (simp add: log_divergence_def)
    then have v: "labels_later (sources_of w) (sources_of ?v)"
      using label_later by (simp add: recordings_label)
    note later = labels_later_trans [OF v answer_outcome_later [of ?v L srv started tx out]]
      answer_outcome_later [of "w\<lparr>wd_store := s\<rparr>" L srv started tx out]
    show ?thesis
    proof (cases "out_divergent out")
      case True
      then show ?thesis
        using st Inr v later(1) by (cases "fst (?d (wd_metrics ?l))")
          (simp_all add: record_transaction_def with_metrics_parts Let_def)
    next
      case False
      then show ?thesis using st Inr later(2) by (simp add: record_transaction_def)
    qed
  qed
qed

lemma ingest_transaction_later:
  "labels_later (sources_of w) (sources_of (snd (snd (ingest_transaction L srv r w))))"
proof -
  obtain started e0 where now: "sys_now (srv_runtime srv) (wd_env w) = (started, e0)" by fastforce
  show ?thesis
  proof (cases "srv_decode srv r")
    case (Inl e)
    then show ?thesis
      using now answer_later [of "log_attrs Level_Warn ''body decoded by the validator but not by the handler''
          [(''request_id'', request_id_from r), (''error'', e)] (w\<lparr>wd_env := e0\<rparr>)"]
      by (simp add: ingest_transaction_def)
  next
    case (Inr body)
    obtain a e1 where acc: "accept L (srv_runtime srv) (srv_rules srv) (to_submission body) e0 = (a, e1)"
      by fastforce
    show ?thesis
    proof (cases a)
      case (Accepted tx)
      then show ?thesis
        using now Inr acc record_transaction_later [of "w\<lparr>wd_env := e1\<rparr>"] by (simp add: ingest_transaction_def)
    next
      case (Faulted e)
      then show ?thesis
        using now Inr acc answer_later [of "log_attrs Level_Error ''could not build transaction''
          [(''request_id'', request_id_from r), (''source'', ir_source body), (''error'', e)] (w\<lparr>wd_env := e1\<rparr>)"]
        by (simp add: ingest_transaction_def)
    next
      case (Rejected ps)
      let ?errs = "to_field_errors ps"
      let ?l = "log_attrs Level_Info ''transaction rejected by validation rules''
        [(''request_id'', request_id_from r), (''source'', ir_source body),
         (''source_reference'', ir_source_reference body),
         (''fields'', format_field_errors ?errs)] (w\<lparr>wd_env := e1\<rparr>)"
      obtain p v where v: "count_failures (srv_accepts srv) (ir_source body) ''semantic'' ?errs ?l = (p, v)" by fastforce
      then have "labels_later (sources_of w) (sources_of v)"
        using count_failures_later [of ?l "srv_accepts srv" "ir_source body" "''semantic''" ?errs] by simp
      with labels_later_trans [OF this answer_later [of v srv "ir_source body" result_rejected started
            "write_error 400 ''transaction failed validation'' ?errs"]]
      show ?thesis
        using now Inr acc Rejected v
        by (cases p) (simp_all add: ingest_transaction_def Let_def)
    qed
  qed
qed

end
