(* ===== verification/Memory_Store.thy ===== *)
theory Memory_Store
  imports Store
begin

text \<open>
  \<open>internal/store/memory/memory.go\<close>: the store in process memory. Every method holds the mutex
  from its first read to its last write, so each is one step and a concurrent execution is a
  sequence of them.
\<close>

record 'd mem_store =
  ms_by_key :: "(key, 'd transaction) gomap"
  ms_fingerprints :: "(key, string) gomap"

definition mem_new :: "'d mem_store" where
  "mem_new = \<lparr>ms_by_key = [], ms_fingerprints = []\<rparr>"

text \<open>
  A read of a missing entry of a Go map of strings is the empty string. The error is always
  \<open>nil\<close>.
\<close>

definition mem_ingest ::
  "('d, 'a) lib_scheme \<Rightarrow> 'd mem_store \<Rightarrow> 'd transaction
    \<Rightarrow> (string + 'd ingest_outcome) \<times> 'd mem_store" where
  "mem_ingest L s tx =
    (let k = key_of tx; fp = fingerprint L tx in
     case map_of (ms_by_key s) k of
       Some existing \<Rightarrow>
         (Inr \<lparr>out_transaction = existing, out_duplicate = True,
            out_divergent =
              ((case map_of (ms_fingerprints s) k of Some f \<Rightarrow> f | None \<Rightarrow> []) \<noteq> fp)\<rparr>, s)
     | None \<Rightarrow>
         (Inr \<lparr>out_transaction = tx, out_duplicate = False, out_divergent = False\<rparr>,
          \<lparr>ms_by_key = gm_set k tx (ms_by_key s),
           ms_fingerprints = gm_set k fp (ms_fingerprints s)\<rparr>))"

definition mem_get :: "'d mem_store \<Rightarrow> key \<Rightarrow> string + 'd transaction" where
  "mem_get s k =
    (case map_of (ms_by_key s) k of None \<Rightarrow> Inl err_not_found | Some tx \<Rightarrow> Inr tx)"

definition mem_len :: "'d mem_store \<Rightarrow> nat" where
  "mem_len s = length (ms_by_key s)"

definition mem_all :: "'d mem_store \<Rightarrow> 'd transaction list" where
  "mem_all s = sort_key (\<lambda>t. t_ns (tx_occurred_at t)) (map snd (ms_by_key s))"

lemmas memory_eval [model_defs] =
  mem_new_def mem_ingest_def mem_get_def mem_len_def mem_all_def

section \<open>The invariant\<close>

text \<open>
  The two maps have the same keys, and each entry is filed under its own key with its own
  fingerprint.
\<close>

definition mem_ok :: "('d, 'a) lib_scheme \<Rightarrow> 'd mem_store \<Rightarrow> bool" where
  "mem_ok L s \<longleftrightarrow> gm_wf (ms_by_key s) \<and>
    (\<forall>k. map_of (ms_fingerprints s) k = map_option (fingerprint L) (map_of (ms_by_key s) k)) \<and>
    (\<forall>k t. map_of (ms_by_key s) k = Some t \<longrightarrow> key_of t = k)"

lemma mem_ok_new: "mem_ok L mem_new"
  by (simp add: mem_ok_def mem_new_def)

lemma mem_ok_ingest: "mem_ok L s \<Longrightarrow> mem_ok L (snd (mem_ingest L s t))"
  by (auto simp: mem_ok_def mem_ingest_def Let_def split: option.splits)

definition mem_found :: "'d mem_store \<Rightarrow> key \<Rightarrow> 'd transaction option" where
  "mem_found s k = map_of (ms_by_key s) k"

definition mem_fingerprint :: "'d mem_store \<Rightarrow> key \<Rightarrow> string option" where
  "mem_fingerprint s k = map_of (ms_fingerprints s) k"

interpretation mem: transaction_store "mem_ingest L" mem_found mem_fingerprint "mem_ok L"
  "\<lambda>_. True" "fingerprint L" "\<lambda>t. t" for L :: "('d, 'a) lib_scheme"
proof unfold_locales
  show "mem_ok L s'" if "mem_ok L s" "mem_ingest L s t = (r, s')" for s s' :: "'d mem_store" and t r
    using mem_ok_ingest [OF that(1), of t] that(2) by simp
qed (auto simp: mem_ingest_def mem_found_def mem_fingerprint_def mem_ok_def Let_def fun_eq_iff
    split: option.splits)

lemma mem_ingest_never_fails: "\<exists>out s'. mem_ingest L s t = (Inr out, s')"
  by (simp add: mem_ingest_def Let_def split: option.splits)

lemma mem_get_found: "mem_get s k = (case mem_found s k of None \<Rightarrow> Inl err_not_found | Some t \<Rightarrow> Inr t)"
  by (simp add: mem_get_def mem_found_def)

section \<open>Sequences of pushes\<close>

fun mem_run ::
  "('d, 'a) lib_scheme \<Rightarrow> 'd mem_store \<Rightarrow> 'd transaction list
    \<Rightarrow> (string + 'd ingest_outcome) list \<times> 'd mem_store" where
  "mem_run L s [] = ([], s)"
| "mem_run L s (t # ts) =
    (let (r, s1) = mem_ingest L s t; (rs, s2) = mem_run L s1 ts in (r # rs, s2))"

lemma mem_run_serve: "transaction_store.serve (mem_ingest L) s ts = mem_run L s ts"
  by (induction ts arbitrary: s) simp_all

lemma mem_run_ok: "mem_ok L s \<Longrightarrow> mem_ok L (snd (mem_run L s ts))"
  by (induction ts arbitrary: s) (simp_all add: Let_def case_prod_beta mem_ok_ingest)

definition is_new :: "string + 'd ingest_outcome \<Rightarrow> bool" where
  "is_new r \<longleftrightarrow> (case r of Inr out \<Rightarrow> \<not> out_duplicate out | Inl _ \<Rightarrow> False)"

lemma mem_new_simps [simp]: "mem_found mem_new k = None" "mem_len mem_new = 0"
  by (simp_all add: mem_found_def mem_new_def mem_len_def)

lemma mem_found_ingest:
  "mem_found (snd (mem_ingest L s t)) k =
    (case mem_found s k of Some u \<Rightarrow> Some u | None \<Rightarrow> if key_of t = k then Some t else None)"
  by (auto simp: mem_found_def mem_ingest_def Let_def split: option.splits)

lemma mem_found_run:
  "mem_found (snd (mem_run L s ts)) k =
    (case mem_found s k of Some u \<Rightarrow> Some u | None \<Rightarrow> find (\<lambda>t. key_of t = k) ts)"
  by (induction ts arbitrary: s)
     (auto simp: case_prod_beta Let_def mem_found_ingest split: option.splits)

lemma mem_len_ingest:
  "mem_len (snd (mem_ingest L s t)) = mem_len s + (if is_new (fst (mem_ingest L s t)) then 1 else 0)"
  by (auto simp: mem_len_def mem_ingest_def is_new_def Let_def length_gm_set split: option.splits)

lemma mem_len_run:
  "mem_len (snd (mem_run L s ts)) = mem_len s + length (filter is_new (fst (mem_run L s ts)))"
  by (induction ts arbitrary: s) (auto simp: case_prod_beta Let_def mem_len_ingest)

lemma mem_len_dom: "mem_ok L s \<Longrightarrow> mem_len s = card (dom (mem_found s))"
proof -
  assume "mem_ok L s"
  then have "distinct (map fst (ms_by_key s))" by (simp add: mem_ok_def gm_wf_def)
  then have "card (set (map fst (ms_by_key s))) = length (ms_by_key s)"
    using distinct_card by fastforce
  moreover have "dom (mem_found s) = set (map fst (ms_by_key s))"
    unfolding mem_found_def [abs_def] by (simp add: dom_map_of_conv_image_fst)
  ultimately show ?thesis by (simp add: mem_len_def)
qed

lemma dom_find_key: "dom (\<lambda>k. find (\<lambda>t. key_of t = k) ts) = key_of ` set ts"
  by (auto simp: dom_def find_None_iff simp del: not_None_eq)

section \<open>Properties\<close>

text \<open>C29: After any sequence of pushes from the empty store, a lookup finds under a key the first
  transaction that was pushed under it, whole, and reports \<open>ErrNotFound\<close> for a key no push
  carried: nothing is overwritten, lost or filed elsewhere.\<close>

theorem memory_first_write_wins:
  "mem_get (snd (mem_run L mem_new ts)) k =
    (case find (\<lambda>t. key_of t = k) ts of Some t \<Rightarrow> Inr t | None \<Rightarrow> Inl err_not_found)"
  by (simp add: mem_get_found mem_found_run split: option.splits)

text \<open>A push of a key that was answered as new is answered, after any further pushes, as a
  duplicate carrying the first transaction; it is flagged as divergent exactly when its
  fingerprint is another, and it leaves the store as it was.\<close>

theorem memory_replay:
  assumes "mem_ok L s" and "mem_ingest L s t = (Inr out, s1)" and "\<not> out_duplicate out"
    and "mem_run L s1 ts = (rs, s2)" and "key_of u = key_of t"
  shows "mem_ingest L s2 u =
    (Inr \<lparr>out_transaction = t, out_duplicate = True,
       out_divergent = (fingerprint L u \<noteq> fingerprint L t)\<rparr>, s2)"
proof -
  obtain out' s' where step: "mem_ingest L s2 u = (Inr out', s')"
    using mem_ingest_never_fails by blast
  have "list_all (\<lambda>_. True) ts" by (simp add: list_all_iff)
  note answer = mem.replay_answer(1) [unfolded mem_run_serve, OF assms(1) TrueI assms(2,3) this
      assms(4) TrueI assms(5) step]
  then have "s' = s2"
    using step by (auto simp: mem_ingest_def Let_def split: option.splits)
  with step answer show ?thesis by simp
qed

theorem memory_replay_witness:
  "mem_ingest ref_lib (snd (mem_ingest ref_lib mem_new demo_tx)) demo_retry
    = (Inr \<lparr>out_transaction = demo_tx, out_duplicate = True,
         out_divergent = (fingerprint ref_lib demo_retry \<noteq> fingerprint ref_lib demo_tx)\<rparr>,
       snd (mem_ingest ref_lib mem_new demo_tx))"
proof -
  have first: "mem_ingest ref_lib mem_new demo_tx
      = (Inr \<lparr>out_transaction = demo_tx, out_duplicate = False, out_divergent = False\<rparr>,
         snd (mem_ingest ref_lib mem_new demo_tx))"
    by (simp add: mem_ingest_def mem_new_def Let_def)
  have "key_of demo_retry = key_of demo_tx" by (simp add: demo_retry_def key_of_def)
  then show ?thesis using memory_replay [OF mem_ok_new first, of "[]"] by simp
qed

text \<open>However pushes are repeated and interleaved, the number of them answered as new is the
  number of different keys, and so is the number of stored transactions: one record per key.\<close>

theorem memory_one_record_per_key:
  "length (filter is_new (fst (mem_run L mem_new ts))) = card (key_of ` set ts)
    \<and> mem_len (snd (mem_run L mem_new ts)) = card (key_of ` set ts)"
proof -
  let ?s = "snd (mem_run L mem_new ts)"
  have "mem_found ?s = (\<lambda>k. find (\<lambda>t. key_of t = k) ts)"
    by (simp add: fun_eq_iff mem_found_run)
  then have "mem_len ?s = card (key_of ` set ts)"
    using mem_len_dom [OF mem_run_ok [OF mem_ok_new], of L ts] by (simp add: dom_find_key)
  then show ?thesis using mem_len_run [of L mem_new ts] by simp
qed

end
