(* ===== verification/Outbox.thy ===== *)
theory Outbox
  imports Fingerprint
begin

text \<open>
  \<open>internal/outbox/outbox.go\<close>: the event that announces an accepted transaction, with its
  published JSON body.
\<close>

definition event_type_transaction_received :: string where
  "event_type_transaction_received = ''transaction.received''"

record event =
  ev_id :: uuid
  ev_type :: string
  ev_aggregate_id :: uuid
  ev_payload :: string
  ev_created_at :: gotime

definition time_member :: "string \<Rightarrow> gotime \<Rightarrow> string \<times> string" where
  "time_member name t = (name, [CHR 0x22] @ time_rfc3339 t @ [CHR 0x22])"

text \<open>The members of \<open>TransactionReceived\<close>, in the order of the struct.\<close>

definition transaction_received ::
  "('d, 'a) lib_scheme \<Rightarrow> 'd transaction \<Rightarrow> uuid \<Rightarrow> (string \<times> string) list" where
  "transaction_received L tx event_id =
    [quoted_member ''event_id'' (uuid_string L event_id),
     quoted_member ''event_type'' event_type_transaction_received,
     quoted_member ''transaction_id'' (uuid_string L (tx_id tx)),
     quoted_member ''source'' (tx_source tx),
     quoted_member ''source_reference'' (tx_source_reference tx),
     quoted_member ''transaction_type'' (tx_type tx),
     time_member ''transaction_time_utc'' (time_utc (tx_occurred_at tx)),
     time_member ''received_at'' (time_utc (tx_received_at tx))]
    @ (case tx_plate tx of
         None \<Rightarrow> []
       | Some p \<Rightarrow> omit_empty ''plate_number'' (pl_number p)
           @ omit_empty ''plate_jurisdiction'' (pl_jurisdiction p)
           @ omit_empty ''plate_number_key'' (pl_number_key p))
    @ (case tx_transponder tx of
         None \<Rightarrow> []
       | Some n \<Rightarrow> omit_empty ''transponder_number'' (tr_number n)
           @ omit_empty ''transponder_number_key'' (tr_number_key n))
    @ [quoted_member ''base_amount''
         (dec_fixed L (amt_value (tx_base_amount tx))
           (sint (cur_exponent (amt_currency (tx_base_amount tx))))),
       quoted_member ''currency'' (cur_code (amt_currency (tx_base_amount tx)))]
    @ omit_empty_map ''location'' (tx_location tx)
    @ omit_empty_map ''metadata'' (tx_metadata tx)
    @ [quoted_member ''association_status'' (association_text (tx_association tx)),
       quoted_member ''settlement_status'' (settlement_text (tx_settlement tx))]"

text \<open>
  \<open>json.Marshal\<close> fails when one of the two times has no four-digit year; \<open>marshal_error\<close> is the
  text of that error, which is Go's own.
\<close>

definition marshal_error :: string where
  "marshal_error = ''json: error calling MarshalJSON for type time.Time: ''
    @ ''Time.MarshalJSON: year outside of range [0,9999]''"

definition new_transaction_received ::
  "('d, 'a) lib_scheme \<Rightarrow> 'd transaction \<Rightarrow> uuid \<Rightarrow> string + event" where
  "new_transaction_received L tx event_id =
    (if \<not> time_json_ok (time_utc (tx_occurred_at tx)) \<or> \<not> time_json_ok (time_utc (tx_received_at tx))
     then Inl (''marshal transaction.received event: '' @ marshal_error)
     else Inr
       \<lparr>ev_id = event_id, ev_type = event_type_transaction_received, ev_aggregate_id = tx_id tx,
        ev_payload = json_members (transaction_received L tx event_id),
        ev_created_at = time_utc (tx_received_at tx)\<rparr>)"

lemmas outbox_eval [model_defs] =
  event_type_transaction_received_def time_member_def transaction_received_def marshal_error_def
  new_transaction_received_def

lemma new_transaction_received_Inr:
  "new_transaction_received L tx i = Inr e \<Longrightarrow>
    ev_id e = i \<and> ev_aggregate_id e = tx_id tx \<and> ev_type e = event_type_transaction_received
      \<and> ev_created_at e = time_utc (tx_received_at tx)
      \<and> time_json_ok (time_utc (tx_occurred_at tx))"
  by (auto simp: new_transaction_received_def split: if_splits)

text \<open>
  The text of a member of the body, by its name. No name occurs twice, so this is the member a
  reader of the body finds.
\<close>

definition member_of :: "string \<Rightarrow> (string \<times> string) list \<Rightarrow> string option" where
  "member_of name ms = map_of ms name"

lemma member_of_omit_empty [simp]:
  "map_of (omit_empty name v) k = (if k = name \<and> v \<noteq> [] then Some (json_string v) else None)"
  by (simp add: omit_empty_def quoted_member_def)

lemma member_of_omit_empty_map [simp]:
  "k \<noteq> name \<Longrightarrow> map_of (omit_empty_map name m) k = None"
  by (auto simp: omit_empty_map_def split: option.splits)

lemma received_amount_member:
  "member_of ''base_amount'' (transaction_received L tx i) =
    Some (json_string (dec_fixed L (amt_value (tx_base_amount tx))
      (sint (cur_exponent (amt_currency (tx_base_amount tx))))))"
  by (auto simp: member_of_def transaction_received_def quoted_member_def time_member_def
      map_add_def split: option.splits)

lemma received_id_members:
  "member_of ''event_id'' (transaction_received L tx i) = Some (json_string (uuid_string L i))"
  "member_of ''transaction_id'' (transaction_received L tx i)
    = Some (json_string (uuid_string L (tx_id tx)))"
  by (simp_all add: member_of_def transaction_received_def quoted_member_def)

section \<open>Properties\<close>

text \<open>For an accepted transaction the event can be built exactly when both its times have a
  four-digit year. It is then about that transaction, carries the given event id, and its amount
  is written between quotes at the currency's full precision, as a numeral that parses back to
  an equal amount.\<close>

theorem event_announces_transaction:
  assumes "decimal_ok L v" and "tx_ok L tx" and "length (amt_as_received (tx_base_amount tx)) < 2 ^ 31"
    and "time_json_ok (time_utc (tx_occurred_at tx))"
    and "time_json_ok (time_utc (tx_received_at tx))"
  shows "\<exists>e t b. new_transaction_received L tx i = Inr e \<and> ev_id e = i
    \<and> ev_aggregate_id e = tx_id tx
    \<and> ev_payload e = json_members (transaction_received L tx i)
    \<and> member_of ''event_id'' (transaction_received L tx i) = Some (json_string (uuid_string L i))
    \<and> member_of ''base_amount'' (transaction_received L tx i) = Some ([CHR 0x22] @ t @ [CHR 0x22])
    \<and> parse L t (amt_currency (tx_base_amount tx)) = Inr b
    \<and> amount_equal L b (tx_base_amount tx)
    \<and> length (frac_part t) = nat (sint (cur_exponent (amt_currency (tx_base_amount tx))))"
proof -
  let ?a = "tx_base_amount tx" and ?c = "amt_currency (tx_base_amount tx)"
  let ?t = "dec_fixed L (amt_value ?a) (sint (cur_exponent ?c))"
  have parsed: "parse L (amt_as_received ?a) ?c = Inr ?a" using assms(2) by (simp add: tx_ok_def)
  obtain b where b: "parse L ?t ?c = Inr b" "v (amt_value b) = v (amt_value ?a)"
    and places: "length (frac_part ?t) = nat (sint (cur_exponent ?c))"
    using dec_fixed_parses [OF assms(1) parsed assms(3)] by blast
  then have eq: "amount_equal L b ?a"
    by (simp add: amount_equal_def decimal_ok_equal [OF assms(1)] parse_Inr_iff)
  have "list_all num_char ?t" using b(1) is_numeral_chars by (auto simp: parse_Inr_iff)
  then have "list_all plain_char ?t" by (auto simp: list_all_iff num_char_def plain_char_def)
  then have "member_of ''base_amount'' (transaction_received L tx i)
      = Some ([CHR 0x22] @ ?t @ [CHR 0x22])"
    by (simp only: received_amount_member json_string_plain)
  with b(1) places eq assms(4,5) show ?thesis
    by (auto simp: new_transaction_received_def received_id_members)
qed

theorem event_announces_transaction_witness:
  "tx_ok ref_lib demo_tx \<and> (\<exists>e. new_transaction_received ref_lib demo_tx 3 = Inr e \<and> ev_id e = 3)"
proof -
  have "length (amt_as_received (tx_base_amount demo_tx)) < 2 ^ 31" "time_json_ok (time_utc (tx_occurred_at demo_tx))"
    "time_json_ok (time_utc (tx_received_at demo_tx))" by code_simp+
  from event_announces_transaction [OF ref_lib_ok demo_tx_ok this, of 3] demo_tx_ok
  show ?thesis by blast
qed

end
