(* ===== verification/Database.thy ===== *)
theory Database
  imports Outbox
begin

text \<open>
  The schema of \<open>db/migrations\<close> and the SQL statements of the store. A table is the list of
  its rows in insertion order; each statement is a function on the tables that checks what the
  schema declares: the type of each column, the \<open>CHECK\<close> constraints, the unique keys. A
  \<open>TIMESTAMPTZ\<close> keeps microseconds, a \<open>NUMERIC(19, 4)\<close> is a rational rounded to four places, and a
  \<open>TEXT\<close> is UTF-8 without the zero byte. What can go wrong in talking to the server is a
  parameter.
\<close>

section \<open>Tables\<close>

record tx_row =
  row_id :: uuid
  row_source :: string
  row_source_reference :: string
  row_type :: string
  row_occurred_at :: gotime
  row_received_at :: gotime
  row_plate_number :: "string option"
  row_plate_jurisdiction :: "string option"
  row_plate_number_key :: "string option"
  row_plate_jurisdiction_key :: "string option"
  row_transponder_number :: "string option"
  row_transponder_number_key :: "string option"
  row_base_amount :: rat
  row_base_amount_text :: string
  row_currency :: string
  row_location :: "json_obj option"
  row_metadata :: "json_obj option"
  row_association :: association_status
  row_settlement :: settlement_status
  row_fingerprint :: string

record outbox_row =
  ob_id :: nat
  ob_event_id :: uuid
  ob_event_type :: string
  ob_aggregate_id :: uuid
  ob_payload :: string
  ob_created_at :: gotime
  ob_published_at :: "gotime option"
  ob_attempts :: int
  ob_last_error :: "string option"
  ob_next_attempt_at :: gotime

text \<open>\<open>db_seq\<close> is the sequence of the \<open>BIGSERIAL\<close> key: it is not rolled back.\<close>

record db =
  db_transactions :: "tx_row list"
  db_outbox :: "outbox_row list"
  db_seq :: nat

definition db_empty :: db where
  "db_empty = \<lparr>db_transactions = [], db_outbox = [], db_seq = 1\<rparr>"

section \<open>Column values\<close>

definition pg_time :: "gotime \<Rightarrow> gotime" where
  "pg_time t = \<lparr>t_ns = t_ns t div 1000 * 1000, t_off = 0\<rparr>"

definition numeric_19_4 :: "('d, 'a) lib_scheme \<Rightarrow> 'd \<Rightarrow> rat" where
  "numeric_19_4 L d = numeral_val (dec_fixed L d 4)"

definition pg_text_ok :: "string \<Rightarrow> bool" where
  "pg_text_ok s \<longleftrightarrow> CHR 0x00 \<notin> set s \<and> utf8_valid s"

definition pg_text_opt_ok :: "string option \<Rightarrow> bool" where
  "pg_text_opt_ok s = (case s of None \<Rightarrow> True | Some t \<Rightarrow> pg_text_ok t)"

text \<open>A \<open>JSONB\<close> value holds no string with the zero character.\<close>

fun json_storable :: "json \<Rightarrow> bool" where
  "json_storable JNull = True"
| "json_storable (JBool b) = True"
| "json_storable (JNum n) = True"
| "json_storable (JStr s) \<longleftrightarrow> CHR 0x00 \<notin> set s"
| "json_storable (JArr xs) \<longleftrightarrow> (\<forall>x \<in> set xs. json_storable x)"
| "json_storable (JObj kvs) \<longleftrightarrow> (\<forall>(k, v) \<in> set kvs. CHR 0x00 \<notin> set k \<and> json_storable v)"

definition pg_json_ok :: "json_obj option \<Rightarrow> bool" where
  "pg_json_ok m = (case m of None \<Rightarrow> True | Some kvs \<Rightarrow> json_storable (JObj kvs))"

section \<open>Statements\<close>

text \<open>What the server refuses; how it words it is a parameter of the operations that report it.\<close>

datatype sql_error =
    Encoding_Error
  | Jsonb_Error
  | Numeric_Overflow
  | Check_Violation string
  | Unique_Violation string

definition row_texts_ok :: "tx_row \<Rightarrow> bool" where
  "row_texts_ok r \<longleftrightarrow>
    list_all pg_text_ok
      [row_source r, row_source_reference r, row_type r, row_base_amount_text r, row_currency r,
       row_fingerprint r]
    \<and> list_all pg_text_opt_ok
      [row_plate_number r, row_plate_jurisdiction r, row_plate_number_key r,
       row_plate_jurisdiction_key r, row_transponder_number r, row_transponder_number_key r]"

text \<open>The types and \<open>CHECK\<close> constraints of \<open>transactions\<close>: the error of the first that fails.\<close>

definition row_error :: "tx_row \<Rightarrow> sql_error option" where
  "row_error r =
    (if \<not> row_texts_ok r then Some Encoding_Error
     else if \<not> pg_json_ok (row_location r) \<or> \<not> pg_json_ok (row_metadata r) then Some Jsonb_Error
     else if 10 ^ 15 \<le> \<bar>row_base_amount r\<bar> then Some Numeric_Overflow
     else if row_base_amount r < 0 then Some (Check_Violation ''transactions_amount_not_negative'')
     else if row_plate_number_key r = None \<and> row_transponder_number_key r = None
     then Some (Check_Violation ''transactions_requires_identifier'')
     else None)"

definition row_key :: "tx_row \<Rightarrow> key" where
  "row_key r = \<lparr>key_source = row_source r, key_source_reference = row_source_reference r\<rparr>"

text \<open>
  \<open>INSERT ... ON CONFLICT ON CONSTRAINT transactions_idempotency_key DO NOTHING RETURNING id\<close>:
  the table with the new row, or no row when the key is taken. The conflict clause names the
  idempotency key, so a primary key already in use is an error.
\<close>

definition insert_transaction :: "tx_row \<Rightarrow> tx_row list \<Rightarrow> sql_error + tx_row list option" where
  "insert_transaction r rows =
    (case row_error r of
       Some e \<Rightarrow> Inl e
     | None \<Rightarrow>
         if list_ex (\<lambda>q. row_key q = row_key r) rows then Inr None
         else if list_ex (\<lambda>q. row_id q = row_id r) rows then Inl (Unique_Violation ''transactions_pkey'')
         else Inr (Some (rows @ [r])))"

definition select_by_key :: "key \<Rightarrow> tx_row list \<Rightarrow> tx_row option" where
  "select_by_key k rows = find (\<lambda>r. row_key r = k) rows"

text \<open>
  \<open>INSERT INTO outbox_events\<close> with the defaults of the columns it leaves out: the next number of
  the sequence, no publication, no attempts, due now.
\<close>

definition insert_outbox_event :: "gotime \<Rightarrow> event \<Rightarrow> db \<Rightarrow> sql_error option \<times> db" where
  "insert_outbox_event now e d =
    (let row = \<lparr>ob_id = db_seq d, ob_event_id = ev_id e, ob_event_type = ev_type e,
           ob_aggregate_id = ev_aggregate_id e, ob_payload = ev_payload e,
           ob_created_at = pg_time (ev_created_at e), ob_published_at = None, ob_attempts = 0,
           ob_last_error = None, ob_next_attempt_at = pg_time now\<rparr>;
         d1 = d\<lparr>db_seq := Suc (db_seq d)\<rparr>
     in if list_ex (\<lambda>q. ob_event_id q = ev_id e) (db_outbox d)
        then (Some (Unique_Violation ''outbox_events_event_id_key''), d1)
        else (None, d1\<lparr>db_outbox := db_outbox d @ [row]\<rparr>))"

lemmas database_eval [model_defs] =
  db_empty_def pg_time_def numeric_19_4_def pg_text_ok_def pg_text_opt_ok_def
  pg_json_ok_def
  row_texts_ok_def row_error_def row_key_def insert_transaction_def select_by_key_def
  insert_outbox_event_def

lemma pg_time_off [simp]: "t_off (pg_time t) = 0"
  by (simp add: pg_time_def)

lemma pg_time_utc [simp]: "time_utc (pg_time t) = pg_time t"
  by (simp add: pg_time_def time_utc_def)

lemma pg_time_idem [simp]: "pg_time (pg_time t) = pg_time t"
  by (simp add: pg_time_def)

lemma pg_time_close: "t_ns (pg_time t) \<le> t_ns t \<and> t_ns t < t_ns (pg_time t) + 1000"
  by (simp add: pg_time_def minus_mod_eq_div_mult [symmetric])

end
