(* ===== verification/Postgres_Store.thy ===== *)
theory Postgres_Store
  imports Database Store
begin

text \<open>
  \<open>internal/store/postgres/postgres.go\<close>: \<open>Ingest\<close> and the lookup by key over the tables of
  \<^theory_text>\<open>Database\<close>. What each call to the server does besides its statement is the record
  \<open>ingest_env\<close>: it may fail before the statement is run, and a commit may be refused, or done
  with its acknowledgement lost.
\<close>

datatype commit_result =
    Commit_Done
  | Commit_Refused string
  | Commit_Unacknowledged string

record ingest_env =
  env_begin :: "string option"
  env_insert :: "string option"
  env_select :: "string option"
  env_event_id :: "string + uuid"
  env_outbox :: "string option"
  env_commit :: commit_result
  env_now :: gotime
  env_wording :: "sql_error \<Rightarrow> string"

section \<open>Rows\<close>

definition plate_number :: "'d transaction \<Rightarrow> string" where
  "plate_number t = (case tx_plate t of None \<Rightarrow> [] | Some p \<Rightarrow> pl_number p)"

definition plate_jurisdiction :: "'d transaction \<Rightarrow> string" where
  "plate_jurisdiction t = (case tx_plate t of None \<Rightarrow> [] | Some p \<Rightarrow> pl_jurisdiction p)"

definition plate_number_key :: "'d transaction \<Rightarrow> string" where
  "plate_number_key t = (case tx_plate t of None \<Rightarrow> [] | Some p \<Rightarrow> pl_number_key p)"

definition plate_jurisdiction_key :: "'d transaction \<Rightarrow> string" where
  "plate_jurisdiction_key t = (case tx_plate t of None \<Rightarrow> [] | Some p \<Rightarrow> pl_jurisdiction_key p)"

definition transponder_number :: "'d transaction \<Rightarrow> string" where
  "transponder_number t = (case tx_transponder t of None \<Rightarrow> [] | Some n \<Rightarrow> tr_number n)"

definition transponder_number_key :: "'d transaction \<Rightarrow> string" where
  "transponder_number_key t = (case tx_transponder t of None \<Rightarrow> [] | Some n \<Rightarrow> tr_number_key n)"

definition nullable :: "string \<Rightarrow> string option" where
  "nullable s = (if s = [] then None else Some s)"

definition deref :: "string option \<Rightarrow> string" where
  "deref s = (case s of None \<Rightarrow> [] | Some t \<Rightarrow> t)"

definition row_of :: "('d, 'a) lib_scheme \<Rightarrow> 'd transaction \<Rightarrow> string \<Rightarrow> tx_row" where
  "row_of L t fp =
    \<lparr>row_id = tx_id t, row_source = tx_source t, row_source_reference = tx_source_reference t,
     row_type = tx_type t, row_occurred_at = pg_time (tx_occurred_at t),
     row_received_at = pg_time (tx_received_at t),
     row_plate_number = nullable (plate_number t),
     row_plate_jurisdiction = nullable (plate_jurisdiction t),
     row_plate_number_key = nullable (plate_number_key t),
     row_plate_jurisdiction_key = nullable (plate_jurisdiction_key t),
     row_transponder_number = nullable (transponder_number t),
     row_transponder_number_key = nullable (transponder_number_key t),
     row_base_amount = numeric_19_4 L (amt_value (tx_base_amount t)),
     row_base_amount_text = amt_as_received (tx_base_amount t),
     row_currency = cur_code (amt_currency (tx_base_amount t)),
     row_location = tx_location t, row_metadata = tx_metadata t,
     row_association = tx_association t, row_settlement = tx_settlement t,
     row_fingerprint = fp\<rparr>"

section \<open>Reading back\<close>

text \<open>The part of \<open>getByKeyTx\<close> after the scan: the row as a transaction.\<close>

definition tx_of_row :: "('d, 'a) lib_scheme \<Rightarrow> tx_row \<Rightarrow> string + 'd transaction \<times> string" where
  "tx_of_row L r =
    (case lookup L (row_currency r) of
       None \<Rightarrow> Inl (''stored currency '' @ quote L (row_currency r) @ '' is not recognised'')
     | Some c \<Rightarrow>
         (case parse L (row_base_amount_text r) c of
            Inl e \<Rightarrow> Inl (''parse stored amount '' @ quote L (row_base_amount_text r) @ '': ''
              @ money_error_text e)
          | Inr a \<Rightarrow> Inr
              (\<lparr>tx_id = row_id r, tx_source = row_source r,
                tx_source_reference = row_source_reference r, tx_type = row_type r,
                tx_occurred_at = time_utc (row_occurred_at r),
                tx_received_at = time_utc (row_received_at r),
                tx_plate =
                  (case row_plate_number r of
                     None \<Rightarrow> None
                   | Some n \<Rightarrow> Some
                       \<lparr>pl_number = n, pl_jurisdiction = deref (row_plate_jurisdiction r),
                        pl_number_key = deref (row_plate_number_key r),
                        pl_jurisdiction_key = deref (row_plate_jurisdiction_key r)\<rparr>),
                tx_transponder =
                  (case row_transponder_number r of
                     None \<Rightarrow> None
                   | Some n \<Rightarrow> Some
                       \<lparr>tr_number = n, tr_number_key = deref (row_transponder_number_key r)\<rparr>),
                tx_base_amount = a, tx_location = row_location r, tx_metadata = row_metadata r,
                tx_association = row_association r, tx_settlement = row_settlement r\<rparr>,
               row_fingerprint r)))"

definition get_by_key_tx ::
  "('d, 'a) lib_scheme \<Rightarrow> string option \<Rightarrow> db \<Rightarrow> key \<Rightarrow> string + 'd transaction \<times> string" where
  "get_by_key_tx L failure d k =
    (case failure of
       Some e \<Rightarrow> Inl (''scan transaction: '' @ e)
     | None \<Rightarrow>
         (case select_by_key k (db_transactions d) of
            None \<Rightarrow> Inl err_not_found
          | Some r \<Rightarrow> tx_of_row L r))"

definition pg_get ::
  "('d, 'a) lib_scheme \<Rightarrow> string option \<Rightarrow> db \<Rightarrow> key \<Rightarrow> string + 'd transaction" where
  "pg_get L failure d k = map_sum id fst (get_by_key_tx L failure d k)"

section \<open>Ingest\<close>

definition write_outbox_event ::
  "('d, 'a) lib_scheme \<Rightarrow> ingest_env \<Rightarrow> db \<Rightarrow> 'd transaction \<Rightarrow> string option \<times> db" where
  "write_outbox_event L env d tx =
    (case env_event_id env of
       Inl e \<Rightarrow> (Some (''generate event id: '' @ e), d)
     | Inr event_id \<Rightarrow>
         (case new_transaction_received L tx event_id of
            Inl e \<Rightarrow> (Some (''build outbox event: '' @ e), d)
          | Inr ev \<Rightarrow>
              (case env_outbox env of
                 Some e \<Rightarrow> (Some (''queue outbox event: '' @ e), d)
               | None \<Rightarrow>
                   (case insert_outbox_event (env_now env) ev d of
                      (Some e, d1) \<Rightarrow> (Some (''queue outbox event: '' @ env_wording env e), d1)
                    | (None, d1) \<Rightarrow> (None, d1)))))"

definition ingest_in_tx ::
  "('d, 'a) lib_scheme \<Rightarrow> ingest_env \<Rightarrow> db \<Rightarrow> 'd transaction
    \<Rightarrow> (string + 'd ingest_outcome) \<times> db" where
  "ingest_in_tx L env d tx =
    (let fp = fingerprint L tx in
     case env_insert env of
       Some e \<Rightarrow> (Inl (''insert transaction: '' @ e), d)
     | None \<Rightarrow>
         (case insert_transaction (row_of L tx fp) (db_transactions d) of
            Inl e \<Rightarrow> (Inl (''insert transaction: '' @ env_wording env e), d)
          | Inr (Some rows) \<Rightarrow>
              (case write_outbox_event L env (d\<lparr>db_transactions := rows\<rparr>) tx of
                 (Some e, d1) \<Rightarrow> (Inl e, d1)
               | (None, d1) \<Rightarrow>
                   (Inr \<lparr>out_transaction = tx, out_duplicate = False, out_divergent = False\<rparr>, d1))
          | Inr None \<Rightarrow>
              (case get_by_key_tx L (env_select env) d (key_of tx) of
                 Inl e \<Rightarrow> (Inl (''read existing transaction: '' @ e), d)
               | Inr (existing, stored) \<Rightarrow>
                   (Inr \<lparr>out_transaction = existing, out_duplicate = True,
                      out_divergent = (stored \<noteq> fp)\<rparr>, d))))"

text \<open>A rollback undoes the rows and not the sequence.\<close>

definition roll_back :: "db \<Rightarrow> db \<Rightarrow> db" where
  "roll_back d d1 = d\<lparr>db_seq := db_seq d1\<rparr>"

definition pg_ingest ::
  "('d, 'a) lib_scheme \<Rightarrow> ingest_env \<Rightarrow> db \<Rightarrow> 'd transaction
    \<Rightarrow> (string + 'd ingest_outcome) \<times> db" where
  "pg_ingest L env d tx =
    (case env_begin env of
       Some e \<Rightarrow> (Inl (''begin transaction: '' @ e), d)
     | None \<Rightarrow>
         (case ingest_in_tx L env d tx of
            (Inl e, d1) \<Rightarrow> (Inl e, roll_back d d1)
          | (Inr out, d1) \<Rightarrow>
              (case env_commit env of
                 Commit_Done \<Rightarrow> (Inr out, d1)
               | Commit_Refused e \<Rightarrow> (Inl (''commit transaction: '' @ e), roll_back d d1)
               | Commit_Unacknowledged e \<Rightarrow> (Inl (''commit transaction: '' @ e), d1))))"

lemmas postgres_eval [model_defs] =
  plate_number_def plate_jurisdiction_def plate_number_key_def plate_jurisdiction_key_def
  transponder_number_def transponder_number_key_def nullable_def deref_def row_of_def
  tx_of_row_def get_by_key_tx_def pg_get_def write_outbox_event_def ingest_in_tx_def
  roll_back_def pg_ingest_def

section \<open>A row is read back as it was written\<close>

text \<open>
  The transactions the table is for: the accepted ones in a currency of the table. What is read
  back is the transaction with its two times cut to the microsecond.
\<close>

definition pg_admits :: "('d, 'a) lib_scheme \<Rightarrow> 'd transaction \<Rightarrow> bool" where
  "pg_admits L t \<longleftrightarrow> tx_ok L t
    \<and> lookup L (cur_code (amt_currency (tx_base_amount t))) = Some (amt_currency (tx_base_amount t))"

definition pg_view :: "'d transaction \<Rightarrow> 'd transaction" where
  "pg_view t = t\<lparr>tx_occurred_at := pg_time (tx_occurred_at t),
    tx_received_at := pg_time (tx_received_at t)\<rparr>"

lemma pg_view_key [simp]: "key_of (pg_view t) = key_of t"
  by (simp add: pg_view_def key_of_def)

lemma row_key_row_of [simp]: "row_key (row_of L t fp) = key_of t"
  by (simp add: row_key_def row_of_def key_of_def)

lemma row_id_row_of [simp]: "row_id (row_of L t fp) = tx_id t"
  by (simp add: row_of_def)

lemma deref_nullable [simp]: "deref (nullable s) = s"
  by (simp add: deref_def nullable_def)

lemma row_plate_back:
  assumes "tx_ok L t"
  shows "(case nullable (plate_number t) of
      None \<Rightarrow> None
    | Some n \<Rightarrow> Some \<lparr>pl_number = n, pl_jurisdiction = plate_jurisdiction t,
        pl_number_key = plate_number_key t, pl_jurisdiction_key = plate_jurisdiction_key t\<rparr>)
    = tx_plate t"
proof (cases "tx_plate t")
  case (Some p)
  then have "\<not> plate_is_empty p" and "p = new_plate (pl_number p) (pl_jurisdiction p)"
    using assms by (simp_all add: tx_ok_def)
  then have "pl_number p \<noteq> []"
    by (metis canonicalize.simps(1) new_plate_def plate.select_convs(3) plate_is_empty_def)
  with Some show ?thesis
    by (simp add: nullable_def plate_number_def plate_jurisdiction_def plate_number_key_def
        plate_jurisdiction_key_def)
qed (simp add: nullable_def plate_number_def)

lemma row_transponder_back:
  assumes "tx_ok L t"
  shows "(case nullable (transponder_number t) of
      None \<Rightarrow> None
    | Some n \<Rightarrow> Some \<lparr>tr_number = n, tr_number_key = transponder_number_key t\<rparr>)
    = tx_transponder t"
proof (cases "tx_transponder t")
  case (Some n)
  then have "\<not> transponder_is_empty n" and "n = new_transponder (tr_number n)"
    using assms by (simp_all add: tx_ok_def)
  then have "tr_number n \<noteq> []"
    by (metis canonicalize.simps(1) new_transponder_def transponder.select_convs(2)
        transponder_is_empty_def)
  with Some show ?thesis
    by (simp add: nullable_def transponder_number_def transponder_number_key_def)
qed (simp add: nullable_def transponder_number_def)

lemma tx_of_row_row_of:
  assumes "pg_admits L t"
  shows "tx_of_row L (row_of L t fp) = Inr (pg_view t, fp)"
proof -
  have ok: "tx_ok L t" using assms by (simp add: pg_admits_def)
  then have "parse L (amt_as_received (tx_base_amount t)) (amt_currency (tx_base_amount t))
      = Inr (tx_base_amount t)" by (simp add: tx_ok_def)
  with assms show ?thesis
    using row_plate_back [OF ok] row_transponder_back [OF ok]
    by (simp add: tx_of_row_def row_of_def pg_admits_def pg_view_def cong: option.case_cong)
qed

lemma identifier_present:
  assumes "tx_ok L t"
  shows "row_plate_number_key (row_of L t fp) \<noteq> None \<or> row_transponder_number_key (row_of L t fp) \<noteq> None"
  using assms
  by (auto simp: tx_ok_def has_plate_def has_transponder_def row_of_def nullable_def
      plate_number_key_def transponder_number_key_def plate_is_empty_def transponder_is_empty_def
      split: option.splits)

text \<open>The column holds the exact value when it has at most four places.\<close>

lemma numeric_exact:
  assumes "decimal_ok L v" and "v d * 10 ^ 4 = of_int m"
  shows "numeric_19_4 L d = v d"
  using decimal_ok_fixed [OF assms(1), of 4 d m] assms(2) by (simp add: numeric_19_4_def)

section \<open>The invariant\<close>

text \<open>
  The tables hold the transactions \<open>ts\<close>: a row each, in order, under different keys and ids, and
  exactly one outbox event about each, numbered in the same order.
\<close>

definition db_holds :: "('d, 'a) lib_scheme \<Rightarrow> db \<Rightarrow> 'd transaction list \<Rightarrow> bool" where
  "db_holds L d ts \<longleftrightarrow>
    db_transactions d = map (\<lambda>t. row_of L t (fingerprint L t)) ts
    \<and> list_all (pg_admits L) ts \<and> distinct (map key_of ts) \<and> distinct (map tx_id ts)
    \<and> map ob_aggregate_id (db_outbox d) = map tx_id ts
    \<and> distinct (map ob_event_id (db_outbox d))
    \<and> sorted_wrt (<) (map ob_id (db_outbox d))
    \<and> list_all (\<lambda>i. i < db_seq d) (map ob_id (db_outbox d))"

lemma db_holds_empty: "db_holds L db_empty []"
  by (simp add: db_holds_def db_empty_def)

lemma select_by_key_rows:
  "select_by_key k (map (\<lambda>t. row_of L t (fingerprint L t)) ts)
    = map_option (\<lambda>t. row_of L t (fingerprint L t)) (find (\<lambda>t. key_of t = k) ts)"
  unfolding select_by_key_def by (induction ts) simp_all

text \<open>What a read finds in tables that hold \<open>ts\<close>.\<close>

lemma get_by_key_rows:
  assumes "db_transactions d = map (\<lambda>t. row_of L t (fingerprint L t)) ts"
    and "list_all (pg_admits L) ts"
  shows "get_by_key_tx L None d k =
    (case find (\<lambda>t. key_of t = k) ts of
       None \<Rightarrow> Inl err_not_found | Some t \<Rightarrow> Inr (pg_view t, fingerprint L t))"
proof (cases "find (\<lambda>t. key_of t = k) ts")
  case None
  then show ?thesis using assms by (simp add: get_by_key_tx_def select_by_key_rows)
next
  case (Some t)
  then have "t \<in> set ts" by (auto simp: find_Some_iff)
  then have "pg_admits L t" using assms by (simp add: list_all_iff)
  then show ?thesis
    using assms Some by (simp add: get_by_key_tx_def select_by_key_rows tx_of_row_row_of)
qed

lemma get_by_key_holds:
  "db_holds L d ts \<Longrightarrow> get_by_key_tx L None d k =
    (case find (\<lambda>t. key_of t = k) ts of
       None \<Rightarrow> Inl err_not_found | Some t \<Rightarrow> Inr (pg_view t, fingerprint L t))"
  by (rule get_by_key_rows) (simp_all add: db_holds_def)

section \<open>The outcomes of an ingest\<close>

definition event_row :: "gotime \<Rightarrow> nat \<Rightarrow> event \<Rightarrow> outbox_row" where
  "event_row now n e =
    \<lparr>ob_id = n, ob_event_id = ev_id e, ob_event_type = ev_type e,
     ob_aggregate_id = ev_aggregate_id e, ob_payload = ev_payload e,
     ob_created_at = pg_time (ev_created_at e), ob_published_at = None, ob_attempts = 0,
     ob_last_error = None, ob_next_attempt_at = pg_time now\<rparr>"

text \<open>The tables after a transaction and its event were written together.\<close>

definition holds_new :: "('d, 'a) lib_scheme \<Rightarrow> ingest_env \<Rightarrow> db \<Rightarrow> 'd transaction \<Rightarrow> db \<Rightarrow> bool" where
  "holds_new L env d t d' \<longleftrightarrow>
    (\<exists>i e. env_event_id env = Inr i \<and> new_transaction_received L t i = Inr e
      \<and> row_error (row_of L t (fingerprint L t)) = None
      \<and> (\<forall>q \<in> set (db_transactions d). row_key q \<noteq> key_of t \<and> row_id q \<noteq> tx_id t)
      \<and> (\<forall>q \<in> set (db_outbox d). ob_event_id q \<noteq> i)
      \<and> d' = \<lparr>db_transactions = db_transactions d @ [row_of L t (fingerprint L t)],
            db_outbox = db_outbox d @ [event_row (env_now env) (db_seq d) e],
            db_seq = Suc (db_seq d)\<rparr>)"

text \<open>Tables that differ at most in the sequence, which never goes back.\<close>

definition same_tables :: "db \<Rightarrow> db \<Rightarrow> bool" where
  "same_tables d d' \<longleftrightarrow> db_transactions d' = db_transactions d \<and> db_outbox d' = db_outbox d
    \<and> db_seq d \<le> db_seq d'"

lemma same_tables_refl [simp]: "same_tables d d"
  by (simp add: same_tables_def)

lemma insert_transaction_new:
  "insert_transaction r rows = Inr (Some rows') \<longleftrightarrow>
    row_error r = None \<and> (\<forall>q \<in> set rows. row_key q \<noteq> row_key r \<and> row_id q \<noteq> row_id r)
      \<and> rows' = rows @ [r]"
  by (auto simp: insert_transaction_def list_ex_iff split: option.splits)

lemma insert_transaction_known:
  "insert_transaction r rows = Inr None \<longleftrightarrow>
    row_error r = None \<and> (\<exists>q \<in> set rows. row_key q = row_key r)"
  by (auto simp: insert_transaction_def list_ex_iff split: option.splits)

lemma write_outbox_event_cases:
  assumes "write_outbox_event L env d t = (r, d')"
  shows "r \<noteq> None \<and> same_tables d d'
    \<or> r = None \<and> (\<exists>i e. env_event_id env = Inr i \<and> new_transaction_received L t i = Inr e
      \<and> (\<forall>q \<in> set (db_outbox d). ob_event_id q \<noteq> i)
      \<and> d' = d\<lparr>db_outbox := db_outbox d @ [event_row (env_now env) (db_seq d) e],
                db_seq := Suc (db_seq d)\<rparr>)"
  using assms
  by (auto simp: write_outbox_event_def insert_outbox_event_def Let_def event_row_def
      same_tables_def list_ex_iff new_transaction_received_def
      split: sum.splits option.splits if_splits)

definition answer_new :: "'d transaction \<Rightarrow> string + 'd ingest_outcome" where
  "answer_new t = Inr \<lparr>out_transaction = t, out_duplicate = False, out_divergent = False\<rparr>"

text \<open>The answer for a key that is taken: what the tables hold under it.\<close>

definition answers_known ::
  "('d, 'a) lib_scheme \<Rightarrow> db \<Rightarrow> 'd transaction \<Rightarrow> string + 'd ingest_outcome \<Rightarrow> bool" where
  "answers_known L d t r \<longleftrightarrow> (\<exists>u fp. get_by_key_tx L None d (key_of t) = Inr (u, fp)
    \<and> r = Inr \<lparr>out_transaction = u, out_duplicate = True, out_divergent = (fp \<noteq> fingerprint L t)\<rparr>)"

lemma ingest_in_tx_cases:
  assumes "ingest_in_tx L env d t = (r, d')"
  shows "(\<exists>e. r = Inl e) \<and> same_tables d d'
      \<or> (\<exists>e. r = Inl e) \<and> same_tables (d\<lparr>db_transactions := db_transactions d @ [row_of L t (fingerprint L t)]\<rparr>) d'
      \<or> r = answer_new t \<and> holds_new L env d t d'
      \<or> answers_known L d t r \<and> d' = d"
proof -
  let ?row = "row_of L t (fingerprint L t)"
  let ?ins = "insert_transaction ?row (db_transactions d)"
  consider (call) e where "env_insert env = Some e"
    | (refused) e where "env_insert env = None" "?ins = Inl e"
    | (known) "env_insert env = None" "?ins = Inr None"
    | (new) rows where "env_insert env = None" "?ins = Inr (Some rows)"
    by (metis not_Some_eq old.sum.exhaust)
  then show ?thesis
  proof cases
    case known
    have "answers_known L d t r \<and> d' = d \<or> (\<exists>e. r = Inl e) \<and> d' = d"
    proof (cases "get_by_key_tx L (env_select env) d (key_of t)")
      case (Inl e)
      then show ?thesis using assms known by (auto simp: ingest_in_tx_def Let_def)
    next
      case (Inr p)
      then have "get_by_key_tx L None d (key_of t) = Inr p"
        by (simp add: get_by_key_tx_def split: option.splits)
      then show ?thesis
        using assms known Inr by (cases p) (simp add: ingest_in_tx_def Let_def answers_known_def)
    qed
    then show ?thesis by auto
  next
    case new
    let ?d = "d\<lparr>db_transactions := rows\<rparr>"
    obtain x d1 where w: "write_outbox_event L env ?d t = (x, d1)" by fastforce
    have row: "row_error ?row = None"
        "\<forall>q \<in> set (db_transactions d). row_key q \<noteq> key_of t \<and> row_id q \<noteq> tx_id t"
        "rows = db_transactions d @ [?row]"
      using new(2) by (simp_all add: insert_transaction_new)
    have "(r, d') = (case x of Some e \<Rightarrow> (Inl e, d1) | None \<Rightarrow> (answer_new t, d1))"
      using assms new w by (simp add: ingest_in_tx_def Let_def answer_new_def split: option.splits)
    then show ?thesis
      using write_outbox_event_cases [OF w] row
      by (cases x) (auto simp: holds_new_def)
  qed (use assms in \<open>auto simp: ingest_in_tx_def Let_def\<close>)
qed

lemma same_tables_roll_back:
  "same_tables (d\<lparr>db_transactions := rows\<rparr>) d1 \<or> same_tables d d1 \<or> holds_new L env d t d1 \<or> d1 = d
    \<Longrightarrow> same_tables d (roll_back d d1)"
  by (auto simp: same_tables_def roll_back_def holds_new_def)

lemma pg_ingest_cases:
  assumes "pg_ingest L env d t = (r, d')"
  shows "(\<exists>e. r = Inl e) \<and> same_tables d d'
      \<or> holds_new L env d t d' \<and> (r = answer_new t \<or> (\<exists>e. r = Inl e))
      \<or> answers_known L d t r \<and> d' = d"
proof (cases "env_begin env")
  case None
  obtain r1 d1 where step: "ingest_in_tx L env d t = (r1, d1)" by fastforce
  note cases1 = ingest_in_tx_cases [OF step]
  then have undo: "same_tables d (roll_back d d1)" using same_tables_roll_back by blast
  show ?thesis
    using assms None step cases1 undo
    by (cases r1; cases "env_commit env")
       (auto simp: pg_ingest_def answer_new_def answers_known_def)
qed (use assms in \<open>auto simp: pg_ingest_def\<close>)

text \<open>The invariant is kept, whatever fails.\<close>

lemma db_holds_same_tables: "db_holds L d ts \<Longrightarrow> same_tables d d' \<Longrightarrow> db_holds L d' ts"
  by (auto simp: db_holds_def same_tables_def list_all_iff)

lemma db_holds_recorded:
  assumes "db_holds L d ts" and "pg_admits L t" and "holds_new L env d t d'"
  shows "db_holds L d' (ts @ [t])" and "key_of t \<notin> key_of ` set ts"
proof -
  obtain i e where new: "new_transaction_received L t i = Inr e"
      "\<forall>q \<in> set (db_transactions d). row_key q \<noteq> key_of t \<and> row_id q \<noteq> tx_id t"
      "\<forall>q \<in> set (db_outbox d). ob_event_id q \<noteq> i"
      "d' = \<lparr>db_transactions = db_transactions d @ [row_of L t (fingerprint L t)],
            db_outbox = db_outbox d @ [event_row (env_now env) (db_seq d) e],
            db_seq = Suc (db_seq d)\<rparr>"
    using assms(3) unfolding holds_new_def by blast
  have keys: "key_of t \<notin> key_of ` set ts" "tx_id t \<notin> tx_id ` set ts"
    using assms(1) new(2) by (auto simp: db_holds_def)
  then show "key_of t \<notin> key_of ` set ts" by simp
  have "ev_aggregate_id e = tx_id t" "ev_id e = i" using new_transaction_received_Inr [OF new(1)] by simp_all
  then show "db_holds L d' (ts @ [t])"
    using assms(1,2) new(3,4) keys
    by (auto simp: db_holds_def event_row_def sorted_wrt_append list_all_iff)
qed

definition pg_ok :: "('d, 'a) lib_scheme \<Rightarrow> db \<Rightarrow> bool" where
  "pg_ok L d \<longleftrightarrow> (\<exists>ts. db_holds L d ts)"

lemma pg_ok_ingest:
  assumes "pg_ok L d" and "pg_admits L t" and "pg_ingest L env d t = (r, d')"
  shows "pg_ok L d'"
proof -
  obtain ts where ts: "db_holds L d ts" using assms(1) by (auto simp: pg_ok_def)
  consider "same_tables d d'" | "holds_new L env d t d'" | "d' = d"
    using pg_ingest_cases [OF assms(3)] by blast
  then show ?thesis
  proof cases
    assume "same_tables d d'"
    with ts show ?thesis unfolding pg_ok_def using db_holds_same_tables by blast
  next
    assume "holds_new L env d t d'"
    with ts assms(2) show ?thesis unfolding pg_ok_def using db_holds_recorded(1) by blast
  next
    assume "d' = d"
    with assms(1) show ?thesis by simp
  qed
qed

section \<open>The store as its clients see it\<close>

text \<open>
  The world \<open>'w\<close> decides what happens to each call; one ingest takes the next decision. The
  tables and the world together are a state of the store.
\<close>

definition pg_step ::
  "('d, 'a) lib_scheme \<Rightarrow> ('w \<Rightarrow> ingest_env \<times> 'w) \<Rightarrow> db \<times> 'w \<Rightarrow> 'd transaction
    \<Rightarrow> (string + 'd ingest_outcome) \<times> db \<times> 'w" where
  "pg_step L calls s t =
    (let (env, w') = calls (snd s); (r, d') = pg_ingest L env (fst s) t in (r, d', w'))"

definition pg_found :: "('d, 'a) lib_scheme \<Rightarrow> db \<times> 'w \<Rightarrow> key \<Rightarrow> 'd transaction option" where
  "pg_found L s k =
    (case get_by_key_tx L None (fst s) k of Inl _ \<Rightarrow> None | Inr (t, _) \<Rightarrow> Some t)"

definition pg_kept :: "('d, 'a) lib_scheme \<Rightarrow> db \<times> 'w \<Rightarrow> key \<Rightarrow> string option" where
  "pg_kept L s k =
    (case get_by_key_tx L None (fst s) k of Inl _ \<Rightarrow> None | Inr (_, fp) \<Rightarrow> Some fp)"

lemma pg_found_holds:
  assumes "db_holds L d ts"
  shows "pg_found L (d, w) k = map_option pg_view (find (\<lambda>t. key_of t = k) ts)"
    and "pg_kept L (d, w) k = map_option (fingerprint L) (find (\<lambda>t. key_of t = k) ts)"
  using get_by_key_holds [OF assms, of k]
  by (simp_all add: pg_found_def pg_kept_def split: option.splits)

lemma find_append: "find P (xs @ ys) = (case find P xs of None \<Rightarrow> find P ys | Some x \<Rightarrow> Some x)"
  by (induction xs) auto

lemma find_key_None: "find (\<lambda>t. key_of t = k) ts = None \<longleftrightarrow> k \<notin> key_of ` set ts"
  by (auto simp: find_None_iff)

lemma pg_found_recorded:
  assumes "db_holds L d ts" and "pg_admits L t" and "holds_new L env d t d'"
  shows "pg_found L (d, w) (key_of t) = None"
    and "pg_found L (d', w') = (pg_found L (d, w))(key_of t \<mapsto> pg_view t)"
    and "pg_kept L (d', w') = (pg_kept L (d, w))(key_of t \<mapsto> fingerprint L t)"
proof -
  note holds = db_holds_recorded [OF assms]
  have fresh: "find (\<lambda>u. key_of u = key_of t) ts = None" using holds(2) find_key_None by metis
  then show "pg_found L (d, w) (key_of t) = None" by (simp add: pg_found_holds [OF assms(1)])
  show "pg_found L (d', w') = (pg_found L (d, w))(key_of t \<mapsto> pg_view t)"
    "pg_kept L (d', w') = (pg_kept L (d, w))(key_of t \<mapsto> fingerprint L t)"
    using fresh
    by (auto simp: fun_eq_iff pg_found_holds [OF assms(1)] pg_found_holds [OF holds(1)] find_append
        split: option.splits)
qed

lemma get_by_key_same_tables:
  "same_tables d d' \<Longrightarrow> get_by_key_tx L None d' k = get_by_key_tx L None d k"
  by (simp add: get_by_key_tx_def same_tables_def)

lemma pg_found_same_tables:
  assumes "same_tables d d'"
  shows "pg_found L (d', w') = pg_found L (d, w)" and "pg_kept L (d', w') = pg_kept L (d, w)"
  by (simp_all add: fun_eq_iff pg_found_def pg_kept_def get_by_key_same_tables [OF assms])

lemma pg_step_cases:
  assumes "pg_ok L (fst s)" and "pg_admits L t" and "pg_step L calls s t = (r, s')"
  shows "pg_ok L (fst s')"
    and "(\<exists>e. r = Inl e) \<and> pg_found L s' = pg_found L s \<and> pg_kept L s' = pg_kept L s
      \<or> pg_found L s (key_of t) = None \<and> (r = answer_new t \<or> (\<exists>e. r = Inl e))
        \<and> pg_found L s' = (pg_found L s)(key_of t \<mapsto> pg_view t)
        \<and> pg_kept L s' = (pg_kept L s)(key_of t \<mapsto> fingerprint L t)
      \<or> answers_known L (fst s) t r \<and> pg_found L s' = pg_found L s \<and> pg_kept L s' = pg_kept L s"
proof -
  obtain d w where s: "s = (d, w)" by fastforce
  obtain env w' where env: "calls w = (env, w')" by fastforce
  obtain d' where step: "pg_ingest L env d t = (r, d')" and s': "s' = (d', w')"
    using assms(3) by (auto simp: pg_step_def s env split: prod.splits)
  obtain ts where ts: "db_holds L d ts" using assms(1) by (auto simp: pg_ok_def s)
  show "pg_ok L (fst s')" using pg_ok_ingest [OF _ assms(2) step] assms(1) by (simp add: s s')
  consider (failed) "\<exists>e. r = Inl e" "same_tables d d'"
    | (new) "holds_new L env d t d'" "r = answer_new t \<or> (\<exists>e. r = Inl e)"
    | (known) "answers_known L d t r" "d' = d"
    using pg_ingest_cases [OF step] by blast
  then show "(\<exists>e. r = Inl e) \<and> pg_found L s' = pg_found L s \<and> pg_kept L s' = pg_kept L s
      \<or> pg_found L s (key_of t) = None \<and> (r = answer_new t \<or> (\<exists>e. r = Inl e))
        \<and> pg_found L s' = (pg_found L s)(key_of t \<mapsto> pg_view t)
        \<and> pg_kept L s' = (pg_kept L s)(key_of t \<mapsto> fingerprint L t)
      \<or> answers_known L (fst s) t r \<and> pg_found L s' = pg_found L s \<and> pg_kept L s' = pg_kept L s"
  proof cases
    case failed
    note same = pg_found_same_tables [OF failed(2), of L w' w]
    show ?thesis unfolding s s' by (intro disjI1 conjI same failed(1))
  next
    case new
    note wrote = pg_found_recorded [OF ts assms(2) new(1)]
    show ?thesis unfolding s s'
      by (rule disjI2, rule disjI1) (intro conjI wrote new(2))
  next
    case known
    note same = pg_found_same_tables [OF same_tables_refl [of d], of L w' w]
    show ?thesis unfolding s s' known(2) fst_conv
      by (rule disjI2, rule disjI2) (intro conjI same known(1))
  qed
qed

lemma answers_known_found:
  "answers_known L (fst s) t r \<Longrightarrow>
    \<exists>u. pg_found L s (key_of t) = Some u \<and> r = Inr \<lparr>out_transaction = u, out_duplicate = True,
      out_divergent = (pg_kept L s (key_of t) \<noteq> Some (fingerprint L t))\<rparr>"
  by (auto simp: answers_known_def pg_found_def pg_kept_def)

lemma pg_step_new:
  assumes "pg_ok L (fst s)" and "pg_admits L t" and "pg_found L s (key_of t) = None"
    and "pg_step L calls s t = (Inr out, s')"
  shows "out = \<lparr>out_transaction = t, out_duplicate = False, out_divergent = False\<rparr>
    \<and> pg_found L s' = (pg_found L s)(key_of t \<mapsto> pg_view t)
    \<and> pg_kept L s' = (pg_kept L s)(key_of t \<mapsto> fingerprint L t)"
  using pg_step_cases(2) [OF assms(1,2,4)] answers_known_found [of L s t "Inr out"] assms(3)
  by (elim disjE) (auto simp: answer_new_def)

lemma pg_step_known:
  assumes "pg_ok L (fst s)" and "pg_admits L t" and "pg_found L s (key_of t) = Some u"
    and "pg_step L calls s t = (Inr out, s')"
  shows "out = \<lparr>out_transaction = u, out_duplicate = True,
      out_divergent = (pg_kept L s (key_of t) \<noteq> Some (fingerprint L t))\<rparr>
    \<and> pg_found L s' = pg_found L s \<and> pg_kept L s' = pg_kept L s"
  using pg_step_cases(2) [OF assms(1,2,4)] answers_known_found [of L s t "Inr out"] assms(3)
  by (elim disjE) (auto simp: answer_new_def)

lemma pg_step_error:
  assumes "pg_ok L (fst s)" and "pg_admits L t" and "pg_step L calls s t = (Inl e, s')"
  shows "pg_found L s' = pg_found L s \<and> pg_kept L s' = pg_kept L s
    \<or> pg_found L s (key_of t) = None \<and> pg_found L s' = (pg_found L s)(key_of t \<mapsto> pg_view t)
      \<and> pg_kept L s' = (pg_kept L s)(key_of t \<mapsto> fingerprint L t)"
  using pg_step_cases(2) [OF assms] answers_known_found [of L s t "Inl e"]
  by (elim disjE) (auto simp: answer_new_def)

interpretation pg: transaction_store "pg_step L calls" "pg_found L" "pg_kept L"
  "\<lambda>s. pg_ok L (fst s)" "pg_admits L" "fingerprint L" pg_view
  for L :: "('d, 'a) lib_scheme" and calls :: "'w \<Rightarrow> ingest_env \<times> 'w"
  by unfold_locales (fact pg_step_cases(1) pg_step_new pg_step_known pg_step_error)+

section \<open>Sequences of pushes\<close>

fun pg_run ::
  "('d, 'a) lib_scheme \<Rightarrow> ('w \<Rightarrow> ingest_env \<times> 'w) \<Rightarrow> db \<times> 'w \<Rightarrow> 'd transaction list
    \<Rightarrow> (string + 'd ingest_outcome) list \<times> db \<times> 'w" where
  "pg_run L calls s [] = ([], s)"
| "pg_run L calls s (t # ts) =
    (let (r, s1) = pg_step L calls s t; (rs, s2) = pg_run L calls s1 ts in (r # rs, s2))"

lemma pg_run_serve: "transaction_store.serve (pg_step L calls) s ts = pg_run L calls s ts"
  by (induction ts arbitrary: s) simp_all

lemmas pg_laws = pg.serve_valid [unfolded pg_run_serve] pg.acknowledged_kept [unfolded pg_run_serve]
  pg.replay_answer [unfolded pg_run_serve] pg.one_new_push [unfolded pg_run_serve]

lemma pg_get_found:
  "pg_found L s k = Some t \<longleftrightarrow> pg_get L None (fst s) k = Inr t"
  by (auto simp: pg_found_def pg_get_def split: sum.splits)

lemma pg_ok_outbox:
  assumes "pg_ok L d"
  shows "map ob_aggregate_id (db_outbox d) = map row_id (db_transactions d)"
    and "distinct (map row_key (db_transactions d))" and "distinct (map row_id (db_transactions d))"
    and "distinct (map ob_event_id (db_outbox d))"
  using assms by (auto simp: pg_ok_def db_holds_def comp_def)

text \<open>When the database is reachable throughout, what decides is the row and its uniqueness.\<close>

definition calm :: "ingest_env \<Rightarrow> db \<Rightarrow> bool" where
  "calm env d \<longleftrightarrow> env_begin env = None \<and> env_insert env = None \<and> env_select env = None
    \<and> env_outbox env = None \<and> env_commit env = Commit_Done
    \<and> (\<exists>i. env_event_id env = Inr i \<and> (\<forall>q \<in> set (db_outbox d). ob_event_id q \<noteq> i))"

lemma calm_ingest:
  assumes "calm env d" and "db_holds L d ts" and "row_error (row_of L t (fingerprint L t)) = None"
  shows "key_of t \<in> key_of ` set ts \<Longrightarrow> \<exists>out. pg_ingest L env d t = (Inr out, d) \<and> out_duplicate out"
    and "key_of t \<notin> key_of ` set ts \<Longrightarrow> tx_id t \<notin> tx_id ` set ts \<Longrightarrow>
      time_json_ok (time_utc (tx_occurred_at t)) \<Longrightarrow> time_json_ok (time_utc (tx_received_at t)) \<Longrightarrow>
      \<exists>d'. pg_ingest L env d t = (answer_new t, d') \<and> holds_new L env d t d'"
proof -
  let ?row = "row_of L t (fingerprint L t)"
  have rows: "db_transactions d = map (\<lambda>t. row_of L t (fingerprint L t)) ts"
    using assms(2) by (simp add: db_holds_def)
  show "\<exists>out. pg_ingest L env d t = (Inr out, d) \<and> out_duplicate out" if "key_of t \<in> key_of ` set ts"
  proof -
    have "insert_transaction ?row (db_transactions d) = Inr None"
      unfolding insert_transaction_known rows using assms(3) that by auto
    moreover have "find (\<lambda>u. key_of u = key_of t) ts \<noteq> None" unfolding find_key_None using that by simp
    then obtain u where "get_by_key_tx L None d (key_of t) = Inr (pg_view u, fingerprint L u)"
      using get_by_key_holds [OF assms(2), of "key_of t"] by auto
    ultimately show ?thesis
      using assms(1) by (simp add: calm_def pg_ingest_def ingest_in_tx_def Let_def)
  qed
  show "\<exists>d'. pg_ingest L env d t = (answer_new t, d') \<and> holds_new L env d t d'"
    if key: "key_of t \<notin> key_of ` set ts" and id: "tx_id t \<notin> tx_id ` set ts"
      and times: "time_json_ok (time_utc (tx_occurred_at t))" "time_json_ok (time_utc (tx_received_at t))"
  proof -
    have ins: "insert_transaction ?row (db_transactions d) = Inr (Some (db_transactions d @ [?row]))"
      unfolding insert_transaction_new rows
      using assms(3) key id by (auto simp: list_all_iff) (metis imageI)+
    obtain i where i: "env_event_id env = Inr i" "\<forall>q \<in> set (db_outbox d). ob_event_id q \<noteq> i"
      using assms(1) unfolding calm_def by blast
    obtain e where e: "new_transaction_received L t i = Inr e" "ev_id e = i"
      using times by (simp add: new_transaction_received_def)
    then have "insert_outbox_event (env_now env) e (d\<lparr>db_transactions := db_transactions d @ [?row]\<rparr>)
        = (None, d\<lparr>db_transactions := db_transactions d @ [?row],
            db_outbox := db_outbox d @ [event_row (env_now env) (db_seq d) e], db_seq := Suc (db_seq d)\<rparr>)"
      using i(2) by (simp add: insert_outbox_event_def Let_def event_row_def list_ex_iff)
    then have "\<exists>d'. pg_ingest L env d t = (answer_new t, d')"
      using assms(1) ins i(1) e
      by (simp add: calm_def pg_ingest_def ingest_in_tx_def write_outbox_event_def Let_def answer_new_def)
    then show ?thesis using pg_ingest_cases key assms(2)
      by (fastforce simp: answer_new_def answers_known_def)
  qed
qed

text \<open>A fingerprint is always a storable text, so the schema judges the row without it.\<close>

lemma pg_text_ascii:
  assumes "list_all (\<lambda>c. is_ascii c \<and> c \<noteq> CHR 0x00) s"
  shows "pg_text_ok s"
proof -
  have "list_all is_ascii s" using assms by (simp add: list_all_iff)
  moreover have "code c \<noteq> rune_error" if "is_ascii c" for c
    using that by (simp add: is_ascii_def rune_error_def)
  ultimately have "utf8_valid s" by (simp add: utf8_valid_def runes_ascii comp_def list_all_iff)
  moreover have "CHR 0x00 \<notin> set s" using assms by (auto simp only: list_all_iff)
  ultimately show ?thesis by (simp add: pg_text_ok_def)
qed

lemma hex_char_ascii: "n < 16 \<Longrightarrow> is_ascii (hex_char n) \<and> hex_char n \<noteq> CHR 0x00"
proof -
  have "\<forall>n\<in>set [0..<16]. is_ascii (hex_char n) \<and> hex_char n \<noteq> CHR 0x00" by code_simp
  then show "n < 16 \<Longrightarrow> is_ascii (hex_char n) \<and> hex_char n \<noteq> CHR 0x00" by simp
qed

lemma fingerprint_text: "pg_text_ok (fingerprint L t)"
  by (rule pg_text_ascii)
     (auto simp: fingerprint_def hex_encode_def pad_hex_2 list_all_iff hex_char_ascii)

lemma row_error_fingerprint:
  "row_error (row_of L t (fingerprint L t)) = row_error (row_of L t [])"
proof -
  have "pg_text_ok []" by (simp add: pg_text_ok_def utf8_valid_def)
  then show ?thesis
    using fingerprint_text [of L t] by (simp add: row_error_def row_texts_ok_def row_of_def)
qed

section \<open>Properties\<close>

text \<open>C11: The transactional outbox: after any sequence of pushes, whatever fails on the way, the
  outbox holds exactly one event for each stored transaction and no other, there is one
  transaction per idempotency key, and ids and event ids are unique.\<close>

theorem outbox_matches_transactions:
  assumes "list_all (pg_admits L) ts"
  shows "map ob_aggregate_id (db_outbox (fst (snd (pg_run L calls (db_empty, w) ts))))
      = map row_id (db_transactions (fst (snd (pg_run L calls (db_empty, w) ts))))
    \<and> distinct (map row_key (db_transactions (fst (snd (pg_run L calls (db_empty, w) ts)))))
    \<and> distinct (map row_id (db_transactions (fst (snd (pg_run L calls (db_empty, w) ts)))))
    \<and> distinct (map ob_event_id (db_outbox (fst (snd (pg_run L calls (db_empty, w) ts)))))"
proof -
  have "pg_ok L (fst (db_empty, w))" using db_holds_empty by (auto simp: pg_ok_def)
  from pg_laws(1) [OF this assms]
  have "pg_ok L (fst (snd (pg_run L calls (db_empty, w) ts)))" by (metis prod.collapse)
  then show ?thesis using pg_ok_outbox by blast
qed

definition demo_wording :: "sql_error \<Rightarrow> string" where
  "demo_wording e = ''ERROR''"

definition demo_env :: "uuid \<Rightarrow> ingest_env \<times> uuid" where
  "demo_env w =
    (\<lparr>env_begin = None, env_insert = None, env_select = None, env_event_id = Inr w,
      env_outbox = None, env_commit = Commit_Done, env_now = demo_now,
      env_wording = demo_wording\<rparr>, w + 1)"

lemma demo_tx_admits: "pg_admits ref_lib demo_tx"
proof -
  have "lookup ref_lib (cur_code (amt_currency (tx_base_amount demo_tx)))
      = Some (amt_currency (tx_base_amount demo_tx))" by code_simp
  then show ?thesis by (simp add: pg_admits_def demo_tx_ok)
qed

theorem outbox_matches_transactions_witness:
  "list_all (pg_admits ref_lib) [demo_tx, demo_tx]
    \<and> map ob_aggregate_id (db_outbox (fst (snd (pg_run ref_lib demo_env (db_empty, 40) [demo_tx, demo_tx]))))
      = map row_id (db_transactions (fst (snd (pg_run ref_lib demo_env (db_empty, 40) [demo_tx, demo_tx]))))"
proof -
  have "list_all (pg_admits ref_lib) [demo_tx, demo_tx]" by (simp add: demo_tx_admits)
  from outbox_matches_transactions [OF this, of demo_env 40] this show ?thesis by blast
qed

text \<open>C8: An acknowledged push is durable: after any further pushes, with any failures, reading its
  key gives the pushed transaction back, every field as accepted except that its two times are
  cut to the microsecond. A replay under its key is answered with that record as a duplicate,
  divergent exactly when the fingerprint is another.\<close>

theorem acknowledged_push_durable:
  assumes "pg_ok L (fst s)" and "pg_admits L t" and "pg_step L calls s t = (Inr out, s1)"
    and "\<not> out_duplicate out" and "list_all (pg_admits L) ts" and "pg_run L calls s1 ts = (rs, s2)"
  shows "pg_get L None (fst s2) (key_of t)
      = Inr (t\<lparr>tx_occurred_at := pg_time (tx_occurred_at t),
               tx_received_at := pg_time (tx_received_at t)\<rparr>)
    \<and> (\<forall>u out' s3. pg_admits L u \<and> key_of u = key_of t \<and> pg_step L calls s2 u = (Inr out', s3) \<longrightarrow>
        out' = \<lparr>out_transaction = t\<lparr>tx_occurred_at := pg_time (tx_occurred_at t),
                 tx_received_at := pg_time (tx_received_at t)\<rparr>,
               out_duplicate = True, out_divergent = (fingerprint L u \<noteq> fingerprint L t)\<rparr>)"
proof -
  have "pg_found L s2 (key_of t) = Some (pg_view t)" by (rule pg_laws(2) [OF assms])
  then have "pg_get L None (fst s2) (key_of t) = Inr (pg_view t)" by (simp add: pg_get_found)
  moreover have "out' = \<lparr>out_transaction = pg_view t, out_duplicate = True,
      out_divergent = (fingerprint L u \<noteq> fingerprint L t)\<rparr>"
    if "pg_admits L u" "key_of u = key_of t" "pg_step L calls s2 u = (Inr out', s3)" for u out' s3
    by (rule pg_laws(4) [OF assms that])
  ultimately show ?thesis unfolding pg_view_def by blast
qed

lemma demo_row: "row_error (row_of ref_lib demo_tx (fingerprint ref_lib demo_tx)) = None"
proof -
  have "amt_value (tx_base_amount demo_tx) = (1250, 2)" by code_simp
  then have "numeric_19_4 ref_lib (amt_value (tx_base_amount demo_tx)) = 25 / 2"
    using numeric_exact [OF ref_lib_ok, of "(1250, 2)" 125000] by (simp add: ref_val_def)
  moreover have "row_texts_ok (row_of ref_lib demo_tx [])"
    unfolding row_texts_ok_def row_of_def tx_row.select_convs by code_simp
  moreover have "tx_location demo_tx = None" "tx_metadata demo_tx = None"
      "plate_number_key demo_tx = ''ABC123''" by code_simp+
  ultimately show ?thesis
    unfolding row_error_fingerprint by (simp add: row_error_def row_of_def pg_json_ok_def nullable_def)
qed

lemma demo_calm: "calm (fst (demo_env w)) db_empty"
  by (simp add: calm_def demo_env_def db_empty_def)

lemma demo_push:
  "\<exists>d. pg_step ref_lib demo_env (db_empty, 40) demo_tx = (answer_new demo_tx, d, 41) \<and> pg_ok ref_lib d"
proof -
  have times: "time_json_ok (time_utc (tx_occurred_at demo_tx))"
    "time_json_ok (time_utc (tx_received_at demo_tx))" by code_simp+
  then obtain d where "pg_ingest ref_lib (fst (demo_env 40)) db_empty demo_tx = (answer_new demo_tx, d)"
    using calm_ingest(2) [OF demo_calm db_holds_empty demo_row] by auto
  then have step: "pg_step ref_lib demo_env (db_empty, 40) demo_tx = (answer_new demo_tx, d, 41)"
    by (simp add: pg_step_def demo_env_def)
  have "pg_ok ref_lib (fst (db_empty, 40 :: uuid))" using db_holds_empty by (auto simp: pg_ok_def)
  from pg_step_cases(1) [OF this demo_tx_admits step] step show ?thesis by auto
qed

theorem acknowledged_push_durable_witness:
  "\<exists>d. pg_step ref_lib demo_env (db_empty, 40) demo_tx = (answer_new demo_tx, d, 41)
    \<and> (\<exists>t. pg_get ref_lib None d (key_of demo_tx) = Inr t)"
proof -
  obtain d where step: "pg_step ref_lib demo_env (db_empty, 40) demo_tx = (answer_new demo_tx, d, 41)"
    using demo_push by blast
  have "pg_ok ref_lib (fst (db_empty, 40 :: uuid))" using db_holds_empty by (auto simp: pg_ok_def)
  note durable = acknowledged_push_durable [OF this demo_tx_admits
      step [unfolded answer_new_def], where ts = "[]"]
  show ?thesis using durable step by fastforce
qed

text \<open>C18: A push that is answered with an error has left the tables as they were, but for the one
  case that cannot be avoided: the commit was done and its acknowledgement lost, and then the
  transaction and its event are both there.\<close>

theorem failed_push_leaves_tables:
  assumes "pg_ingest L env d t = (Inl e, d')"
  shows "same_tables d d'
    \<or> (\<exists>m. env_commit env = Commit_Unacknowledged m \<and> e = ''commit transaction: '' @ m
        \<and> holds_new L env d t d')"
proof (cases "env_begin env")
  case None
  obtain r1 d1 where step: "ingest_in_tx L env d t = (r1, d1)" by fastforce
  note cases1 = ingest_in_tx_cases [OF step]
  then have undo: "same_tables d (roll_back d d1)" using same_tables_roll_back by blast
  show ?thesis
    using assms None step cases1 undo
    by (cases r1; cases "env_commit env") (auto simp: pg_ingest_def answer_new_def answers_known_def)
qed (use assms in \<open>auto simp: pg_ingest_def\<close>)

definition lost_ack_env :: ingest_env where
  "lost_ack_env = (fst (demo_env 40))\<lparr>env_commit := Commit_Unacknowledged ''timeout''\<rparr>"

theorem failed_push_leaves_tables_witness:
  "\<exists>e d'. pg_ingest ref_lib lost_ack_env db_empty demo_tx = (Inl e, d')
    \<and> (same_tables db_empty d' \<or> holds_new ref_lib lost_ack_env db_empty demo_tx d')"
proof -
  obtain r d' where step: "pg_ingest ref_lib lost_ack_env db_empty demo_tx = (r, d')" by fastforce
  have "\<exists>e. r = Inl e"
    using step by (auto simp: pg_ingest_def lost_ack_env_def demo_env_def split: sum.splits prod.splits)
  then obtain e where "r = Inl e" ..
  with step failed_push_leaves_tables [of ref_lib lost_ack_env db_empty demo_tx e d'] show ?thesis by blast
qed

text \<open>With the database reachable, a transaction whose row meets the schema is taken: a known
  key is answered as a duplicate and changes nothing, a new key with a new id and writable times
  is answered as new and recorded together with its event.\<close>

theorem reachable_database_takes_push:
  assumes "calm env d" and "db_holds L d ts" and "row_error (row_of L t (fingerprint L t)) = None"
    and "tx_id t \<notin> tx_id ` set ts" and "time_json_ok (time_utc (tx_occurred_at t))"
    and "time_json_ok (time_utc (tx_received_at t))"
  shows "if key_of t \<in> key_of ` set ts
    then \<exists>out. pg_ingest L env d t = (Inr out, d) \<and> out_duplicate out
    else \<exists>d'. pg_ingest L env d t = (answer_new t, d') \<and> holds_new L env d t d'"
  using calm_ingest [OF assms(1-3)] assms(4-6) by simp

theorem reachable_database_takes_push_witness:
  "\<exists>d'. pg_ingest ref_lib (fst (demo_env 40)) db_empty demo_tx = (answer_new demo_tx, d')
    \<and> holds_new ref_lib (fst (demo_env 40)) db_empty demo_tx d'"
proof -
  have "tx_id demo_tx \<notin> tx_id ` set []" "time_json_ok (time_utc (tx_occurred_at demo_tx))"
    "time_json_ok (time_utc (tx_received_at demo_tx))" by (simp, code_simp+)
  from reachable_database_takes_push [OF demo_calm db_holds_empty demo_row this] show ?thesis by simp
qed

text \<open>The rules put no upper bound on an amount and the column does: a transaction whose amount
  has more than fifteen integer digits is answered with an error by every reachable or
  unreachable database, and there is an accepted transaction that has such an amount.\<close>

theorem oversized_amount_always_fails:
  "(\<bar>numeric_19_4 L (amt_value (tx_base_amount t))\<bar> < 10 ^ 15
      \<or> (\<exists>e. fst (pg_ingest L env d t) = Inl e))
    \<and> (\<exists>s tx. accept ref_lib demo_runtime demo_rules s 6 = (Accepted tx, 7)
        \<and> 10 ^ 15 \<le> \<bar>numeric_19_4 ref_lib (amt_value (tx_base_amount tx))\<bar>)"
proof -
  have fails: "\<bar>numeric_19_4 L (amt_value (tx_base_amount t))\<bar> < 10 ^ 15
      \<or> (\<exists>e. fst (pg_ingest L env d t) = Inl e)"
  proof (cases "row_error (row_of L t (fingerprint L t))")
    case None
    then show ?thesis by (auto simp: row_error_def row_of_def split: if_splits)
  next
    case (Some x)
    then show ?thesis
      by (auto simp: pg_ingest_def ingest_in_tx_def insert_transaction_def Let_def
          split: option.splits)
  qed
  let ?s = "demo_submission\<lparr>sub_base_amount := ''1000000000000000.00''\<rparr>"
  let ?t = "accepted_tx ref_lib demo_rules demo_now ?s 7"
  have "rules_now demo_runtime demo_rules 6 = (demo_now, 6)"
    and "rules_new_id demo_runtime demo_rules 6 = (Inr 7, 7)"
    and "rule_problems ref_lib demo_rules demo_now ?s = []" by code_simp+
  then have acc: "accept ref_lib demo_runtime demo_rules ?s 6 = (Accepted ?t, 7)"
    by (simp add: accept_eq)
  have val: "amt_value (tx_base_amount ?t) = (100000000000000000, 2)" by code_simp
  have "10 ^ 15 \<le> \<bar>numeric_19_4 ref_lib (amt_value (tx_base_amount ?t))\<bar>"
    unfolding val using numeric_exact [OF ref_lib_ok, of "(100000000000000000, 2)" "10 ^ 19"]
    by (simp add: ref_val_def)
  with fails acc show ?thesis by blast
qed

end
