(* ===== verification/Ingest_Props.thy ===== *)
theory Ingest_Props
  imports Source_Labels Memory_Store Postgres_Store
begin

text \<open>
  What a producer can rely on: the ingest handler over a store. The lemmas are proved once for
  any store that keeps the contract of \<^theory_text>\<open>Store\<close>, and stated for both stores through
  their interpretations; a source the metrics refuse is one of the cases (\<open>Source_Labels\<close>).
\<close>

section \<open>One request\<close>

text \<open>A push that got a 201 was recorded under a source the metrics take.\<close>

lemma accepted_created:
  assumes "accepted_request L srv r (wd_env w) = Some tx" and "prometheus_ok (srv_accepts srv)"
    and "ingest_transaction L srv r w = (calls, p, w')" and "rs_status (respond calls) = 201"
  shows "\<exists>out. srv_store srv (wd_store w) tx = (Inr out, wd_store w') \<and> \<not> out_duplicate out"
    and "countable_source (sources_of w) (tx_source tx)"
proof -
  obtain res s where st: "srv_store srv (wd_store w) tx = (res, s)" by fastforce
  have calls: "calls = fst (counted (sources_of w) (tx_source tx) (store_answer L res))"
    and s: "wd_store w' = s"
    using accepted_total [OF assms(1,2) st] assms(3) by auto
  have "rs_status (respond []) = 200" by (simp add: respond_def new_writer_def)
  then show count: "countable_source (sources_of w) (tx_source tx)"
    using calls assms(4) by (auto simp: counted_def split: if_splits)
  then have "rs_status (respond (store_answer L res)) = 201"
    using calls assms(4) by (simp add: counted_def)
  then show "\<exists>out. srv_store srv (wd_store w) tx = (Inr out, wd_store w') \<and> \<not> out_duplicate out"
    using st s respond_write_error by (auto simp: store_answer_def split: sum.splits if_splits)
qed

section \<open>Requests one after the other\<close>

fun handle_all ::
  "('d, 'a) lib_scheme \<Rightarrow> ('e, 's, 'd) ingest_server \<Rightarrow> request list \<Rightarrow> ('e, 's) world
    \<Rightarrow> (writer_call list \<times> panic option) list \<times> ('e, 's) world" where
  "handle_all L srv [] w = ([], w)"
| "handle_all L srv (r # rs) w =
    (let (calls, p, w1) = ingest_transaction L srv r w; (as, w2) = handle_all L srv rs w1
     in ((calls, p) # as, w2))"

lemma handle_all_later: "labels_later (sources_of w) (sources_of (snd (handle_all L srv rs w)))"
proof (induction rs arbitrary: w)
  case (Cons r rs)
  show ?case
    using labels_later_trans [OF ingest_transaction_later [of w L srv r] Cons.IH]
    by (simp add: case_prod_beta Let_def)
qed simp

text \<open>A source that was counted once is counted from then on.\<close>

lemma acknowledged_countable:
  assumes "accepted_request L srv r (wd_env w) = Some tx" and "prometheus_ok (srv_accepts srv)"
    and "ingest_transaction L srv r w = (calls, p, w1)" and "rs_status (respond calls) = 201"
    and "handle_all L srv rs w1 = (as, w2)"
  shows "countable_source (sources_of w2) (tx_source tx)"
proof -
  have "labels_later (sources_of w) (sources_of w1)"
    using ingest_transaction_later [of w L srv r] assms(3) by simp
  moreover have "labels_later (sources_of w1) (sources_of w2)"
    using handle_all_later [of w1 L srv rs] assms(5) by simp
  ultimately show ?thesis
    using countable_later [OF labels_later_trans accepted_created(2) [OF assms(1-4)]] by blast
qed

text \<open>The result a producer reads for a transaction that was recorded before.\<close>

definition duplicate_result :: "('d, 'a) lib_scheme \<Rightarrow> uuid \<Rightarrow> ingest_result" where
  "duplicate_result L i =
    \<lparr>is_association_status = ''received'', is_duplicate = True, is_id = uuid_string L i,
     is_settlement_status = ''priced''\<rparr>"

context transaction_store
begin

lemma handle_all_serve:
  assumes "srv_store srv = ingest" and "\<forall>r e t. accepted_request L srv r e = Some t \<longrightarrow> admits t"
    and "handle_all L srv rs w = (as, w')"
  shows "\<exists>ts qs. list_all admits ts \<and> serve (wd_store w) ts = (qs, wd_store w')"
  using assms(3)
proof (induction rs arbitrary: w as)
  case Nil
  then have "list_all admits [] \<and> serve (wd_store w) [] = ([], wd_store w')" by simp
  then show ?case by blast
next
  case (Cons r rs)
  obtain calls p w1 where step: "ingest_transaction L srv r w = (calls, p, w1)"
    by (cases "ingest_transaction L srv r w")
  then obtain as' where rest: "handle_all L srv rs w1 = (as', w')"
    using Cons.prems by (auto split: prod.splits)
  obtain ts qs where ts: "list_all admits ts" "serve (wd_store w1) ts = (qs, wd_store w')"
    using Cons.IH [OF rest] by blast
  show ?case
  proof (cases "accepted_request L srv r (wd_env w)")
    case None
    then have "wd_store w1 = wd_store w" using ingest_transaction_store [of L srv r w] step by simp
    then show ?thesis using ts by auto
  next
    case (Some t)
    then have "wd_store w1 = snd (ingest (wd_store w) t)"
      using ingest_transaction_store [of L srv r w] step assms(1) by simp
    then have "serve (wd_store w) (t # ts) = (fst (ingest (wd_store w) t) # qs, wd_store w')"
      using ts(2) by (intro serve_Cons) (simp_all add: prod_eq_iff)
    then show ?thesis using ts(1) assms(2) Some by (metis list.pred_inject(2))
  qed
qed

lemma handled_known:
  assumes srv: "srv_store srv = ingest" "\<forall>r e t. accepted_request L srv r e = Some t \<longrightarrow> admits t"
    and prom: "prometheus_ok (srv_accepts srv)"
    and first: "valid (wd_store w)" "accepted_request L srv r (wd_env w) = Some t"
      "ingest_transaction L srv r w = (calls, p, w1)" "rs_status (respond calls) = 201"
    and between: "handle_all L srv rs w1 = (as, w2)"
  shows "valid (wd_store w2)" and "found (wd_store w2) (key_of t) = Some (view t)"
    and "kept_fingerprint (wd_store w2) (key_of t) = Some (print_of t)"
proof -
  obtain out1 where new: "ingest (wd_store w) t = (Inr out1, wd_store w1)" "\<not> out_duplicate out1"
    using accepted_created(1) [OF first(2) prom first(3,4)] srv(1) by auto
  obtain ts qs where ts: "list_all admits ts" "serve (wd_store w1) ts = (qs, wd_store w2)"
    using handle_all_serve [OF srv between] by blast
  have adm: "admits t" using srv(2) first(2) by blast
  show "valid (wd_store w2)" by (rule serve_valid [OF ingest_valid [OF first(1) adm new(1)] ts])
  show "found (wd_store w2) (key_of t) = Some (view t)"
    "kept_fingerprint (wd_store w2) (key_of t) = Some (print_of t)"
    by (rule acknowledged_kept [OF first(1) adm new ts])+
qed

lemma handled_retry:
  assumes srv: "srv_store srv = ingest" "\<forall>r e t. accepted_request L srv r e = Some t \<longrightarrow> admits t"
    and prom: "prometheus_ok (srv_accepts srv)"
    and first: "valid (wd_store w)" "accepted_request L srv r (wd_env w) = Some t"
      "ingest_transaction L srv r w = (calls, p, w1)" "rs_status (respond calls) = 201"
    and between: "handle_all L srv rs w1 = (as, w2)"
    and retry: "accepted_request L srv r' (wd_env w2) = Some u" "key_of u = key_of t"
      "ingest (wd_store w2) u = (Inr out, s3)"
    and kept: "tx_id (view t) = tx_id t" "tx_association (view t) = AssociationReceived"
      "tx_settlement (view t) = SettlementPriced"
  shows "\<exists>w3. ingest_transaction L srv r' w2
      = (write_json 200 (ingest_result_json (duplicate_result L (tx_id t))), None, w3)
    \<and> found (wd_store w3) = found (wd_store w2)"
proof -
  note known = handled_known [OF srv prom first between]
  have adm: "admits u" using srv(2) retry(1) by blast
  have "out = \<lparr>out_transaction = view t, out_duplicate = True,
      out_divergent = (print_of u \<noteq> print_of t)\<rparr>" and same: "found s3 = found (wd_store w2)"
    using ingest_known [OF known(1) adm _ retry(3)] known(2,3) retry(2) by auto
  then have "to_result L out = duplicate_result L (tx_id t)" "out_duplicate out"
    using kept by (simp_all add: to_result_def duplicate_result_def)
  moreover have "countable_source (sources_of w2) (tx_source u)"
    using acknowledged_countable [OF first(2) prom first(3,4) between] retry(2) by (simp add: key_of_eq_iff)
  moreover have "srv_store srv (wd_store w2) u = (Inr out, s3)" using retry(3) srv(1) by simp
  ultimately show ?thesis
    using accepted_total [OF retry(1) prom, of "Inr out" s3] same
    by (auto simp: counted_def store_answer_def)
qed

end

section \<open>A refused transaction\<close>

lemma ascii_reports:
  "map re_field ps = report a ''transaction_type'' @ report b ''transaction_time_utc''
      @ report c ''currency'' @ report d ''base_amount'' @ report e [] \<Longrightarrow>
    f \<in> set (to_field_errors ps) \<Longrightarrow> list_all is_ascii (fe_field f)"
proof -
  assume eq: "map re_field ps = report a ''transaction_type'' @ report b ''transaction_time_utc''
      @ report c ''currency'' @ report d ''base_amount'' @ report e []"
    and f: "f \<in> set (to_field_errors ps)"
  have "fe_field f \<in> set (map re_field ps)" using f by (auto simp: to_field_errors_def)
  then have "fe_field f \<in> set [''transaction_type'', ''transaction_time_utc'', ''currency'', ''base_amount'', []]"
    unfolding eq by (auto simp: report_def split: if_splits)
  moreover have "\<forall>t \<in> set [''transaction_type'', ''transaction_time_utc'', ''currency'', ''base_amount'', []].
      list_all is_ascii t" by code_simp
  ultimately show ?thesis by blast
qed

lemma count_failures_total:
  assumes "prometheus_ok accepts" and "\<And>f. f \<in> set fs \<Longrightarrow> utf8_valid (fe_field f)"
  shows "\<exists>w'. count_failures accepts source ''semantic'' fs w
      = (if fs = [] \<or> countable_source (sources_of w) source then None else Some (Panic label_error), w')
    \<and> wd_store w' = wd_store w
    \<and> countable_source (sources_of w') source = countable_source (sources_of w) source"
  using assms(2)
proof (induction fs arbitrary: w)
  case (Cons f fs)
  let ?f = "validation_failure accepts source ''semantic'' (fe_field f)"
  let ?w = "w\<lparr>wd_metrics := snd (?f (wd_metrics w))\<rparr>"
  have "utf8_valid (fe_field f)" using Cons.prems by simp
  note one = validation_failure_total [OF assms(1) results_valid(5) this, of source "wd_metrics w"]
  then have same: "countable_source (sources_of ?w) source = countable_source (sources_of w) source"
    by (simp add: countable_again)
  have "\<And>g. g \<in> set fs \<Longrightarrow> utf8_valid (fe_field g)" using Cons.prems by simp
  from Cons.IH [OF this, of ?w] same one(1) show ?case
    by (cases "countable_source (sources_of w) source") (auto simp: with_metrics_parts)
qed simp

lemma rejected_total:
  assumes "srv_decode srv r = Inr body"
    and "accept L (srv_runtime srv) (srv_rules srv) (to_submission body)
      (snd (sys_now (srv_runtime srv) (wd_env w))) = (Rejected ps, e1)"
    and "prometheus_ok (srv_accepts srv)"
    and "calls = write_error 400 ''transaction failed validation'' (to_field_errors ps)"
  shows "\<exists>w'. ingest_transaction L srv r w
      = (fst (counted (sources_of w) (ir_source body) calls),
         snd (counted (sources_of w) (ir_source body) calls), w')
    \<and> wd_store w' = wd_store w"
proof -
  obtain started e0 where now: "sys_now (srv_runtime srv) (wd_env w) = (started, e0)" by fastforce
  let ?errs = "to_field_errors ps"
  let ?v = "log_attrs Level_Info ''transaction rejected by validation rules''
    [(''request_id'', request_id_from r), (''source'', ir_source body),
     (''source_reference'', ir_source_reference body),
     (''fields'', format_field_errors ?errs)] (w\<lparr>wd_env := e1\<rparr>)"
  have "utf8_valid (fe_field f)" if "f \<in> set ?errs" for f
    using ascii_reports [OF _ that] accept_Rejected(1) [OF assms(2)] rule_problems_fields
      utf8_valid_ascii by metis
  note count = count_failures_total [OF assms(3) this, of ?errs "ir_source body" ?v]
  obtain p v where v: "count_failures (srv_accepts srv) (ir_source body) ''semantic'' ?errs ?v = (p, v)"
    by fastforce
  have sv: "wd_store v = wd_store w"
      "countable_source (sources_of v) (ir_source body) = countable_source (sources_of w) (ir_source body)"
      "p = (if ?errs = [] \<or> countable_source (sources_of w) (ir_source body) then None
            else Some (Panic label_error))"
    using count v by auto
  show ?thesis
  proof (cases p)
    case None
    then have "ingest_transaction L srv r w = answer srv (ir_source body) result_rejected started calls v"
      using now assms(1,2,4) v by (simp add: ingest_transaction_def Let_def)
    then show ?thesis
      using answer_total [OF assms(3) results_valid(3), of "ir_source body" started calls v] sv(1,2)
      by (auto simp: counted_def)
  next
    case (Some pn)
    then have "ingest_transaction L srv r w = ([], Some pn, v)"
      using now assms(1,2) v by (simp add: ingest_transaction_def Let_def)
    then show ?thesis using Some sv(1,3) by (auto simp: counted_def split: if_splits)
  qed
qed

lemma faulted_total:
  assumes "srv_decode srv r = Inr body"
    and "accept L (srv_runtime srv) (srv_rules srv) (to_submission body)
      (snd (sys_now (srv_runtime srv) (wd_env w))) = (Faulted e, e1)"
    and "prometheus_ok (srv_accepts srv)"
    and "calls = write_error 500 ''transaction could not be processed'' []"
  shows "\<exists>w'. ingest_transaction L srv r w
      = (fst (counted (sources_of w) (ir_source body) calls),
         snd (counted (sources_of w) (ir_source body) calls), w')
    \<and> wd_store w' = wd_store w"
proof -
  obtain started e0 where now: "sys_now (srv_runtime srv) (wd_env w) = (started, e0)" by fastforce
  let ?v = "log_attrs Level_Error ''could not build transaction''
    [(''request_id'', request_id_from r), (''source'', ir_source body), (''error'', e)] (w\<lparr>wd_env := e1\<rparr>)"
  have "ingest_transaction L srv r w = answer srv (ir_source body) result_error started calls ?v"
    using now assms(1,2,4) by (simp add: ingest_transaction_def)
  then show ?thesis
    using answer_total [OF assms(3) results_valid(4), of "ir_source body" started calls ?v] by auto
qed

section \<open>A deployment for the witnesses\<close>

definition demo_body :: ingest_request where
  "demo_body =
    \<lparr>ir_base_amount = ''12.50'', ir_currency = None, ir_location = None, ir_metadata = None,
     ir_plate = Some \<lparr>prf_jurisdiction = ''TX'', prf_number = ''abc-123''\<rparr>,
     ir_source = ''lane-7'', ir_source_reference = ''0001'',
     ir_transaction_time_utc = \<lparr>t_ns = 739616 * day_ns, t_off = 3600\<rparr>,
     ir_transaction_type = '' TOLL'', ir_transponder_number = None\<rparr>"

definition demo_since :: "gotime \<Rightarrow> 'e \<Rightarrow> duration \<times> 'e" where
  "demo_since t e = (0, e)"

definition demo_server ::
  "('s \<Rightarrow> 'd transaction \<Rightarrow> (string + 'd ingest_outcome) \<times> 's) \<Rightarrow> ingest_request
    \<Rightarrow> (uuid, 's, 'd) ingest_server" where
  "demo_server st body =
    \<lparr>srv_runtime = demo_runtime, srv_rules = demo_rules, srv_store = st,
     srv_accepts = list_all utf8_valid, srv_since = demo_since, srv_decode = (\<lambda>_. Inr body)\<rparr>"

definition demo_world :: "'s \<Rightarrow> (uuid, 's) world" where
  "demo_world s =
    \<lparr>wd_env = 6, wd_store = s, wd_metrics = new_metrics, wd_log = [], wd_pattern = []\<rparr>"

definition demo_request :: request where
  "demo_request = \<lparr>rq_method = ''POST'', rq_path = ''/ingest/v1/transactions'', rq_header = [],
     rq_body = None, rq_limit = None, rq_id = None, rq_remote_addr = []\<rparr>"

lemma demo_server_simps [simp]:
  "srv_runtime (demo_server st body) = demo_runtime" "srv_rules (demo_server st body) = demo_rules"
  "srv_store (demo_server st body) = st" "srv_decode (demo_server st body) r = Inr body"
  "prometheus_ok (srv_accepts (demo_server st body))"
  "wd_store (demo_world s) = s" "wd_env (demo_world s) = 6" "wd_metrics (demo_world s) = new_metrics"
  by (simp_all add: demo_server_def demo_world_def prometheus_ok_def)

lemma demo_sys_now [simp]: "sys_now demo_runtime e = (demo_now, e)"
  by (simp add: demo_runtime_def demo_clock_def)

lemma demo_rules_now [simp]: "rules_now demo_runtime demo_rules e = (demo_now, e)"
  by (simp add: rules_now_def demo_rules_def time_utc_def demo_now_def)

lemma demo_rules_new_id [simp]: "rules_new_id demo_runtime demo_rules e = (Inr (e + 1), e + 1)"
  by (simp add: rules_new_id_def demo_rules_def demo_runtime_def demo_new_id_def)

lemma demo_body_submission: "to_submission demo_body = demo_submission"
  by (simp add: to_submission_def demo_body_def demo_submission_def)

text \<open>The demonstration submission is accepted from any source, and at any state of the ids.\<close>

lemma demo_accept_source:
  "accept ref_lib demo_runtime demo_rules (demo_submission\<lparr>sub_source := src\<rparr>) e
    = (Accepted (accepted_tx ref_lib demo_rules demo_now (demo_submission\<lparr>sub_source := src\<rparr>) (e + 1)),
       e + 1)"
proof -
  have identity: "validate_identity (demo_submission\<lparr>sub_source := src\<rparr>) = validate_identity demo_submission"
    by (simp add: validate_identity_def)
  have "rule_problems ref_lib demo_rules demo_now (demo_submission\<lparr>sub_source := src\<rparr>)
      = rule_problems ref_lib demo_rules demo_now demo_submission"
    by (simp add: rule_problems_def identity cong: if_cong)
  also have "\<dots> = []" by code_simp
  finally show ?thesis by (simp add: accept_eq)
qed

lemma demo_accepted_request:
  "accepted_request ref_lib (demo_server st (demo_body\<lparr>ir_source := src\<rparr>)) r e
    = Some (accepted_tx ref_lib demo_rules demo_now (demo_submission\<lparr>sub_source := src\<rparr>) (e + 1))"
proof -
  have "to_submission (demo_body\<lparr>ir_source := src\<rparr>) = demo_submission\<lparr>sub_source := src\<rparr>"
    by (simp add: to_submission_def demo_body_def demo_submission_def)
  then show ?thesis by (simp add: accepted_request_def demo_accept_source)
qed

section \<open>Properties\<close>

text \<open>C16: Over the memory store the answer to a push whose body decodes is decided by the rules, the
  id source, the key and the label of the source, for every state of the service: 400 when the
  submission is not acceptable, 500 when no id can be made for one that is, otherwise 201 for a key
  that is new and 200 for one that is known. The one exception is a source the metrics refuse
  (\<open>countable_source\<close>: the first 64 bytes end inside a character and the label set does not count
  it among the others), which panics before any response. Whichever of these it is, the store
  gains the accepted transaction under its key exactly when the submission is acceptable, an id
  was made and the key is new, and is unchanged otherwise.\<close>

theorem push_status_decided:
  assumes "decimal_ok L v" and "srv_store srv = mem_ingest L" and "prometheus_ok (srv_accepts srv)"
    and "srv_decode srv r = Inr body" and "length (ir_base_amount body) < 2 ^ 31"
    and "rules_now (srv_runtime srv) (srv_rules srv) (snd (sys_now (srv_runtime srv) (wd_env w))) = (now, e1)"
    and "rules_new_id (srv_runtime srv) (srv_rules srv) e1 = (new_id, e2)"
    and "k = \<lparr>key_source = ir_source body, key_source_reference = ir_source_reference body\<rparr>"
    and "good \<longleftrightarrow> acceptable L (srv_rules srv) now (to_submission body)"
  shows "\<exists>calls p w'. ingest_transaction L srv r w = (calls, p, w')
    \<and> (if countable_source (m_sources (wd_metrics w)) (ir_source body)
       then p = None \<and> rs_status (respond calls)
         = (if \<not> good then 400
            else case new_id of Inl _ \<Rightarrow> 500
              | Inr _ \<Rightarrow> if mem_found (wd_store w) k = None then 201 else 200)
       else p = Some (Panic label_error) \<and> calls = [])
    \<and> mem_found (wd_store w')
        = (case new_id of Inl _ \<Rightarrow> mem_found (wd_store w)
           | Inr i \<Rightarrow> if good \<and> mem_found (wd_store w) k = None
               then (mem_found (wd_store w))(k \<mapsto>
                 accepted_tx L (srv_rules srv) now (to_submission body) i)
               else mem_found (wd_store w))"
proof -
  let ?s = "to_submission body" and ?e0 = "snd (sys_now (srv_runtime srv) (wd_env w))"
  have raw: "sub_base_amount ?s = ir_base_amount body" by (simp add: to_submission_def)
  have none: "rule_problems L (srv_rules srv) now ?s = [] \<longleftrightarrow> good"
    using rule_problems_none [OF assms(1)] assms(5,9) raw by metis
  show ?thesis
  proof (cases good)
    case False
    then have "accept L (srv_runtime srv) (srv_rules srv) ?s ?e0
        = (Rejected (rule_problems L (srv_rules srv) now ?s), e1)"
      using assms(6) none by (simp add: accept_eq)
    from rejected_total [OF assms(4) this assms(3) refl] False show ?thesis
      using respond_write_error by (fastforce simp: counted_def split: sum.split)
  next
    case True
    show ?thesis
    proof (cases new_id)
      case (Inl e)
      then have "accept L (srv_runtime srv) (srv_rules srv) ?s ?e0
          = (Faulted (''generate transaction id: '' @ e), e2)"
        using True assms(6,7) none by (simp add: accept_eq)
      from faulted_total [OF assms(4) this assms(3) refl] True Inl show ?thesis
        using respond_write_error by (fastforce simp: counted_def)
    next
      case (Inr i)
      let ?tx = "accepted_tx L (srv_rules srv) now ?s i"
      have "accept L (srv_runtime srv) (srv_rules srv) ?s ?e0 = (Accepted ?tx, e2)"
        using True Inr assms(6,7) none by (simp add: accept_eq)
      then have acc: "accepted_request L srv r (wd_env w) = Some ?tx"
        using assms(4) by (simp add: accepted_request_def)
      have key: "key_of ?tx = k" "tx_source ?tx = ir_source body"
        by (simp_all add: assms(8) accepted_tx_def key_of_def to_submission_def)
      obtain out s' where st: "mem_ingest L (wd_store w) ?tx = (Inr out, s')"
        using mem_ingest_never_fails by blast
      then have dup: "out_duplicate out \<longleftrightarrow> mem_found (wd_store w) k \<noteq> None"
        by (auto simp: mem_ingest_def mem_found_def key Let_def split: option.splits)
      have found: "mem_found s' = (if mem_found (wd_store w) k = None
          then (mem_found (wd_store w))(k \<mapsto> ?tx) else mem_found (wd_store w))"
        using mem_found_ingest [of L "wd_store w" ?tx] st key
        by (auto simp: fun_eq_iff split: option.splits)
      have "srv_store srv (wd_store w) ?tx = (Inr out, s')" using st assms(2) by simp
      from accepted_total [OF acc assms(3) this] show ?thesis
        using True Inr dup found key(2)
        by (cases "countable_source (sources_of w) (ir_source body)") (auto simp: counted_def store_answer_def)
    qed
  qed
qed

theorem push_status_decided_witness:
  "\<exists>calls w'. ingest_transaction ref_lib (demo_server (mem_ingest ref_lib) demo_body) demo_request
      (demo_world mem_new) = (calls, None, w')
    \<and> rs_status (respond calls) = 201"
proof -
  let ?srv = "demo_server (mem_ingest ref_lib) demo_body"
  have "acceptable ref_lib demo_rules demo_now demo_submission"
    using rule_problems_none [OF ref_lib_ok, of demo_submission demo_rules demo_now]
      accept_Accepted(1) [OF demo_accept] by (simp add: demo_submission_def)
  then have good: "True \<longleftrightarrow> acceptable ref_lib (srv_rules ?srv) demo_now (to_submission demo_body)"
    by (simp add: demo_body_submission)
  have body: "length (ir_base_amount demo_body) < 2 ^ 31" by (simp add: demo_body_def)
  have "source_label_valid (ir_source demo_body)"
    by (simp add: demo_body_def source_label_valid_def utf8_valid_ascii is_ascii_def code_def)
  then have src: "countable_source s (ir_source demo_body)" for s by (rule source_label_countable)
  have env: "rules_now (srv_runtime ?srv) (srv_rules ?srv)
      (snd (sys_now (srv_runtime ?srv) (wd_env (demo_world mem_new)))) = (demo_now, 6)"
    "rules_new_id (srv_runtime ?srv) (srv_rules ?srv) 6 = (Inr 7, 7)" by simp_all
  show ?thesis
    using push_status_decided [OF ref_lib_ok demo_server_simps(3) demo_server_simps(5)
        demo_server_simps(4) body env refl good, where r = demo_request] src by simp blast
qed

text \<open>
  The currency of an accepted transaction is in the table when the deployment's default is, as
  \<open>config.Load\<close> checks.
\<close>

definition default_currency_known :: "('a) unicode_scheme \<Rightarrow> 'w rules \<Rightarrow> bool" where
  "default_currency_known U r \<longleftrightarrow> currency_is_zero (r_default_currency r)
    \<or> lookup U (cur_code (r_default_currency r)) = Some (r_default_currency r)"

lemma accepted_request_pg_admits:
  assumes "default_currency_known L (srv_rules srv)" and "accepted_request L srv r e = Some t"
  shows "pg_admits L t"
proof -
  obtain s now i where t: "t = accepted_tx L (srv_rules srv) now s i"
      and none: "rule_problems L (srv_rules srv) now s = []"
    using assms(2) by (auto simp: accepted_request_def split: sum.splits acceptance.splits)
      (metis accept_Accepted prod.collapse)
  obtain c where c: "currency_for L (srv_rules srv) s = Some c"
      and amt: "amt_currency (tx_base_amount t) = c"
    using accepted_amount [OF none, of i] by (auto simp: t parse_Inr_iff)
  have "lookup L (cur_code c) = Some c"
    using c assms(1) lookup_again
    by (fastforce simp: currency_for_def default_currency_known_def currency_is_zero_def split: if_splits)
  then show ?thesis using accepted_request_tx_ok [OF assms(2)] amt by (simp add: pg_admits_def)
qed

lemma demo_default_known: "default_currency_known ref_lib demo_rules"
  unfolding default_currency_known_def by code_simp

text \<open>C7: Over PostgreSQL, a producer that got its 201 and pushes the same key again, with whatever
  content, after any other requests and whatever fails in between, gets 200 with the id it was
  given the first time, or a 500 it may retry; and the tables hold the same transactions as before
  the retry.\<close>

theorem retry_over_postgres:
  assumes "srv_store srv = pg_step L db_calls" and "default_currency_known L (srv_rules srv)"
    and "prometheus_ok (srv_accepts srv)"
    and "pg_ok L (fst (wd_store w))" and "accepted_request L srv r (wd_env w) = Some t"
    and "ingest_transaction L srv r w = (calls, p, w1)" and "rs_status (respond calls) = 201"
    and "handle_all L srv rs w1 = (answers, w2)"
    and "accepted_request L srv r' (wd_env w2) = Some u" and "key_of u = key_of t"
  shows "\<exists>w3. (ingest_transaction L srv r' w2
        = (write_json 200 (ingest_result_json (duplicate_result L (tx_id t))), None, w3)
      \<or> ingest_transaction L srv r' w2
        = (write_error 500 ''transaction could not be recorded'' [], None, w3))
    \<and> pg_found L (wd_store w3) = pg_found L (wd_store w2)"
proof -
  have adm: "\<forall>r e t. accepted_request L srv r e = Some t \<longrightarrow> pg_admits L t"
    using accepted_request_pg_admits [OF assms(2)] by blast
  have ok: "tx_ok L t" by (rule accepted_request_tx_ok [OF assms(5)])
  have view: "tx_id (pg_view t) = tx_id t" "tx_association (pg_view t) = AssociationReceived"
      "tx_settlement (pg_view t) = SettlementPriced"
    using ok by (simp_all add: pg_view_def tx_ok_def)
  obtain res s3 where st: "pg_step L db_calls (wd_store w2) u = (res, s3)"
    by (cases "pg_step L db_calls (wd_store w2) u")
  show ?thesis
  proof (cases res)
    case (Inr out)
    then have ok: "pg_step L db_calls (wd_store w2) u = (Inr out, s3)" using st by simp
    show ?thesis
      using pg.handled_retry [OF assms(1) adm assms(3-10) ok view] by blast
  next
    case (Inl e)
    have "countable_source (sources_of w2) (tx_source u)"
      using acknowledged_countable [OF assms(5,3,6-8)] assms(10) by (simp add: key_of_eq_iff)
    moreover have "srv_store srv (wd_store w2) u = (Inl e, s3)" using st Inl assms(1) by simp
    ultimately obtain w3 where w3: "ingest_transaction L srv r' w2
        = (write_error 500 ''transaction could not be recorded'' [], None, w3)" "wd_store w3 = s3"
      using accepted_total [OF assms(9,3), of "Inl e" s3] by (auto simp: counted_def store_answer_def)
    note known = pg.handled_known [OF assms(1) adm assms(3-8)]
    have "pg_admits L u" using adm assms(9) by blast
    moreover have "pg_step L db_calls (wd_store w2) u = (Inl e, s3)" using st Inl by simp
    ultimately have "pg_found L s3 = pg_found L (wd_store w2)"
      using pg.ingest_error [OF known(1)] known(2) assms(10) by (metis option.distinct(1))
    with w3 show ?thesis by blast
  qed
qed

theorem retry_over_postgres_witness:
  "\<exists>w1 w3. ingest_transaction ref_lib (demo_server (pg_step ref_lib demo_env) demo_body) demo_request w1
      = (write_json 200 (ingest_result_json (duplicate_result ref_lib (tx_id demo_tx))), None, w3)
    \<or> ingest_transaction ref_lib (demo_server (pg_step ref_lib demo_env) demo_body) demo_request w1
      = (write_error 500 ''transaction could not be recorded'' [], None, w3)"
proof -
  let ?srv = "demo_server (pg_step ref_lib demo_env) demo_body" and ?w = "demo_world (db_empty, 40)"
  have body: "demo_body = demo_body\<lparr>ir_source := ''lane-7''\<rparr>"
      "demo_submission = demo_submission\<lparr>sub_source := ''lane-7''\<rparr>"
    by (simp_all add: demo_body_def demo_submission_def)
  have acc: "accepted_request ref_lib ?srv demo_request e
      = Some (accepted_tx ref_lib demo_rules demo_now demo_submission (e + 1))" for e
    using demo_accepted_request [of "pg_step ref_lib demo_env" "''lane-7''" demo_request e] body by simp
  then have acc0: "accepted_request ref_lib ?srv demo_request (wd_env ?w) = Some demo_tx"
    by (simp add: demo_tx_def)
  have src: "source_label_valid (tx_source demo_tx)"
    by (simp add: demo_tx_def accepted_tx_def demo_submission_def source_label_valid_def
        utf8_valid_ascii is_ascii_def code_def)
  obtain d where d: "pg_step ref_lib demo_env (db_empty, 40) demo_tx = (answer_new demo_tx, d, 41)"
    using demo_push by blast
  obtain w1 where run: "ingest_transaction ref_lib ?srv demo_request ?w =
      (write_json 201 (ingest_result_json (to_result ref_lib
        \<lparr>out_transaction = demo_tx, out_duplicate = False, out_divergent = False\<rparr>)), None, w1)"
    using accepted_answer [OF acc0 demo_server_simps(5) src] d by (fastforce simp: answer_new_def)
  have known: "default_currency_known ref_lib (srv_rules ?srv)" by (simp add: demo_default_known)
  have ok: "pg_ok ref_lib (fst (wd_store ?w))" using db_holds_empty by (auto simp: pg_ok_def)
  have again: "handle_all ref_lib ?srv [] w1 = ([], w1)" by simp
  have key: "key_of (accepted_tx ref_lib demo_rules demo_now demo_submission (wd_env w1 + 1)) = key_of demo_tx"
    by (simp add: demo_tx_def accepted_tx_def key_of_def)
  show ?thesis
    using retry_over_postgres [OF demo_server_simps(3) known demo_server_simps(5) ok acc0 run _
        again acc key] by auto
qed

text \<open>C36: A source whose first 64 bytes end inside a character, although the source is valid text
  within the contract's 64 characters: as long as the label set is not full, or tracks that broken
  label already, a push under it that the rules accept goes to the store, whatever the store is,
  and the metrics panic afterwards, so the handler answers nothing, created or not; and every later
  push the rules accept under the same source, after any other requests, meets the same panic. (A
  full set that does not track the label counts the source among the others, and such a push is
  acknowledged like any other.)\<close>

theorem unlabelable_source_never_acknowledged:
  assumes "prometheus_ok (srv_accepts srv)"
    and "accepted_request L srv r (wd_env w) = Some tx" and "\<not> source_label_valid (tx_source tx)"
    and "take 64 (tx_source tx) \<in> set (sl_seen (m_sources (wd_metrics w)))
      \<or> \<not> sources_full (m_sources (wd_metrics w))"
    and "ingest_transaction L srv r w = (calls, p, w1)"
    and "handle_all L srv rs w1 = (answers, w2)"
    and "accepted_request L srv r' (wd_env w2) = Some u" and "tx_source u = tx_source tx"
  shows "calls = [] \<and> p = Some (Panic label_error)
    \<and> wd_store w1 = snd (srv_store srv (wd_store w) tx)
    \<and> (\<exists>w3. ingest_transaction L srv r' w2 = ([], Some (Panic label_error), w3)
        \<and> wd_store w3 = snd (srv_store srv (wd_store w2) u))"
proof -
  obtain res s where st: "srv_store srv (wd_store w) tx = (res, s)" by fastforce
  obtain res' s' where st': "srv_store srv (wd_store w2) u = (res', s')" by fastforce
  have bad: "\<not> countable_source (sources_of w) (tx_source tx)"
    using assms(3,4) by (auto simp: countable_source_iff)
  have first: "calls = [] \<and> p = Some (Panic label_error) \<and> wd_store w1 = s"
    "sources_of w1 = snd (label (sources_of w) (tx_source tx))"
    using accepted_total [OF assms(2,1) st] assms(5) bad by (auto simp: counted_def)
  have "labels_later (sources_of w1) (sources_of w2)"
    using handle_all_later [of w1 L srv rs] assms(6) by simp
  then have "\<not> countable_source (sources_of w2) (tx_source u)"
    using refused_later [OF bad] first(2) assms(8) by simp
  then show ?thesis
    using accepted_total [OF assms(7,1) st'] first(1) st st' by (auto simp: counted_def)
qed

theorem unlabelable_source_never_acknowledged_witness:
  "utf8_valid accented_source \<and> length (runes accented_source) \<le> 64
    \<and> (\<exists>w' w3.
        ingest_transaction ref_lib
          (demo_server (mem_ingest ref_lib) (demo_body\<lparr>ir_source := accented_source\<rparr>))
          demo_request (demo_world mem_new) = ([], Some (Panic label_error), w')
        \<and> mem_found (wd_store w')
            \<lparr>key_source = accented_source, key_source_reference = ''0001''\<rparr> \<noteq> None
        \<and> ingest_transaction ref_lib
          (demo_server (mem_ingest ref_lib) (demo_body\<lparr>ir_source := accented_source\<rparr>))
          demo_request w' = ([], Some (Panic label_error), w3))"
proof -
  let ?srv = "demo_server (mem_ingest ref_lib) (demo_body\<lparr>ir_source := accented_source\<rparr>)"
  let ?tx = "\<lambda>i. accepted_tx ref_lib demo_rules demo_now (demo_submission\<lparr>sub_source := accented_source\<rparr>) i"
  have valid: "utf8_valid accented_source" "length (runes accented_source) \<le> 64"
    by (simp_all add: utf8_valid_def accented_source_runes rune_error_def list_all_iff)
  have acc: "accepted_request ref_lib ?srv demo_request (wd_env w) = Some (?tx (wd_env w + 1))" for w
    by (simp add: demo_accepted_request)
  have src: "tx_source (?tx i) = accented_source"
    and key: "key_of (?tx i) = \<lparr>key_source = accented_source, key_source_reference = ''0001''\<rparr>" for i
    by (simp_all add: accepted_tx_def key_of_def demo_submission_def)
  have bad: "\<not> source_label_valid (tx_source (?tx i))" for i
    unfolding src source_label_valid_def utf8_valid_def accented_source_cut_runes by simp
  have free: "take 64 (tx_source (?tx i)) \<in> set (sl_seen (m_sources (wd_metrics (demo_world mem_new))))
      \<or> \<not> sources_full (m_sources (wd_metrics (demo_world mem_new)))" for i
    by (simp add: new_metrics_def new_source_labels_def sources_full_def max_tracked_sources_def)
  obtain calls p w1 where run: "ingest_transaction ref_lib ?srv demo_request (demo_world mem_new) = (calls, p, w1)"
    by (cases "ingest_transaction ref_lib ?srv demo_request (demo_world mem_new)")
  have again: "handle_all ref_lib ?srv [] w1 = ([], w1)" by simp
  have same: "tx_source (?tx i) = tx_source (?tx j)" for i j unfolding src ..
  note panics = unlabelable_source_never_acknowledged [OF demo_server_simps(5) acc bad free run again acc same]
  have "wd_store w1 = snd (mem_ingest ref_lib mem_new (?tx (wd_env (demo_world mem_new) + 1)))"
    using panics by (simp only: demo_server_simps)
  moreover have "mem_found (snd (mem_ingest ref_lib mem_new t)) (key_of t) \<noteq> None" for t
    by (simp only: mem_found_ingest) (simp split: option.split)
  ultimately have "mem_found (wd_store w1) (key_of (?tx (wd_env (demo_world mem_new) + 1))) \<noteq> None"
    by simp
  then show ?thesis using valid run panics unfolding key by blast
qed

end
