(* ===== verification/Router_Props.thy ===== *)
theory Router_Props
  imports Router Ingest_Props
begin

text \<open>
  What the layers guarantee for any handler inside them, and what the service answers with its
  own routes.
\<close>

section \<open>A request through the layers\<close>

definition inner_world :: "'e mw_env \<Rightarrow> request \<Rightarrow> ('e, 's) world \<Rightarrow> ('e, 's) world" where
  "inner_world M r w =
    (let e = snd (inbound_id M r (wd_env w)) in
     if is_probe (rq_path r) then w\<lparr>wd_env := e\<rparr> else w\<lparr>wd_env := snd (mw_now M e)\<rparr>)"

definition id_of :: "'e mw_env \<Rightarrow> request \<Rightarrow> ('e, 's) world \<Rightarrow> string" where
  "id_of M r w = fst (inbound_id M r (wd_env w))"

lemma inner_world_simps [simp]:
  "wd_store (inner_world M r w) = wd_store w" "wd_metrics (inner_world M r w) = wd_metrics w"
  "wd_log (inner_world M r w) = wd_log w"
  by (simp_all add: inner_world_def Let_def)

definition access_line :: "request \<Rightarrow> string \<Rightarrow> int \<Rightarrow> nat \<Rightarrow> duration \<Rightarrow> log_line" where
  "access_line r i status bytes took =
    \<lparr>lg_level = Level_Info, lg_msg = ''http request'', lg_attrs =
      [(''request_id'', i), (''method'', rq_method r), (''path'', rq_path r),
       (''status'', show_int status), (''bytes'', show_nat bytes), (''duration'', dur_string took),
       (''remote_addr'', rq_remote_addr r), (''user_agent'', header_get ''User-Agent'' r)]\<rparr>"

lemma inner_request_more [simp]:
  "rq_remote_addr (inner_request r i) = rq_remote_addr r"
  "header_get k (inner_request r i) = header_get k r"
  by (simp_all add: inner_request_def header_get_def Let_def)

lemma countable_inner [simp]: "countable_request accepts (inner_request r i) w = countable_request accepts r w"
  by (simp add: countable_request_def)

lemma count_http_inner [simp]: "count_http (inner_request r i) s w = count_http r s w"
  by (simp add: count_http_def)

lemma layers_result:
  assumes "caught M (inner_request r (id_of M r w)) (h (inner_request r (id_of M r w)) (inner_world M r w))
      = (calls, None, w1)"
    and "countable_request accepts r w1"
  shows "\<exists>w' took. chain h (service_layers M accepts) r w
      = (Set_Header request_id_header (id_of M r w) # calls, None, w')
    \<and> wd_store w' = wd_store w1
    \<and> wd_metrics w' = wd_metrics (count_http r (status_code (recorded calls)) w1)
    \<and> wd_log w' = wd_log w1 @ (if is_probe (rq_path r) then []
        else [access_line r (id_of M r w) (status_code (recorded calls)) (rc_bytes (recorded calls)) took])"
proof -
  obtain i e where ie: "inbound_id M r (wd_env w) = (i, e)" by fastforce
  have i: "id_of M r w = i" by (simp add: id_of_def ie)
  let ?r = "inner_request r i" and ?c = "count_http r (status_code (recorded calls)) w1"
  have inner: "metrics_mw accepts (recover M h) ?r (inner_world M r w) = (calls, None, ?c)"
    using metrics_mw_counts [of M h ?r "inner_world M r w" calls w1 accepts] assms
    by (simp add: recover_caught i)
  show ?thesis
  proof (cases "is_probe (rq_path r)")
    case True
    then have "logger M (metrics_mw accepts (recover M h)) ?r (w\<lparr>wd_env := e\<rparr>) = (calls, None, ?c)"
      using inner by (simp add: logger_def inner_world_def ie)
    then show ?thesis using True by (simp add: layers_outer ie i)
  next
    case False
    obtain start e0 where now: "mw_now M e = (start, e0)" by fastforce
    have inner0: "metrics_mw accepts (recover M h) ?r (w\<lparr>wd_env := e0\<rparr>) = (calls, None, ?c)"
      using inner False by (simp add: inner_world_def ie now)
    obtain took e1 where since: "mw_since M start (wd_env ?c) = (took, e1)" by fastforce
    let ?line = "access_line r i (status_code (recorded calls)) (rc_bytes (recorded calls)) took"
    have "logger M (metrics_mw accepts (recover M h)) ?r (w\<lparr>wd_env := e\<rparr>)
        = (calls, None, (?c\<lparr>wd_env := e1\<rparr>)\<lparr>wd_log := wd_log ?c @ [?line]\<rparr>)"
      using False since
      by (simp add: logger_def now inner0 log_attrs_def access_line_def request_id_from_def Let_def)
    then show ?thesis using False by (auto simp: layers_outer ie i)
  qed
qed

text \<open>Only the status and the body of a response are compared across an added header.\<close>

lemma writer_header:
  assumes "wr_body wr = wr_body wr2" and "map_option fst (wr_sent wr) = map_option fst (wr_sent wr2)"
  shows "wr_body (fold writer_step calls wr) = wr_body (fold writer_step calls wr2)
    \<and> map_option fst (wr_sent (fold writer_step calls wr))
      = map_option fst (wr_sent (fold writer_step calls wr2))"
  using assms
proof (induction calls arbitrary: wr wr2)
  case (Cons c calls)
  have none: "wr_sent wr = None \<longleftrightarrow> wr_sent wr2 = None"
    using Cons.prems(2) by (cases "wr_sent wr"; cases "wr_sent wr2") simp_all
  have "wr_body (writer_step c wr) = wr_body (writer_step c wr2)
      \<and> map_option fst (wr_sent (writer_step c wr)) = map_option fst (wr_sent (writer_step c wr2))"
    using Cons.prems none by (cases c) (simp_all add: Let_def)
  then show ?case
    using Cons.IH [of "writer_step c wr" "writer_step c wr2"] by (simp only: fold_simps comp_apply)
qed (simp only: fold_simps id_apply)

lemma respond_status: "rs_status (respond calls)
    = (case map_option fst (wr_sent (fold writer_step calls new_writer)) of None \<Rightarrow> 200 | Some s \<Rightarrow> s)"
  by (auto simp: respond_def Let_def split: option.splits)

lemma respond_header:
  "rs_status (respond (Set_Header k v # calls)) = rs_status (respond calls)"
  using writer_header [of "new_writer\<lparr>wr_header := gm_set k v (wr_header new_writer)\<rparr>" new_writer calls]
  by (simp add: respond_status)

lemma sent_stays: "wr_sent wr = Some x \<Longrightarrow> wr_sent (fold writer_step calls wr) = Some x"
proof (induction calls arbitrary: wr)
  case (Cons c calls)
  then have "wr_sent (writer_step c wr) = Some x" by (cases c) (auto simp: Let_def)
  then show ?case using Cons.IH by simp
qed simp

definition nothing_sent :: "writer_call list \<Rightarrow> bool" where
  "nothing_sent calls = list_all (\<lambda>c. case c of Set_Header _ _ \<Rightarrow> True | _ \<Rightarrow> False) calls"

lemma sent_iff:
  "wr_sent wr = None \<Longrightarrow> wr_sent (fold writer_step calls wr) = None \<longleftrightarrow> nothing_sent calls"
proof (induction calls arbitrary: wr)
  case (Cons c calls)
  show ?case
  proof (cases c)
    case (Set_Header k v)
    then show ?thesis using Cons by (simp add: nothing_sent_def)
  next
    case (Write_Header s)
    then show ?thesis using Cons.prems by (simp add: nothing_sent_def sent_stays)
  next
    case (Write_Body b)
    then show ?thesis using Cons.prems by (simp add: nothing_sent_def sent_stays Let_def)
  qed
qed (simp add: nothing_sent_def)

lemma body_sent:
  "wr_sent wr = None \<Longrightarrow> nothing_sent calls \<Longrightarrow>
    wr_sent (fold writer_step calls wr) = None \<and> wr_body (fold writer_step calls wr) = wr_body wr"
proof (induction calls arbitrary: wr)
  case (Cons c calls)
  then show ?case by (cases c) (auto simp: nothing_sent_def)
qed simp

lemma respond_body: "rs_body (respond calls) = wr_body (fold writer_step calls new_writer)"
proof (cases "nothing_sent calls")
  case True
  then show ?thesis using body_sent [of new_writer calls] by (simp add: respond_def new_writer_def Let_def)
next
  case False
  then show ?thesis using sent_iff [of new_writer calls]
    by (auto simp: respond_def new_writer_def Let_def)
qed

lemma respond_append:
  "rs_status (respond (a @ b)) = (if nothing_sent a then rs_status (respond b) else rs_status (respond a))"
  "nothing_sent a \<Longrightarrow> rs_body (respond (a @ b)) = rs_body (respond b)"
proof -
  let ?w = "fold writer_step a new_writer"
  have new: "wr_sent new_writer = None" "wr_body new_writer = []" by (simp_all add: new_writer_def)
  have same: "wr_body (fold writer_step b ?w) = wr_body (fold writer_step b new_writer)
      \<and> map_option fst (wr_sent (fold writer_step b ?w))
        = map_option fst (wr_sent (fold writer_step b new_writer))" if "nothing_sent a"
    using body_sent [OF new(1) that] new by (intro writer_header) simp_all
  show "rs_status (respond (a @ b))
      = (if nothing_sent a then rs_status (respond b) else rs_status (respond a))"
  proof (cases "nothing_sent a")
    case True
    then show ?thesis using same by (simp add: respond_status)
  next
    case False
    then obtain x where "wr_sent ?w = Some x"
      using sent_iff [OF new(1), of a] by (cases "wr_sent ?w") auto
    then show ?thesis using False by (simp add: respond_status sent_stays)
  qed
  show "rs_body (respond (a @ b)) = rs_body (respond b)" if "nothing_sent a"
    using same [OF that] unfolding respond_body by simp
qed

lemma respond_header_body:
  "rs_body (respond (Set_Header k v # calls)) = rs_body (respond calls)"
  using writer_header [of "new_writer\<lparr>wr_header := gm_set k v (wr_header new_writer)\<rparr>" new_writer calls]
  by (simp add: respond_body)

lemma recorded_status:
  assumes "\<forall>s. Write_Header s \<in> set calls \<longrightarrow> s \<noteq> 0"
  shows "status_code (recorded calls) = rs_status (respond (Set_Header k v # calls))"
  using status_code_respond(1) [OF assms] by (simp add: respond_header)

text \<open>What ASCII labels make of the counting condition.\<close>

lemma show_nat_ascii: "list_all is_ascii (show_nat n)"
proof -
  have "is_digit c \<Longrightarrow> is_ascii c" for c by (simp add: is_digit_def is_ascii_def)
  then show ?thesis using show_nat_digits [of n] by (auto simp: list_all_iff)
qed

lemma show_int_ascii: "list_all is_ascii (show_int i)"
  by (simp add: show_int_def show_nat_ascii) (simp add: is_ascii_def code_def)

lemma countableI:
  assumes "prometheus_ok accepts" and "utf8_valid (rq_method r)" and "utf8_valid (wd_pattern w)"
  shows "countable_request accepts r w"
proof -
  have "utf8_valid ''unmatched''" by (rule utf8_valid_ascii) code_simp
  then show ?thesis
    using assms utf8_valid_ascii [OF show_int_ascii]
    by (simp add: countable_request_def prometheus_ok_def route_of_def)
qed

lemma writer_body: "wr_body (fold writer_step calls wr) = wr_body wr @ wr_body (fold writer_step calls new_writer)"
proof (induction calls rule: rev_induct)
  case (snoc c calls)
  have "wr_body (writer_step c w) = wr_body w @ (case c of Write_Body b \<Rightarrow> b | _ \<Rightarrow> [])" for w
    by (cases c) (simp_all add: Let_def)
  then show ?case using snoc by (simp only: fold_append comp_apply fold_simps append_assoc)
qed (simp add: new_writer_def)

lemma respond_append_body: "rs_body (respond (a @ b)) = rs_body (respond a) @ rs_body (respond b)"
  using writer_body [of b "fold writer_step a new_writer"] by (simp add: respond_body)

text \<open>What the recovery layer logs.\<close>

definition panic_lines :: "'e mw_env \<Rightarrow> request \<Rightarrow> string \<Rightarrow> panic option \<Rightarrow> log_line list" where
  "panic_lines M r i p =
    (case p of
       Some (Panic t) \<Rightarrow>
         [\<lparr>lg_level = Level_Error, lg_msg = ''panic recovered'', lg_attrs =
            [(''request_id'', i), (''method'', rq_method r), (''path'', rq_path r),
             (''panic'', t), (''stack'', mw_stack M)]\<rparr>]
     | _ \<Rightarrow> [])"

lemma caught_cases:
  assumes "p0 \<noteq> Some Abort_Handler"
  obtains w2 where "caught M (inner_request r i) (calls, p0, w) = (calls @ (if p0 = None then [] else
      [Set_Header ''Content-Type'' ''application/json'', Write_Header 500, Write_Body panic_body]),
      None, w2)" and "wd_metrics w2 = wd_metrics w" and "wd_pattern w2 = wd_pattern w"
    and "wd_store w2 = wd_store w" and "wd_log w2 = wd_log w @ panic_lines M r i p0"
proof (cases p0)
  case None
  then show ?thesis using that [of w] by (simp add: caught_fine panic_lines_def)
next
  case (Some pn)
  then obtain t where t: "p0 = Some (Panic t)" using assms by (cases pn) auto
  let ?w = "log_attrs Level_Error ''panic recovered''
    [(''request_id'', i), (''method'', rq_method r), (''path'', rq_path r),
     (''panic'', t), (''stack'', mw_stack M)] w"
  show ?thesis
  proof (rule that [of ?w])
    show "caught M (inner_request r i) (calls, p0, w) = (calls @ (if p0 = None then [] else
        [Set_Header ''Content-Type'' ''application/json'', Write_Header 500, Write_Body panic_body]),
        None, ?w)"
      using t by (simp add: caught_panic request_id_from_def)
    show "wd_log ?w = wd_log w @ panic_lines M r i p0"
      using t by (simp add: panic_lines_def log_attrs_def)
  qed simp_all
qed

lemma respond_nothing [simp]: "rs_body (respond []) = []"
  by (simp add: respond_def new_writer_def)

section \<open>Properties\<close>


text \<open>A deployment of the layers for the witnesses.\<close>

definition demo_rand :: "uuid \<Rightarrow> string \<times> uuid" where
  "demo_rand e = (replicate 16 (CHR 0xAB), e)"

definition demo_mw :: "uuid mw_env" where
  "demo_mw = \<lparr>mw_rand = demo_rand, mw_now = demo_clock, mw_since = (\<lambda>t e. (0, e)), mw_stack = []\<rparr>"

definition demo_get :: "string \<Rightarrow> string \<Rightarrow> request" where
  "demo_get meth path = \<lparr>rq_method = meth, rq_path = path, rq_header = [], rq_body = None,
    rq_limit = None, rq_id = None, rq_remote_addr = []\<rparr>"

definition demo_start :: "(uuid, unit) world" where
  "demo_start =
    \<lparr>wd_env = 6, wd_store = (), wd_metrics = new_metrics, wd_log = [], wd_pattern = []\<rparr>"


lemma find_ingest:
  assumes "rq_method r = ''POST''" and "rq_path r = ingest_path"
  shows "serve_mux (service_routes L srv V ck prom) r w
    = spec_validator V (srv_accepts srv) (ingest_transaction L srv) r
        (w\<lparr>wd_pattern := ''POST /ingest/v1/transactions''\<rparr>)"
  using assms
  by (simp add: serve_mux_def service_routes_def answers_method_def ingest_path_def
      route_pattern_def wrapped_operation_def)

lemma pattern_valid: "utf8_valid ''POST /ingest/v1/transactions''"
  by (rule utf8_valid_ascii) code_simp

lemma post_valid: "utf8_valid ''POST''"
  by (rule utf8_valid_ascii) code_simp

text \<open>A body over the limit of one mebibyte never reaches the rules or the store: the push is
  answered 413 with the limit in its fields, whatever the rest of the request, and no transaction
  is recorded.\<close>

theorem oversized_body_refused:
  assumes "new_router L srv (Inr V) ck prom M = Inr serve" and "validator_reads V"
    and "prometheus_ok (srv_accepts srv)"
    and "rq_method r = ''POST''" and "rq_path r = ''/ingest/v1/transactions''"
    and "rq_body r = Some body" and "rq_limit r = None" and "1048576 < length body"
  shows "\<exists>calls w'. serve r w = (calls, None, w') \<and> rs_status (respond calls) = 413
    \<and> rs_body (respond calls) = rs_body (respond (write_error 413 ''request body is too large''
        [\<lparr>fe_field = ''body'', fe_reason = ''must not exceed 1048576 bytes''\<rparr>]))
    \<and> wd_store w' = wd_store w"
proof -
  let ?i = "id_of M r w" and ?h = "serve_mux (service_routes L srv V ck prom)"
  let ?r = "inner_request r ?i" and ?w = "inner_world M r w"
  let ?wp = "?w\<lparr>wd_pattern := ''POST /ingest/v1/transactions''\<rparr>"
  let ?w1 = "log_attrs Level_Warn ''request body exceeded the limit''
    [(''request_id'', request_id_from ?r), (''limit_bytes'', ''1048576'')] ?wp"
  have limit: "show_int 1048576 = ''1048576''" by code_simp
  have big: "read_body ?r = Inl 1048576"
    using assms(6-8) by (simp add: read_body_def inner_request_def Let_def)
  have w1: "?h ?r ?w = (write_error 413 ''request body is too large''
       [\<lparr>fe_field = ''body'', fe_reason = ''must not exceed 1048576 bytes''\<rparr>], None, ?w1)"
    using find_ingest [of ?r L srv V ck prom ?w] assms(4,5)
      spec_validator_too_large [OF assms(2) big, where accepts = "srv_accepts srv" and w = ?wp]
    by (simp add: ingest_path_def limit)
  have same: "wd_store ?w1 = wd_store w" "wd_pattern ?w1 = ''POST /ingest/v1/transactions''" by simp_all
  have count: "countable_request (srv_accepts srv) r ?w1"
    using assms(3,4) same(2) pattern_valid post_valid by (intro countableI) simp_all
  have "caught M ?r (?h ?r ?w) = (write_error 413 ''request body is too large''
       [\<lparr>fe_field = ''body'', fe_reason = ''must not exceed 1048576 bytes''\<rparr>], None, ?w1)"
    unfolding w1 by (rule caught_fine)
  from layers_result [where h = ?h, OF this count] same(1) assms(1) show ?thesis
    by (auto simp: new_router_def respond_header respond_header_body respond_write_error)
qed

text \<open>The service for the witnesses: its contract check reports only a body it cannot read.\<close>

definition demo_check :: "request \<Rightarrow> (spec_err \<times> int) option" where
  "demo_check r =
    (case read_body r of
       Inl n \<Rightarrow> Some (Other_Error [] (Some (Max_Bytes_Error n)), 400)
     | Inr b \<Rightarrow> None)"

definition demo_validator :: validator where
  "demo_validator = \<lparr>vd_check = demo_check, vd_error_text = (\<lambda>e. [])\<rparr>"

lemma demo_validator_reads: "validator_reads demo_validator"
  by (simp add: validator_reads_def demo_validator_def demo_check_def as_max_bytes.simps)

definition demo_service :: "(uuid, unit) world handler" where
  "demo_service =
    chain (serve_mux (service_routes ref_lib (demo_server (\<lambda>s t. (Inl ''down'', s)) demo_body)
        demo_validator (new_checker 0) (\<lambda>r w. ([], None, w))))
      (service_layers demo_mw (list_all utf8_valid))"

lemma demo_service_router:
  "new_router ref_lib (demo_server (\<lambda>s t. (Inl ''down'', s)) demo_body) (Inr demo_validator)
    (new_checker 0) (\<lambda>r w. ([], None, w)) demo_mw = Inr demo_service"
  by (simp add: new_router_def demo_service_def demo_server_def)

definition big_body :: string where
  "big_body = replicate 1048577 (CHR ''x'')"

lemma length_big_body: "length big_body = 1048577"
  by (simp only: big_body_def length_replicate)

definition big_request :: request where
  "big_request = (demo_get ''POST'' ''/ingest/v1/transactions'')\<lparr>rq_body := Some big_body\<rparr>"

theorem oversized_body_refused_witness:
  "\<exists>calls w'. demo_service big_request demo_start = (calls, None, w')
    \<and> rs_status (respond calls) = 413"
proof -
  have "prometheus_ok (srv_accepts (demo_server (\<lambda>s t. (Inl ''down'', s)) demo_body))" by simp
  moreover have "rq_method big_request = ''POST''" "rq_path big_request = ''/ingest/v1/transactions''"
    "rq_body big_request = Some big_body" "rq_limit big_request = None"
    by (simp_all add: big_request_def demo_get_def)
  moreover have "1048576 < length big_body" by (simp add: length_big_body)
  ultimately show ?thesis
    using oversized_body_refused [OF demo_service_router demo_validator_reads, of big_request big_body demo_start]
    by blast
qed

definition made_up :: "nat \<Rightarrow> request" where
  "made_up k = demo_get (replicate (Suc k) (CHR ''X'')) ''/x''"

definition serve_requests :: "'w handler \<Rightarrow> request list \<Rightarrow> 'w \<Rightarrow> 'w" where
  "serve_requests serve rs w = fold (\<lambda>r w. snd (snd (serve r w))) rs w"

definition made_up_series :: "nat \<Rightarrow> string list \<times> nat" where
  "made_up_series k = ([replicate (Suc k) (CHR ''X''), ''unmatched'', ''404''], 1)"

lemma made_up_served:
  assumes "new_router L srv (Inr V) ck prom M = Inr serve" and "prometheus_ok (srv_accepts srv)"
  shows "\<exists>calls w'. serve (made_up k) w = (calls, None, w')
    \<and> m_http_requests (wd_metrics w')
      = inc [replicate (Suc k) (CHR ''X''), ''unmatched'', ''404''] (m_http_requests (wd_metrics w))"
proof -
  let ?r = "made_up k" and ?h = "serve_mux (service_routes L srv V ck prom)"
  let ?i = "id_of M ?r w" and ?w = "inner_world M ?r w"
  have "rq_path (inner_request ?r ?i) = ''/x''" by (simp add: made_up_def demo_get_def)
  then have h: "?h (inner_request ?r ?i) ?w = (http_error 404 ''404 page not found'', None, ?w\<lparr>wd_pattern := []\<rparr>)"
    by (simp add: serve_mux_def service_routes_def ingest_path_def allowed_methods_def)
  have "utf8_valid (rq_method ?r)"
    by (rule utf8_valid_ascii) (simp add: made_up_def demo_get_def list_all_iff is_ascii_def code_def)
  then have count: "countable_request (srv_accepts srv) ?r (?w\<lparr>wd_pattern := []\<rparr>)"
    using assms(2) by (intro countableI) (simp_all add: utf8_valid_def)
  have "caught M (inner_request ?r ?i) (?h (inner_request ?r ?i) ?w)
      = (http_error 404 ''404 page not found'', None, ?w\<lparr>wd_pattern := []\<rparr>)"
    unfolding h by (rule caught_fine)
  moreover have "status_code (recorded (http_error 404 ''404 page not found'')) = 404"
    by (simp add: http_error_def recorded_def status_code_def Let_def)
  moreover have "show_int 404 = ''404''" by code_simp
  ultimately show ?thesis
    using layers_result [where h = ?h, OF _ count] assms(1)
    by (fastforce simp: new_router_def count_http_def route_of_def made_up_def demo_get_def)
qed

lemma replicate_Suc_inject: "replicate (Suc a) c = replicate (Suc b) c \<longleftrightarrow> a = b"
  by (metis length_replicate nat.inject)

text \<open>The route label is bounded but the method is not: for every \<open>n\<close> there are \<open>n\<close> requests
  after which the service keeps \<open>n\<close> more time series of \<open>http_requests_total\<close>, one for each
  method name the caller made up.\<close>

theorem http_series_unbounded:
  assumes "new_router L srv (Inr V) ck prom M = Inr serve" and "prometheus_ok (srv_accepts srv)"
    and "m_http_requests (wd_metrics w) = []"
  shows "m_http_requests (wd_metrics (serve_requests serve (map made_up [0..<n]) w))
      = map made_up_series [0..<n]
    \<and> distinct (map fst (map made_up_series [0..<n]))"
proof -
  have fresh: "map_of (map made_up_series [0..<n]) [replicate (Suc n) (CHR ''X''), ''unmatched'', ''404''] = None" for n
    by (auto simp: map_of_eq_None_iff made_up_series_def replicate_Suc_inject simp del: replicate.simps)
  have "m_http_requests (wd_metrics (serve_requests serve (map made_up [0..<n]) w)) = map made_up_series [0..<n]"
  proof (induction n)
    case 0
    show ?case using assms(3) by (simp add: serve_requests_def)
  next
    case (Suc n)
    obtain calls w' where "serve (made_up n) (serve_requests serve (map made_up [0..<n]) w) = (calls, None, w')"
      and "m_http_requests (wd_metrics w') = inc [replicate (Suc n) (CHR ''X''), ''unmatched'', ''404'']
        (map made_up_series [0..<n])"
      using made_up_served [OF assms(1,2)] Suc by metis
    then show ?case
      using fresh [of n] by (simp add: serve_requests_def inc_def gm_set_fresh made_up_series_def del: replicate.simps)
  qed
  moreover have "distinct (map fst (map made_up_series [0..<n]))"
    by (auto simp: distinct_map inj_on_def made_up_series_def comp_def replicate_Suc_inject
        simp del: replicate.simps)
  ultimately show ?thesis by blast
qed

theorem http_series_unbounded_witness:
  "length (m_http_requests (wd_metrics (serve_requests demo_service (map made_up [0..<3]) demo_start))) = 3"
proof -
  have "m_http_requests (wd_metrics demo_start) = []" by (simp add: demo_start_def new_metrics_def)
  then show ?thesis
    using http_series_unbounded [OF demo_service_router, of demo_start 3]
    by (simp add: demo_server_simps)
qed

end
