(* ===== verification/Backoff.thy ===== *)
theory Backoff
  imports Go_Time
begin

text \<open>
  \<open>backoffFor\<close> of \<open>internal/outbox/relay.go\<close> and the options it reads, with the floating-point
  arithmetic it does. A \<open>float64\<close> that is a whole number is a natural number whose leading 53
  bits are kept; a product with a power of two is exact; the conversion of a float outside the
  range of \<open>int64\<close> is left open by Go's specification, so its result is a parameter.
\<close>

record relay_options =
  op_batch_size :: int
  op_poll_interval :: duration
  op_base_backoff :: duration
  op_max_backoff :: duration
  op_max_attempts :: int

definition default_relay_options :: relay_options where
  "default_relay_options =
    \<lparr>op_batch_size = 100, op_poll_interval = 2 * second, op_base_backoff = second,
     op_max_backoff = 5 * minute, op_max_attempts = 10\<rparr>"

text \<open>The options of \<open>NewRelay\<close>: a value that is not positive is replaced by its default.\<close>

definition relay_options_of :: "relay_options \<Rightarrow> relay_options" where
  "relay_options_of o1 =
    (let d = default_relay_options;
         o1 = (if op_batch_size o1 \<le> 0 then o1\<lparr>op_batch_size := op_batch_size d\<rparr> else o1);
         o1 = (if op_poll_interval o1 \<le> 0 then o1\<lparr>op_poll_interval := op_poll_interval d\<rparr> else o1);
         o1 = (if op_base_backoff o1 \<le> 0 then o1\<lparr>op_base_backoff := op_base_backoff d\<rparr> else o1);
         o1 = (if op_max_backoff o1 \<le> 0 then o1\<lparr>op_max_backoff := op_max_backoff d\<rparr> else o1)
     in if op_max_attempts o1 \<le> 0 then o1\<lparr>op_max_attempts := op_max_attempts d\<rparr> else o1)"

text \<open>The nearest \<open>float64\<close> of a natural number, ties to even.\<close>

fun bit_length :: "nat \<Rightarrow> nat" where
  "bit_length n = (if n = 0 then 0 else Suc (bit_length (n div 2)))"

declare bit_length.simps [simp del]

definition float64_of :: "nat \<Rightarrow> nat" where
  "float64_of n =
    (let k = bit_length n - 53; q = n div 2 ^ k; r = n mod 2 ^ k; half = 2 ^ (k - 1)
     in if k = 0 then n
        else if r > half \<or> r = half \<and> odd q then (q + 1) * 2 ^ k else q * 2 ^ k)"

text \<open>
  \<open>time.Duration(float64(base) * math.Pow(2, float64(attempts-1)))\<close>. At \<open>2 ^ 1024\<close> the power is
  infinite; it is then, as any product from \<open>2 ^ 63\<close> on, outside the range of the conversion.
\<close>

definition duration_of_float :: "int \<Rightarrow> nat \<Rightarrow> duration" where
  "duration_of_float out_of_range x = (if x < 2 ^ 63 then int x else out_of_range)"

definition backoff_for :: "relay_options \<Rightarrow> int \<Rightarrow> int \<Rightarrow> duration" where
  "backoff_for opts out_of_range attempts =
    (if attempts \<le> 1 then op_base_backoff opts
     else
       (let multiplier = 2 ^ nat (attempts - 1);
            backoff = duration_of_float out_of_range (float64_of (nat (op_base_backoff opts)) * multiplier)
        in if backoff \<le> 0 \<or> op_max_backoff opts < backoff then op_max_backoff opts else backoff))"

definition parked_backoff :: duration where
  "parked_backoff = 24 * hour"

lemmas backoff_eval [model_defs] =
  default_relay_options_def relay_options_of_def float64_of_def duration_of_float_def
  backoff_for_def parked_backoff_def

lemma bit_length_bound: "n < 2 ^ bit_length n"
proof (induction n rule: bit_length.induct)
  case (1 n)
  show ?case
  proof (cases "n = 0")
    case False
    then have "n div 2 < 2 ^ bit_length (n div 2)" using 1 by simp
    then have "n < 2 * 2 ^ bit_length (n div 2)" by linarith
    then show ?thesis using False by (subst bit_length.simps) simp
  qed simp
qed

lemma bit_length_le: "n < 2 ^ k \<Longrightarrow> bit_length n \<le> k"
proof (induction k arbitrary: n)
  case (Suc k)
  show ?case
  proof (cases "n = 0")
    case False
    have "n div 2 < 2 ^ k" using Suc.prems by simp
    then show ?thesis using Suc.IH False by (subst bit_length.simps) simp
  qed (simp add: bit_length.simps)
qed (simp add: bit_length.simps)

lemma float64_exact: "n < 2 ^ 53 \<Longrightarrow> float64_of n = n"
  using bit_length_le [of n 53] by (simp add: float64_of_def)

lemma relay_options_positive:
  "0 < op_batch_size (relay_options_of p)" "0 < op_poll_interval (relay_options_of p)"
  "0 < op_base_backoff (relay_options_of p)" "0 < op_max_backoff (relay_options_of p)"
  "0 < op_max_attempts (relay_options_of p)"
  by (simp_all add: relay_options_of_def default_relay_options_def Let_def second_def minute_def)

text \<open>
  What \<open>backoff_for\<close> relies on: whatever the conversion makes of an out-of-range value, the
  result is not between one and the cap. The two documented behaviours, the least \<open>int64\<close> and
  saturation, both satisfy it for every cap below the greatest \<open>int64\<close>.
\<close>

definition conversion_ok :: "relay_options \<Rightarrow> int \<Rightarrow> bool" where
  "conversion_ok opts x \<longleftrightarrow> x \<le> 0 \<or> op_max_backoff opts < x"

lemma conversion_ok_documented:
  assumes "op_max_backoff opts < int64_max"
  shows "conversion_ok opts int64_min" and "conversion_ok opts int64_max"
  using assms by (simp_all add: conversion_ok_def int64_min_def)

section \<open>Properties\<close>

text \<open>C35: The retry delay: from the second attempt on it is the base delay doubled once per earlier
  attempt and capped, computed without error for every base below 2 to the 53rd nanoseconds
  (104 days) and every number of attempts, however large; so it never decreases from the second
  attempt on. The first delay is the base itself, capped or not.\<close>

theorem backoff_doubles_to_cap:
  assumes "0 < op_base_backoff opts" and "op_base_backoff opts < 2 ^ 53"
    and "0 < op_max_backoff opts" and "op_max_backoff opts < 2 ^ 63" and "conversion_ok opts x"
  shows "backoff_for opts x n =
      (if n \<le> 1 then op_base_backoff opts
       else min (op_max_backoff opts) (op_base_backoff opts * 2 ^ nat (n - 1)))
    \<and> (2 \<le> n \<and> n \<le> m \<longrightarrow> backoff_for opts x n \<le> backoff_for opts x m)"
proof -
  have eq: "backoff_for opts x n =
      (if n \<le> 1 then op_base_backoff opts
       else min (op_max_backoff opts) (op_base_backoff opts * 2 ^ nat (n - 1)))" for n
  proof (cases "n \<le> 1")
    case False
    let ?b = "nat (op_base_backoff opts)" and ?p = "(2 :: nat) ^ nat (n - 1)"
    have b: "int ?b = op_base_backoff opts" "?b < 2 ^ 53" using assms(1,2) by (simp_all add: nat_less_iff)
    have prod: "int (?b * ?p) = op_base_backoff opts * 2 ^ nat (n - 1)" using b(1) by simp
    have pos: "0 < op_base_backoff opts * 2 ^ nat (n - 1)" using assms(1) by simp
    show ?thesis
    proof (cases "?b * ?p < 2 ^ 63")
      case True
      then show ?thesis
        using False prod pos b(2)
        by (auto simp: backoff_for_def Let_def duration_of_float_def float64_exact min_def)
    next
      case big: False
      then have "2 ^ 63 \<le> op_base_backoff opts * 2 ^ nat (n - 1)"
        unfolding prod [symmetric] by (simp add: not_less flip: of_nat_le_iff [where 'a = int])
      then show ?thesis
        using False big assms(4,5) b(2)
        by (auto simp: backoff_for_def Let_def duration_of_float_def float64_exact conversion_ok_def)
    qed
  qed (simp add: backoff_for_def)
  have "op_base_backoff opts * 2 ^ nat (n - 1) \<le> op_base_backoff opts * 2 ^ nat (m - 1)"
    if "2 \<le> n" "n \<le> m"
    using that assms(1) by (intro mult_left_mono power_increasing) auto
  then show ?thesis using eq [of n] eq [of m] by auto
qed

theorem backoff_doubles_to_cap_witness:
  "backoff_for default_relay_options int64_min 4 = 8 * second
    \<and> backoff_for default_relay_options int64_min 5000 = 5 * minute"
proof -
  let ?o = default_relay_options
  have o: "0 < op_base_backoff ?o" "op_base_backoff ?o < 2 ^ 53" "0 < op_max_backoff ?o"
      "op_max_backoff ?o < 2 ^ 63" "conversion_ok ?o int64_min"
    by (simp_all add: default_relay_options_def conversion_ok_def second_def minute_def int64_min_def)
  have "(300 :: int) \<le> 2 ^ 9" by simp
  also have "(2 :: int) ^ 9 \<le> 2 ^ 4999" by (rule power_increasing) simp_all
  finally have big: "5 * minute \<le> second * 2 ^ 4999" by (simp add: minute_def second_def)
  show ?thesis
    using backoff_doubles_to_cap [OF o, of 4 4] backoff_doubles_to_cap [OF o, of 5000 5000] big
    by (simp add: default_relay_options_def min_def minute_def second_def)
qed

end
