(* ===== verification/Work_Queue.thy ===== *)
theory Work_Queue
  imports Prelude
begin

text \<open>
  The interface between the relay and the outbox table: a queue whose items are settled or put
  off, and never dropped. The relay's bookkeeping over a batch is proved against it once.
\<close>

locale work_queue =
  fixes items :: "'q \<Rightarrow> 'e list"
    and settled :: "'q \<Rightarrow> 'e set"
    and settle :: "'e \<Rightarrow> 'q \<Rightarrow> 'q"
    and put_off :: "'e \<Rightarrow> 'f \<Rightarrow> 'q \<Rightarrow> 'q"
  assumes settle_items: "items (settle e q) = items q"
    and put_off_items: "items (put_off e f q) = items q"
    and settle_settled: "e \<in> set (items q) \<Longrightarrow> settled (settle e q) = insert e (settled q)"
    and put_off_settled: "settled (put_off e f q) = settled q"
begin

text \<open>A batch of items with the verdict on each: settled, or put off for a reason.\<close>

fun process :: "('e \<times> 'f option) list \<Rightarrow> 'q \<Rightarrow> 'q" where
  "process [] q = q"
| "process ((e, None) # vs) q = process vs (settle e q)"
| "process ((e, Some f) # vs) q = process vs (put_off e f q)"

lemma process_items: "items (process vs q) = items q"
  by (induction vs q rule: process.induct) (simp_all add: settle_items put_off_items)

lemma process_settled:
  "\<forall>(e, v) \<in> set vs. e \<in> set (items q) \<Longrightarrow>
    settled (process vs q) = settled q \<union> {e. (e, None) \<in> set vs}"
  by (induction vs q rule: process.induct)
     (auto simp: settle_items put_off_items settle_settled put_off_settled)

end

end
