(* ===== verification/Relay.thy ===== *)
theory Relay
  imports Database Backoff Work_Queue
begin

text \<open>
  \<open>internal/outbox/relay.go\<close>: draining the outbox. One pass claims a batch of due events under
  row locks, publishes them one after the other, marks each in the same database transaction,
  and commits. The publisher changes the world \<open>'w\<close>; what the server does is the record
  \<open>pass_env\<close>: the rows other relays have locked, the answers to the statements, and the end of
  the commit. A statement that fails aborts the transaction: the server refuses the statements
  after it, and the commit becomes a rollback.
\<close>

text \<open>Reading the claimed rows fails in the query, in taking a row apart, or in the stream of rows.\<close>

datatype read_failure = Query_Failed string | Scan_Failed string | Rows_Failed string

fun read_failure_text :: "read_failure \<Rightarrow> string" where
  "read_failure_text (Query_Failed e) = ''claim pending events: '' @ e"
| "read_failure_text (Scan_Failed e) = ''scan pending event: '' @ e"
| "read_failure_text (Rows_Failed e) = ''read pending events: '' @ e"

record 'w pass_env =
  pe_begin :: "string option"
  pe_query :: "read_failure option"
  pe_now :: gotime
  pe_locked :: "uuid \<Rightarrow> bool"
  pe_jsonb :: "string \<Rightarrow> string"
  pe_exec :: "uuid \<Rightarrow> string option"
  pe_commit :: "string option"
  pe_lost_ack :: bool
  pe_publish :: "event \<Rightarrow> 'w \<Rightarrow> string option \<times> 'w"

section \<open>Claiming\<close>

record claimed =
  cl_event :: event
  cl_attempts :: int

definition is_due :: "gotime \<Rightarrow> outbox_row \<Rightarrow> bool" where
  "is_due now r \<longleftrightarrow> ob_published_at r = None \<and> t_ns (ob_next_attempt_at r) \<le> t_ns now"

definition claimed_of :: "(string \<Rightarrow> string) \<Rightarrow> outbox_row \<Rightarrow> claimed" where
  "claimed_of jsonb r =
    \<lparr>cl_event = \<lparr>ev_id = ob_event_id r, ev_type = ob_event_type r,
       ev_aggregate_id = ob_aggregate_id r, ev_payload = jsonb (ob_payload r),
       ev_created_at = ob_created_at r\<rparr>,
     cl_attempts = ob_attempts r\<rparr>"

text \<open>\<open>claimPending\<close>: the due rows no one else has locked, by id, up to the limit.\<close>

definition claim_rows :: "relay_options \<Rightarrow> 'w pass_env \<Rightarrow> outbox_row list \<Rightarrow> outbox_row list" where
  "claim_rows opts env rows =
    take (nat (op_batch_size opts))
      (sort_key ob_id (filter (\<lambda>r. is_due (pe_now env) r \<and> \<not> pe_locked env (ob_event_id r)) rows))"

definition claim ::
  "relay_options \<Rightarrow> 'w pass_env \<Rightarrow> outbox_row list \<Rightarrow> string + claimed list" where
  "claim opts env rows =
    (case pe_query env of
       Some failure \<Rightarrow> Inl (read_failure_text failure)
     | None \<Rightarrow> Inr (map (claimed_of (pe_jsonb env)) (claim_rows opts env rows)))"

section \<open>Marking\<close>

definition update_row :: "uuid \<Rightarrow> (outbox_row \<Rightarrow> outbox_row) \<Rightarrow> outbox_row list \<Rightarrow> outbox_row list" where
  "update_row i f rows = map (\<lambda>r. if ob_event_id r = i then f r else r) rows"

definition mark_published :: "gotime \<Rightarrow> outbox_row \<Rightarrow> outbox_row" where
  "mark_published now r =
    r\<lparr>ob_published_at := Some (pg_time now), ob_attempts := ob_attempts r + 1, ob_last_error := None\<rparr>"

text \<open>An interval keeps microseconds.\<close>

definition pg_interval :: "duration \<Rightarrow> duration" where
  "pg_interval d = (d + 500) div 1000 * 1000"

definition mark_failed :: "gotime \<Rightarrow> string \<Rightarrow> duration \<Rightarrow> outbox_row \<Rightarrow> outbox_row" where
  "mark_failed now cause backoff r =
    r\<lparr>ob_attempts := ob_attempts r + 1, ob_last_error := Some cause,
      ob_next_attempt_at := pg_time (time_add (pg_time now) (pg_interval backoff))\<rparr>"

text \<open>
  The state of a pass: the rows as its transaction sees them, whether it is aborted, the world,
  and what it has done so far: the events handed to the publisher with their verdicts, the
  metric results recorded, and the count it will return.
\<close>

record 'w pass =
  ps_rows :: "outbox_row list"
  ps_aborted :: bool
  ps_world :: 'w
  ps_delivered :: "(event \<times> string option) list"
  ps_metrics :: "string list"
  ps_published :: nat

text \<open>\<open>Exec\<close> of an update of one row, which may carry a text the server cannot take.\<close>

definition exec_update ::
  "'w pass_env \<Rightarrow> uuid \<Rightarrow> string option \<Rightarrow> (outbox_row \<Rightarrow> outbox_row) \<Rightarrow> 'w pass \<Rightarrow> bool \<times> 'w pass" where
  "exec_update env i arg f p =
    (if ps_aborted p \<or> pe_exec env i \<noteq> None \<or> \<not> pg_text_opt_ok arg
     then (False, p\<lparr>ps_aborted := True\<rparr>)
     else (True, p\<lparr>ps_rows := update_row i f (ps_rows p)\<rparr>))"

definition count_metric :: "string \<Rightarrow> 'w pass \<Rightarrow> 'w pass" where
  "count_metric result p = p\<lparr>ps_metrics := ps_metrics p @ [result]\<rparr>"

definition record_failure ::
  "relay_options \<Rightarrow> int \<Rightarrow> 'w pass_env \<Rightarrow> claimed \<Rightarrow> string \<Rightarrow> 'w pass \<Rightarrow> 'w pass" where
  "record_failure opts out_of_range env c cause p =
    (let attempts = cl_attempts c + 1;
         parked = op_max_attempts opts \<le> attempts;
         backoff = (if parked then parked_backoff else backoff_for opts out_of_range attempts);
         p1 = count_metric (if parked then ''parked'' else ''failed'') p
     in snd (exec_update env (ev_id (cl_event c)) (Some cause)
          (mark_failed (pe_now env) cause backoff) p1))"

text \<open>The first component says whether the event counts as published.\<close>

definition publish_one ::
  "relay_options \<Rightarrow> int \<Rightarrow> 'w pass_env \<Rightarrow> claimed \<Rightarrow> 'w pass \<Rightarrow> bool \<times> 'w pass" where
  "publish_one opts out_of_range env c p =
    (let (verdict, w) = pe_publish env (cl_event c) (ps_world p);
         p1 = p\<lparr>ps_world := w, ps_delivered := ps_delivered p @ [(cl_event c, verdict)]\<rparr>
     in case verdict of
          Some cause \<Rightarrow> (False, record_failure opts out_of_range env c cause p1)
        | None \<Rightarrow>
            (case exec_update env (ev_id (cl_event c)) None (mark_published (pe_now env)) p1 of
               (False, p2) \<Rightarrow> (False, p2)
             | (True, p2) \<Rightarrow> (True, count_metric ''published'' p2)))"

fun publish_all ::
  "relay_options \<Rightarrow> int \<Rightarrow> 'w pass_env \<Rightarrow> claimed list \<Rightarrow> 'w pass \<Rightarrow> 'w pass" where
  "publish_all opts out_of_range env [] p = p"
| "publish_all opts out_of_range env (c # cs) p =
    (let (ok, p1) = publish_one opts out_of_range env c p
     in publish_all opts out_of_range env cs
          (if ok then p1\<lparr>ps_published := Suc (ps_published p1)\<rparr> else p1))"

section \<open>A pass\<close>

definition err_commit_rollback :: string where
  "err_commit_rollback = ''commit unexpectedly resulted in rollback''"

definition begin_pass :: "outbox_row list \<Rightarrow> 'w \<Rightarrow> 'w pass" where
  "begin_pass rows w =
    \<lparr>ps_rows = rows, ps_aborted = False, ps_world = w, ps_delivered = [], ps_metrics = [],
     ps_published = 0\<rparr>"

text \<open>
  \<open>RunOnce\<close>: its result, the rows after it, and the state the pass ended in. When the server
  refuses the commit the rows are as they were; when only the acknowledgement is lost they are
  those of the pass.
\<close>

definition run_once ::
  "relay_options \<Rightarrow> int \<Rightarrow> 'w pass_env \<Rightarrow> outbox_row list \<Rightarrow> 'w
    \<Rightarrow> (string + nat) \<times> outbox_row list \<times> 'w pass" where
  "run_once opts out_of_range env rows w =
    (let p0 = begin_pass rows w in
     case pe_begin env of
       Some e \<Rightarrow> (Inl (''begin outbox transaction: '' @ e), rows, p0)
     | None \<Rightarrow>
         (case claim opts env rows of
            Inl e \<Rightarrow> (Inl e, rows, p0)
          | Inr cs \<Rightarrow>
              if cs = [] then (Inr 0, rows, p0)
              else
                (let p = publish_all opts out_of_range env cs p0 in
                 if ps_aborted p
                 then (Inl (''commit outbox transaction: '' @ err_commit_rollback), rows, p)
                 else
                   (case pe_commit env of
                      Some e \<Rightarrow>
                        (Inl (''commit outbox transaction: '' @ e),
                         if pe_lost_ack env then ps_rows p else rows, p)
                    | None \<Rightarrow> (Inr (ps_published p), ps_rows p, p)))))"

section \<open>The loop\<close>

text \<open>
  What \<open>Run\<close> does after a pass, from the pass's result, whether its error is a cancellation, and
  whether the context ends while it waits.
\<close>

datatype after_pass = Stop | Again_At_Once | Again_After_Poll

definition after_pass_of :: "string + nat \<Rightarrow> bool \<Rightarrow> bool \<Rightarrow> after_pass" where
  "after_pass_of r cancelled done_waiting =
    (case r of
       Inl e \<Rightarrow> if cancelled \<or> done_waiting then Stop else Again_After_Poll
     | Inr published \<Rightarrow>
         if 0 < published then Again_At_Once
         else if done_waiting then Stop else Again_After_Poll)"

section \<open>The backlog\<close>

definition pending_count :: "outbox_row list \<Rightarrow> nat" where
  "pending_count rows = length (filter (\<lambda>r. ob_published_at r = None) rows)"

text \<open>The age of the oldest unpublished event at an instant, and whether there is one.\<close>

definition oldest_pending :: "gotime \<Rightarrow> outbox_row list \<Rightarrow> duration \<times> bool" where
  "oldest_pending now rows =
    (case map (t_ns \<circ> ob_created_at) (filter (\<lambda>r. ob_published_at r = None) rows) of
       [] \<Rightarrow> (0, False)
     | t # ts \<Rightarrow> (time_sub now \<lparr>t_ns = fold min ts t, t_off = 0\<rparr>, True))"

lemmas relay_eval [model_defs] =
  is_due_def claimed_of_def claim_rows_def claim_def update_row_def mark_published_def
  pg_interval_def mark_failed_def exec_update_def count_metric_def record_failure_def
  publish_one_def err_commit_rollback_def begin_pass_def run_once_def after_pass_of_def
  pending_count_def oldest_pending_def

section \<open>The rows as a queue\<close>

definition event_ids :: "outbox_row list \<Rightarrow> uuid list" where
  "event_ids rows = map ob_event_id rows"

definition published_ids :: "outbox_row list \<Rightarrow> uuid set" where
  "published_ids rows = ob_event_id ` {r \<in> set rows. ob_published_at r \<noteq> None}"

text \<open>How a failed event is put off: the error text and the delay.\<close>

definition put_off_row :: "gotime \<Rightarrow> uuid \<Rightarrow> string \<times> duration \<Rightarrow> outbox_row list \<Rightarrow> outbox_row list" where
  "put_off_row now i f rows = update_row i (mark_failed now (fst f) (snd f)) rows"

definition settle_row :: "gotime \<Rightarrow> uuid \<Rightarrow> outbox_row list \<Rightarrow> outbox_row list" where
  "settle_row now i rows = update_row i (mark_published now) rows"

lemma mark_simps [simp]:
  "ob_event_id (mark_published now r) = ob_event_id r" "ob_id (mark_published now r) = ob_id r"
  "ob_event_id (mark_failed now c b r) = ob_event_id r" "ob_id (mark_failed now c b r) = ob_id r"
  "ob_published_at (mark_published now r) = Some (pg_time now)"
  "ob_published_at (mark_failed now c b r) = ob_published_at r"
  by (simp_all add: mark_published_def mark_failed_def)

lemma event_ids_update [simp]:
  "(\<And>r. ob_event_id (f r) = ob_event_id r) \<Longrightarrow> event_ids (update_row i f rows) = event_ids rows"
  by (simp add: event_ids_def update_row_def)

lemma published_ids_iff:
  "i \<in> published_ids q \<longleftrightarrow> (\<exists>r \<in> set q. ob_event_id r = i \<and> ob_published_at r \<noteq> None)"
  by (auto simp: published_ids_def)

lemma published_ids_update:
  assumes "\<And>r. ob_event_id (f r) = ob_event_id r"
  shows "i \<in> published_ids (update_row e f q) \<longleftrightarrow>
    (\<exists>r \<in> set q. ob_event_id r = i \<and> ob_published_at (if ob_event_id r = e then f r else r) \<noteq> None)"
  unfolding published_ids_iff using assms by (auto simp: update_row_def)

lemma published_ids_settle:
  assumes "e \<in> set (event_ids q)"
  shows "published_ids (settle_row now e q) = insert e (published_ids q)"
proof (rule set_eqI)
  fix i
  have "i \<in> published_ids (settle_row now e q) \<longleftrightarrow>
      (\<exists>r \<in> set q. ob_event_id r = i \<and> (ob_event_id r = e \<or> ob_published_at r \<noteq> None))"
    unfolding settle_row_def published_ids_update [OF mark_simps(1)] by auto
  also have "\<dots> \<longleftrightarrow> i = e \<or> i \<in> published_ids q"
    using assms unfolding published_ids_iff by (auto simp: event_ids_def)
  finally show "i \<in> published_ids (settle_row now e q) \<longleftrightarrow> i \<in> insert e (published_ids q)" by simp
qed

lemma published_ids_put_off: "published_ids (put_off_row now e f q) = published_ids q"
proof (rule set_eqI)
  fix i
  show "i \<in> published_ids (put_off_row now e f q) \<longleftrightarrow> i \<in> published_ids q"
    unfolding put_off_row_def published_ids_update [OF mark_simps(3)]
    by (auto simp: published_ids_iff)
qed

interpretation outbox: work_queue event_ids published_ids "settle_row now" "put_off_row now" for now
  by unfold_locales
     (simp_all add: published_ids_settle published_ids_put_off, simp_all add: settle_row_def put_off_row_def)

text \<open>The delay given to the event of a claim that fails.\<close>

definition delay_for :: "relay_options \<Rightarrow> int \<Rightarrow> int \<Rightarrow> duration" where
  "delay_for opts x attempts =
    (if op_max_attempts opts \<le> attempts + 1 then parked_backoff else backoff_for opts x (attempts + 1))"

definition verdict_entry ::
  "relay_options \<Rightarrow> int \<Rightarrow> claimed \<times> string option \<Rightarrow> uuid \<times> (string \<times> duration) option" where
  "verdict_entry opts x v =
    (ev_id (cl_event (fst v)), map_option (\<lambda>cause. (cause, delay_for opts x (cl_attempts (fst v)))) (snd v))"

lemma exec_update_aborted: "ps_aborted p \<Longrightarrow> ps_aborted (snd (exec_update env i a f p))"
  by (simp add: exec_update_def)

lemma publish_one_delivers:
  assumes "publish_one opts x env c p = (ok, p')"
  shows "\<exists>v w. pe_publish env (cl_event c) (ps_world p) = (v, w)
    \<and> ps_delivered p' = ps_delivered p @ [(cl_event c, v)]
    \<and> ps_published p' = ps_published p
    \<and> (ps_aborted p \<longrightarrow> ps_aborted p')
    \<and> (\<not> ps_aborted p' \<longrightarrow> ok = (v = None)
        \<and> ps_rows p' = outbox.process (pe_now env) [verdict_entry opts x (c, v)] (ps_rows p))
    \<and> (ps_aborted p' \<longrightarrow> ps_rows p' = ps_rows p \<and> \<not> ok)
    \<and> (v \<noteq> None \<and> \<not> pg_text_opt_ok v \<longrightarrow> ps_aborted p')"
proof -
  obtain v w where v: "pe_publish env (cl_event c) (ps_world p) = (v, w)" by fastforce
  show ?thesis
  proof (cases v)
    case None
    then show ?thesis
      using assms v
      by (auto simp: publish_one_def Let_def exec_update_def count_metric_def verdict_entry_def
          settle_row_def pg_text_opt_ok_def split: if_splits)
  next
    case (Some cause)
    then show ?thesis
      using assms v
      by (auto simp: publish_one_def record_failure_def Let_def exec_update_def count_metric_def
          verdict_entry_def put_off_row_def delay_for_def split: if_splits)
  qed
qed

lemma process_Cons:
  "outbox.process now (v # vs) q = outbox.process now vs (outbox.process now [v] q)"
  by (cases v; cases "snd v") auto

lemma publish_all_effect:
  "\<exists>vs. length vs = length cs
    \<and> ps_delivered (publish_all opts x env cs p) = ps_delivered p @ zip (map cl_event cs) vs
    \<and> (ps_aborted p \<longrightarrow> ps_aborted (publish_all opts x env cs p))
    \<and> (\<not> ps_aborted (publish_all opts x env cs p) \<longrightarrow>
        ps_rows (publish_all opts x env cs p)
          = outbox.process (pe_now env) (map (verdict_entry opts x) (zip cs vs)) (ps_rows p)
        \<and> ps_published (publish_all opts x env cs p)
          = ps_published p + length (filter (\<lambda>v. v = None) vs))
    \<and> ((\<exists>v \<in> set vs. v \<noteq> None \<and> \<not> pg_text_opt_ok v) \<longrightarrow> ps_aborted (publish_all opts x env cs p))"
proof (induction cs arbitrary: p)
  case (Cons c cs)
  obtain ok p1 where one: "publish_one opts x env c p = (ok, p1)" by fastforce
  let ?p2 = "if ok then p1\<lparr>ps_published := Suc (ps_published p1)\<rparr> else p1"
  let ?q = "publish_all opts x env cs ?p2"
  have q: "publish_all opts x env (c # cs) p = ?q" by (simp add: one)
  obtain v where v: "ps_delivered p1 = ps_delivered p @ [(cl_event c, v)]"
      "ps_published p1 = ps_published p" "ps_aborted p \<longrightarrow> ps_aborted p1"
      "\<not> ps_aborted p1 \<longrightarrow> ok = (v = None)
        \<and> ps_rows p1 = outbox.process (pe_now env) [verdict_entry opts x (c, v)] (ps_rows p)"
      "v \<noteq> None \<and> \<not> pg_text_opt_ok v \<longrightarrow> ps_aborted p1"
    using publish_one_delivers [OF one] by blast
  obtain vs where vs: "length vs = length cs"
      "ps_delivered ?q = ps_delivered ?p2 @ zip (map cl_event cs) vs"
      "ps_aborted ?p2 \<longrightarrow> ps_aborted ?q"
      "\<not> ps_aborted ?q \<longrightarrow>
        ps_rows ?q = outbox.process (pe_now env) (map (verdict_entry opts x) (zip cs vs)) (ps_rows ?p2)
        \<and> ps_published ?q = ps_published ?p2 + length (filter (\<lambda>v. v = None) vs)"
      "(\<exists>v \<in> set vs. v \<noteq> None \<and> \<not> pg_text_opt_ok v) \<longrightarrow> ps_aborted ?q"
    using Cons.IH [of ?p2] by blast
  have same: "ps_delivered ?p2 = ps_delivered p1" "ps_aborted ?p2 = ps_aborted p1" "ps_rows ?p2 = ps_rows p1"
    by simp_all
  have "\<not> ps_aborted ?q \<longrightarrow>
      ps_rows ?q = outbox.process (pe_now env) (map (verdict_entry opts x) (zip (c # cs) (v # vs))) (ps_rows p)
      \<and> ps_published ?q = ps_published p + length (filter (\<lambda>v. v = None) (v # vs))"
  proof
    assume live: "\<not> ps_aborted ?q"
    then have "\<not> ps_aborted p1" using vs(3) same by blast
    with v(2,4) vs(4) live same
    show "ps_rows ?q = outbox.process (pe_now env) (map (verdict_entry opts x) (zip (c # cs) (v # vs))) (ps_rows p)
        \<and> ps_published ?q = ps_published p + length (filter (\<lambda>v. v = None) (v # vs))"
      by (simp add: process_Cons [of _ "verdict_entry opts x (c, v)" "map (verdict_entry opts x) (zip cs vs)"])
  qed
  moreover have "ps_delivered ?q = ps_delivered p @ zip (map cl_event (c # cs)) (v # vs)"
    using vs(2) v(1) same by simp
  moreover have "ps_aborted p \<longrightarrow> ps_aborted ?q" using v(3) vs(3) same by blast
  moreover have "(\<exists>u \<in> set (v # vs). u \<noteq> None \<and> \<not> pg_text_opt_ok u) \<longrightarrow> ps_aborted ?q"
    using v(5) vs(3,5) same by auto
  ultimately show ?case unfolding q using vs(1) by (intro exI [of _ "v # vs"]) simp
qed simp

text \<open>What a pass hands to the publisher, whatever becomes of it: its claim, in order.\<close>

lemma run_once_delivers:
  assumes "run_once opts x env rows w = (r, rows', p)"
  shows "map (ev_id \<circ> fst) (ps_delivered p) =
    (if pe_begin env = None \<and> pe_query env = None then map ob_event_id (claim_rows opts env rows) else [])"
proof (cases "pe_begin env = None \<and> pe_query env = None")
  case True
  let ?cs = "map (claimed_of (pe_jsonb env)) (claim_rows opts env rows)"
  obtain vs where vs: "length vs = length ?cs"
      "ps_delivered (publish_all opts x env ?cs (begin_pass rows w)) = zip (map cl_event ?cs) vs"
    using publish_all_effect [of ?cs opts x env "begin_pass rows w"] by (auto simp: begin_pass_def)
  have "map (ev_id \<circ> fst) (zip (map cl_event ?cs) vs) = map ob_event_id (claim_rows opts env rows)"
  proof -
    have "map (ev_id \<circ> fst) (zip (map cl_event ?cs) vs) = map ev_id (map fst (zip (map cl_event ?cs) vs))"
      by simp
    also have "\<dots> = map ev_id (map cl_event ?cs)" using vs(1) by (simp only: map_fst_zip length_map)
    also have "\<dots> = map ob_event_id (claim_rows opts env rows)" by (simp add: claimed_of_def)
    finally show ?thesis .
  qed
  then show ?thesis
    using assms True vs(2)
    by (auto simp: run_once_def claim_def Let_def begin_pass_def split: if_splits option.splits)
next
  case False
  then show ?thesis
    using assms
    by (auto simp: run_once_def claim_def Let_def begin_pass_def split: option.splits sum.splits)
qed

text \<open>
  What a pass does to a row, when it ends well: the verdict the publisher gave on its event
  decides, and a row whose event was not handed over is untouched.
\<close>

definition row_after ::
  "relay_options \<Rightarrow> int \<Rightarrow> gotime \<Rightarrow> (event \<times> string option) list \<Rightarrow> outbox_row \<Rightarrow> outbox_row" where
  "row_after opts x now delivered r =
    (case map_of (map (\<lambda>(e, v). (ev_id e, v)) delivered) (ob_event_id r) of
       None \<Rightarrow> r
     | Some None \<Rightarrow> mark_published now r
     | Some (Some cause) \<Rightarrow> mark_failed now cause (delay_for opts x (ob_attempts r)) r)"

text \<open>Processing a list of verdicts on different events touches each row at most once.\<close>

definition apply_entry :: "gotime \<Rightarrow> (string \<times> duration) option \<Rightarrow> outbox_row \<Rightarrow> outbox_row" where
  "apply_entry now v r =
    (case v of None \<Rightarrow> mark_published now r | Some f \<Rightarrow> mark_failed now (fst f) (snd f) r)"

lemma process_rows:
  "distinct (map fst vs) \<Longrightarrow>
    outbox.process now vs rows =
      map (\<lambda>r. case map_of vs (ob_event_id r) of None \<Rightarrow> r | Some v \<Rightarrow> apply_entry now v r) rows"
proof (induction vs arbitrary: rows)
  case (Cons v vs)
  obtain i f where v: "v = (i, f)" by fastforce
  have one: "outbox.process now [(i, f)] rows
      = map (\<lambda>r. if ob_event_id r = i then apply_entry now f r else r) rows"
    by (cases f) (auto simp: settle_row_def put_off_row_def update_row_def apply_entry_def)
  have "map_of vs i = None" using Cons.prems by (simp add: v map_of_eq_None_iff)
  moreover have "ob_event_id (apply_entry now f r) = ob_event_id r" for r
    by (simp add: apply_entry_def split: option.splits)
  moreover have "outbox.process now (v # vs) rows = outbox.process now vs (outbox.process now [(i, f)] rows)"
    unfolding v by (rule process_Cons)
  ultimately show ?case
    using Cons.IH [of "outbox.process now [(i, f)] rows"] Cons.prems by (simp add: v one)
qed simp

lemma map_of_verdicts:
  assumes "length vs = length rs" and "distinct (map ob_event_id rs)" and "r \<in> set rs"
  shows "map_of (map (verdict_entry opts x) (zip (map (claimed_of j) rs) vs)) (ob_event_id r)
    = map_option (map_option (\<lambda>cause. (cause, delay_for opts x (ob_attempts r))))
        (map_of (map (\<lambda>(e, v). (ev_id e, v)) (zip (map cl_event (map (claimed_of j) rs)) vs)) (ob_event_id r))"
  using assms
proof (induction vs rs rule: list_induct2)
  case (Cons v vs q rs)
  show ?case
  proof (cases "r = q")
    case True
    then show ?thesis by (simp add: verdict_entry_def claimed_of_def)
  next
    case False
    then have r: "r \<in> set rs" using Cons.prems(2) by simp
    then have "ob_event_id r \<in> ob_event_id ` set rs" by (rule imageI)
    then have "ob_event_id r \<noteq> ob_event_id q" using Cons.prems(1) by auto
    with r show ?thesis
      using Cons.IH Cons.prems(1) by (simp add: verdict_entry_def [of _ _ "(claimed_of j q, v)"])
         (simp add: claimed_of_def)
  qed
qed simp

lemma claim_rows_subset: "set (claim_rows opts env rows) \<subseteq> {r \<in> set rows. is_due (pe_now env) r}"
  unfolding claim_rows_def using set_take_subset by fastforce

lemma distinct_claim_rows:
  assumes "distinct (event_ids rows)"
  shows "distinct (map ob_event_id (claim_rows opts env rows))"
proof -
  have "distinct rows" and inj: "inj_on ob_event_id (set rows)"
    using assms by (simp_all add: event_ids_def distinct_map)
  then have "distinct (claim_rows opts env rows)" by (simp add: claim_rows_def distinct_take)
  moreover have "set (claim_rows opts env rows) \<subseteq> set rows" using claim_rows_subset by blast
  ultimately show ?thesis using inj by (simp add: distinct_map inj_on_subset)
qed

lemma row_after_Nil [simp]: "row_after opts x now [] = (\<lambda>r. r)"
  by (simp add: fun_eq_iff row_after_def)

lemma zip_fst: "length vs = length es \<Longrightarrow> map f (map fst (zip es vs)) = map f es"
  by (simp only: map_fst_zip length_map)

lemma entry_keys:
  assumes "length vs = length rs"
  shows "map fst (map (verdict_entry opts x) (zip (map (claimed_of j) rs) vs)) = map ob_event_id rs"
    and "map fst (map (\<lambda>(e, v). (ev_id e, v)) (zip (map cl_event (map (claimed_of j) rs)) vs))
      = map ob_event_id rs"
proof -
  have "map fst (map (verdict_entry opts x) (zip (map (claimed_of j) rs) vs))
      = map (ev_id \<circ> cl_event) (map fst (zip (map (claimed_of j) rs) vs))"
    by (simp add: verdict_entry_def)
  then show "map fst (map (verdict_entry opts x) (zip (map (claimed_of j) rs) vs)) = map ob_event_id rs"
    using zip_fst [of vs "map (claimed_of j) rs"] assms by (simp add: claimed_of_def)
  have "map fst (map (\<lambda>(e, v). (ev_id e, v)) (zip (map cl_event (map (claimed_of j) rs)) vs))
      = map ev_id (map fst (zip (map cl_event (map (claimed_of j) rs)) vs))"
    by (simp add: case_prod_beta)
  then show "map fst (map (\<lambda>(e, v). (ev_id e, v)) (zip (map cl_event (map (claimed_of j) rs)) vs))
      = map ob_event_id rs"
    using zip_fst [of vs "map cl_event (map (claimed_of j) rs)"] assms by (simp add: claimed_of_def)
qed

lemma claim_rows_id:
  assumes "distinct (event_ids rows)" and "r \<in> set rows" and "r \<notin> set (claim_rows opts env rows)"
  shows "ob_event_id r \<notin> set (map ob_event_id (claim_rows opts env rows))"
proof
  assume "ob_event_id r \<in> set (map ob_event_id (claim_rows opts env rows))"
  then obtain q where q: "q \<in> set (claim_rows opts env rows)" "ob_event_id q = ob_event_id r" by auto
  then have "q \<in> set rows" using claim_rows_subset by blast
  then have "q = r" using q(2) assms(1,2) by (auto simp: event_ids_def distinct_map dest: inj_onD)
  then show False using q(1) assms(3) by simp
qed

lemma row_after_entries:
  assumes "distinct (event_ids rows)" and "r \<in> set rows"
    and "length vs = length (claim_rows opts env rows)"
  shows "(case map_of (map (verdict_entry opts x) (zip (map (claimed_of j) (claim_rows opts env rows)) vs))
        (ob_event_id r) of None \<Rightarrow> r | Some v \<Rightarrow> apply_entry now v r)
    = row_after opts x now (zip (map cl_event (map (claimed_of j) (claim_rows opts env rows))) vs) r"
proof -
  let ?rs = "claim_rows opts env rows"
  let ?m = "map_of (map (\<lambda>(e, v). (ev_id e, v)) (zip (map cl_event (map (claimed_of j) ?rs)) vs)) (ob_event_id r)"
  let ?e = "map_of (map (verdict_entry opts x) (zip (map (claimed_of j) ?rs) vs)) (ob_event_id r)"
  note keys = entry_keys [OF assms(3), where j = j]
  have "?e = map_option (map_option (\<lambda>cause. (cause, delay_for opts x (ob_attempts r)))) ?m"
  proof (cases "r \<in> set ?rs")
    case True
    then show ?thesis by (rule map_of_verdicts [OF assms(3) distinct_claim_rows [OF assms(1)]])
  next
    case False
    note absent = claim_rows_id [OF assms(1,2) False]
    then have "?e = None" "?m = None"
      unfolding map_of_eq_None_iff set_map [symmetric] keys by simp_all
    then show ?thesis by simp
  qed
  then show ?thesis unfolding row_after_def by (auto simp: apply_entry_def split: option.splits)
qed

lemma count_accepted:
  assumes "length vs = length es"
  shows "length (filter (\<lambda>(e, v). v = None) (zip es vs)) = length (filter (\<lambda>v. v = None) vs)"
proof -
  have "filter (\<lambda>(e, v). v = None) (zip es vs) = filter ((\<lambda>v. v = None) \<circ> snd) (zip es vs)"
    by (rule filter_cong) auto
  then show ?thesis using assms by (metis filter_map length_map map_snd_zip)
qed

text \<open>A pass that is not aborted, as one update of the rows.\<close>

lemma pass_rows:
  assumes "distinct (event_ids rows)"
    and "p = publish_all opts x env (map (claimed_of (pe_jsonb env)) (claim_rows opts env rows)) (begin_pass rows w)"
    and "\<not> ps_aborted p"
  shows "ps_rows p = map (row_after opts x (pe_now env) (ps_delivered p)) rows"
    and "ps_published p = length (filter (\<lambda>(e, v). v = None) (ps_delivered p))"
proof -
  let ?cs = "map (claimed_of (pe_jsonb env)) (claim_rows opts env rows)"
  obtain vs where vs: "length vs = length (claim_rows opts env rows)"
      "ps_delivered p = zip (map cl_event ?cs) vs"
      "ps_rows p = outbox.process (pe_now env) (map (verdict_entry opts x) (zip ?cs vs)) rows"
      "ps_published p = length (filter (\<lambda>v. v = None) vs)"
    using publish_all_effect [of ?cs opts x env "begin_pass rows w"] assms(2,3)
    by (auto simp: begin_pass_def)
  have dist: "distinct (map fst (map (verdict_entry opts x) (zip ?cs vs)))"
    unfolding entry_keys [OF vs(1)] by (rule distinct_claim_rows [OF assms(1)])
  have "ps_rows p = map (\<lambda>r. case map_of (map (verdict_entry opts x) (zip ?cs vs)) (ob_event_id r) of
      None \<Rightarrow> r | Some v \<Rightarrow> apply_entry (pe_now env) v r) rows"
    unfolding vs(3) by (rule process_rows [OF dist])
  also have "\<dots> = map (row_after opts x (pe_now env) (ps_delivered p)) rows"
    unfolding vs(2) by (rule map_cong [OF refl row_after_entries [OF assms(1) _ vs(1)]])
  finally show "ps_rows p = map (row_after opts x (pe_now env) (ps_delivered p)) rows" .
  show "ps_published p = length (filter (\<lambda>(e, v). v = None) (ps_delivered p))"
    using count_accepted [of vs "map cl_event ?cs"] vs(1,2,4) by simp
qed

text \<open>The outcomes of a pass: the rows it leaves, and what its result says.\<close>

lemma run_once_cases:
  assumes "run_once opts x env rows w = (r, rows', p)" and "distinct (event_ids rows)"
  shows "(\<exists>e. r = Inl e) \<and> rows' = rows
    \<or> rows' = map (row_after opts x (pe_now env) (ps_delivered p)) rows
      \<and> (r = Inr (length (filter (\<lambda>(e, v). v = None) (ps_delivered p)))
         \<or> (\<exists>m. pe_commit env = Some m \<and> pe_lost_ack env \<and> r = Inl (''commit outbox transaction: '' @ m)))"
proof (cases "pe_begin env = None \<and> pe_query env = None \<and> claim_rows opts env rows \<noteq> []")
  case True
  let ?q = "publish_all opts x env (map (claimed_of (pe_jsonb env)) (claim_rows opts env rows))
    (begin_pass rows w)"
  have p: "p = ?q" and r: "r = (if ps_aborted ?q then Inl (''commit outbox transaction: '' @ err_commit_rollback)
      else (case pe_commit env of Some e \<Rightarrow> Inl (''commit outbox transaction: '' @ e) | None \<Rightarrow> Inr (ps_published ?q)))"
    and rows': "rows' = (if ps_aborted ?q \<or> pe_commit env \<noteq> None \<and> \<not> pe_lost_ack env then rows else ps_rows ?q)"
    using assms(1) True by (auto simp: run_once_def claim_def Let_def split: option.splits if_splits)
  show ?thesis
  proof (cases "ps_aborted ?q")
    case False
    note rows_p = pass_rows [OF assms(2) p, unfolded p, OF False]
    show ?thesis using r rows' False rows_p unfolding p by (cases "pe_commit env") auto
  qed (use r rows' in simp)
next
  case False
  then show ?thesis
    using assms(1)
    by (auto simp: run_once_def claim_def Let_def begin_pass_def split: option.splits if_splits)
qed

lemma row_after_ids [simp]:
  "ob_event_id (row_after opts x now ds r) = ob_event_id r" "ob_id (row_after opts x now ds r) = ob_id r"
  by (simp_all add: row_after_def split: option.splits)

lemma event_ids_row_after [simp]: "event_ids (map (row_after opts x now ds) rows) = event_ids rows"
  by (simp add: event_ids_def)

lemma run_once_event_ids:
  assumes "run_once opts x env rows w = (r, rows', p)" and "distinct (event_ids rows)"
  shows "event_ids rows' = event_ids rows"
  using run_once_cases [OF assms] by auto

lemma row_after_published:
  assumes "ob_published_at (row_after opts x now ds r) \<noteq> None"
  shows "ob_published_at r \<noteq> None \<or> ob_event_id r \<in> {ev_id e | e. (e, None) \<in> set ds}"
proof -
  have "ob_published_at r \<noteq> None \<or> map_of (map (\<lambda>(e, v). (ev_id e, v)) ds) (ob_event_id r) = Some None"
    using assms by (auto simp: row_after_def split: option.splits)
  then show ?thesis by (force dest: map_of_SomeD)
qed

lemma row_after_keeps_published:
  "ob_published_at r \<noteq> None \<Longrightarrow> ob_published_at (row_after opts x now ds r) \<noteq> None"
  by (auto simp: row_after_def split: option.splits)

lemma published_ids_map:
  assumes "\<And>r. ob_event_id (f r) = ob_event_id r"
  shows "published_ids (map f rows) = ob_event_id ` {r \<in> set rows. ob_published_at (f r) \<noteq> None}"
proof -
  have "{r \<in> set (map f rows). ob_published_at r \<noteq> None} = f ` {r \<in> set rows. ob_published_at (f r) \<noteq> None}"
    by auto
  then show ?thesis unfolding published_ids_def using assms by (simp add: image_image)
qed

lemma published_ids_row_after:
  "published_ids rows \<subseteq> published_ids (map (row_after opts x now ds) rows)"
  "published_ids (map (row_after opts x now ds) rows)
    \<subseteq> published_ids rows \<union> {ev_id e | e. (e, None) \<in> set ds}"
proof -
  show "published_ids rows \<subseteq> published_ids (map (row_after opts x now ds) rows)"
    unfolding published_ids_map [of "row_after opts x now ds", OF row_after_ids(1)]
      published_ids_def [of rows]
    using row_after_keeps_published by blast
  show "published_ids (map (row_after opts x now ds) rows)
      \<subseteq> published_ids rows \<union> {ev_id e | e. (e, None) \<in> set ds}"
  proof
    fix i assume "i \<in> published_ids (map (row_after opts x now ds) rows)"
    then obtain r where r: "r \<in> set rows" "ob_published_at (row_after opts x now ds r) \<noteq> None" "i = ob_event_id r"
      unfolding published_ids_map [of "row_after opts x now ds", OF row_after_ids(1)] by blast
    then show "i \<in> published_ids rows \<union> {ev_id e | e. (e, None) \<in> set ds}"
      using row_after_published [OF r(2)] unfolding published_ids_def by blast
  qed
qed

lemma run_once_published:
  assumes "run_once opts x env rows w = (r, rows', p)" and "distinct (event_ids rows)"
  shows "published_ids rows \<subseteq> published_ids rows'"
    and "published_ids rows' \<subseteq> published_ids rows \<union> {ev_id e | e. (e, None) \<in> set (ps_delivered p)}"
  using run_once_cases [OF assms] published_ids_row_after by blast+

text \<open>A pass that is aborted leaves no trace in the rows.\<close>

lemma run_once_poison:
  assumes "run_once opts x env rows w = (r, rows', p)" and "(e, Some cause) \<in> set (ps_delivered p)"
    and "\<not> pg_text_ok cause"
  shows "r = Inl (''commit outbox transaction: '' @ err_commit_rollback) \<and> rows' = rows"
proof -
  let ?cs = "map (claimed_of (pe_jsonb env)) (claim_rows opts env rows)"
  let ?q = "publish_all opts x env ?cs (begin_pass rows w)"
  have reach: "pe_begin env = None" "pe_query env = None" "claim_rows opts env rows \<noteq> []" and p: "p = ?q"
    using assms(1,2)
    by (auto simp: run_once_def claim_def Let_def begin_pass_def split: option.splits if_splits)
  obtain vs where vs: "ps_delivered ?q = zip (map cl_event ?cs) vs"
      "(\<exists>v \<in> set vs. v \<noteq> None \<and> \<not> pg_text_opt_ok v) \<longrightarrow> ps_aborted ?q"
    using publish_all_effect [of ?cs opts x env "begin_pass rows w"] by (auto simp: begin_pass_def)
  have "Some cause \<in> set vs" using assms(2) unfolding p vs(1) by (rule set_zip_rightD)
  then have "ps_aborted ?q" using vs(2) assms(3) by (auto simp: pg_text_opt_ok_def)
  then show ?thesis
    using assms(1) reach by (auto simp: run_once_def claim_def Let_def split: option.splits if_splits)
qed

end
