(* ===== verification/Commands.thy ===== *)
theory Commands
  imports Config Logging Healthcheck Router_Props Ingest_Props Memory_Store Postgres_Store Relay
begin

text \<open>
  The three commands of \<open>cmd/\<close>, how each is put together from its configuration, with
  \<open>postgres.Connect\<close> and the migrations of \<open>internal/store/postgres/migrate.go\<close>. The connection
  pool (pgx), the migration engine (goose), the network listener and the signals are parameters;
  what runs once a server listens is an event.
\<close>

section \<open>The connection pool\<close>

record 'x pool_config =
  pc_max_conns :: "32 word"
  pc_max_lifetime :: duration
  pc_max_idle :: duration
  pc_rest :: 'x

record ('x, 'p) pgx =
  px_parse :: "string \<Rightarrow> string + 'x pool_config"
  px_new :: "'x pool_config \<Rightarrow> string + 'p"
  px_ping_start :: "'p \<Rightarrow> string option"
  px_ping :: "'p \<Rightarrow> check"

definition pool_settings :: "32 word \<Rightarrow> 'x pool_config \<Rightarrow> 'x pool_config" where
  "pool_settings max_conns cfg =
    (let cfg1 = (if 0 < sint max_conns then cfg\<lparr>pc_max_conns := max_conns\<rparr> else cfg)
     in cfg1\<lparr>pc_max_lifetime := hour, pc_max_idle := 30 * minute\<rparr>)"

text \<open>The pool or an error, and the pools that were closed again.\<close>

definition connect :: "('x, 'p) pgx \<Rightarrow> string \<Rightarrow> 32 word \<Rightarrow> (string + 'p) \<times> 'p list" where
  "connect X url max_conns =
    (case px_parse X url of
       Inl e \<Rightarrow> (Inl (''parse database url: '' @ e), [])
     | Inr cfg \<Rightarrow>
         (case px_new X (pool_settings max_conns cfg) of
            Inl e \<Rightarrow> (Inl (''create connection pool: '' @ e), [])
          | Inr pool \<Rightarrow>
              (case px_ping_start X pool of
                 Some e \<Rightarrow> (Inl (''ping database: '' @ e), [pool])
               | None \<Rightarrow> (Inr pool, []))))"

text \<open>Go's conversion of an \<open>int\<close> to an \<open>int32\<close> keeps the low 32 bits.\<close>

definition int32_of :: "int \<Rightarrow> 32 word" where
  "int32_of n = word_of_int n"

section \<open>The API: \<open>cmd/transaction-api/main.go\<close>\<close>

definition health_check_timeout :: duration where
  "health_check_timeout = 2 * second"

definition rules_of_config :: "('a) unicode_scheme \<Rightarrow> config \<Rightarrow> 'e rules" where
  "rules_of_config U cfg =
    (let default_currency =
           (case lookup U (cf_default_currency cfg) of Some c \<Rightarrow> c | None \<Rightarrow> no_currency) in
     \<lparr>r_types = Some (new_type_set U (cf_transaction_types cfg)),
      r_default_currency = default_currency, r_max_clock_skew = cf_max_clock_skew cfg,
      r_now = None, r_new_id = None\<rparr>)"

datatype 'p store_choice = In_Memory | In_Postgres 'p

definition open_store ::
  "('x, 'p) pgx \<Rightarrow> config \<Rightarrow> checker \<Rightarrow> (string + 'p store_choice \<times> string \<times> checker) \<times> 'p list" where
  "open_store X cfg ck =
    (if \<not> uses_database cfg then (Inr (In_Memory, ''memory (not durable)'', ck), [])
     else
       (case connect X (cf_database_url cfg) (int32_of (cf_database_max_conns cfg)) of
          (Inl e, shut) \<Rightarrow> (Inl (''connect to database: '' @ e), shut)
        | (Inr pool, shut) \<Rightarrow>
            (Inr (In_Postgres pool, ''postgres'', register ''database'' (px_ping X pool) ck), shut)))"

text \<open>The state of the two stores, of which the service uses the one it opened.\<close>

record ('d, 'w) stores =
  st_memory :: "'d mem_store"
  st_database :: "db \<times> 'w"

definition opened_store ::
  "('d, 'a) lib_scheme \<Rightarrow> ('w \<Rightarrow> ingest_env \<times> 'w) \<Rightarrow> 'p store_choice \<Rightarrow> ('d, 'w) stores
    \<Rightarrow> 'd transaction \<Rightarrow> (string + 'd ingest_outcome) \<times> ('d, 'w) stores" where
  "opened_store L calls choice s tx =
    (case choice of
       In_Memory \<Rightarrow> (let (r, m) = mem_ingest L (st_memory s) tx in (r, s\<lparr>st_memory := m\<rparr>))
     | In_Postgres pool \<Rightarrow>
         (let (r, d) = pg_step L calls (st_database s) tx in (r, s\<lparr>st_database := d\<rparr>)))"

text \<open>What the process takes from outside.\<close>

record ('e, 'd, 'w, 'x, 'p) host =
  ho_pgx :: "('x, 'p) pgx"
  ho_calls :: "'w \<Rightarrow> ingest_env \<times> 'w"
  ho_runtime :: "'e runtime"
  ho_accepts :: "string list \<Rightarrow> bool"
  ho_since :: "gotime \<Rightarrow> 'e \<Rightarrow> duration \<times> 'e"
  ho_decode :: "request \<Rightarrow> string + ingest_request"
  ho_spec :: "string + validator"
  ho_prometheus :: "('e, ('d, 'w) stores) world handler"
  ho_mw :: "'e mw_env"

definition api_server ::
  "('d, 'a) lib_scheme \<Rightarrow> ('e, 'd, 'w, 'x, 'p) host \<Rightarrow> config \<Rightarrow> 'p store_choice
    \<Rightarrow> ('e, ('d, 'w) stores, 'd) ingest_server" where
  "api_server L H cfg choice =
    \<lparr>srv_runtime = ho_runtime H, srv_rules = rules_of_config L cfg,
     srv_store = opened_store L (ho_calls H) choice, srv_accepts = ho_accepts H,
     srv_since = ho_since H, srv_decode = ho_decode H\<rparr>"

record 'w http_server =
  hs_addr :: string
  hs_handler :: "'w handler"
  hs_read_timeout :: duration
  hs_read_header_timeout :: duration
  hs_write_timeout :: duration
  hs_idle_timeout :: duration

text \<open>\<open>run\<close> up to the listening server: what it is, on which store, with which checks, or an error.\<close>

record ('e, 'd, 'w, 'p) api =
  api_http :: "('e, ('d, 'w) stores) world http_server"
  api_store :: "'p store_choice"
  api_checker :: checker
  api_config :: config
  api_logger :: slogger
  api_notes :: "(log_level \<times> string) list"

definition start_api ::
  "('d, 'a) lib_scheme \<Rightarrow> (nat \<Rightarrow> nat \<Rightarrow> nat \<Rightarrow> nat) \<Rightarrow> ('e, 'd, 'w, 'x, 'p) host \<Rightarrow> string
    \<Rightarrow> environment \<Rightarrow> string + ('e, 'd, 'w, 'p) api" where
  "start_api L fraction_ns H version env =
    (let (cfg, errs) = load L fraction_ns env in
     if errs \<noteq> [] then Inl (''load configuration: '' @ join [CHR 0x0A] errs)
     else
       (case fst (open_store (ho_pgx H) cfg (new_checker health_check_timeout)) of
          Inl e \<Rightarrow> Inl e
        | Inr (choice, store_name, ck) \<Rightarrow>
            (let notes = (Level_Info, ''ingest policy loaded'') #
                   (if \<not> uses_database cfg
                    then [(Level_Warn, ''running without a database: accepted transactions are held in memory and lost on restart'')]
                    else [])
             in case new_router L (api_server L H cfg choice) (ho_spec H) ck (ho_prometheus H) (ho_mw H) of
                  Inl e \<Rightarrow> Inl (''build http router: '' @ e)
                | Inr router \<Rightarrow>
                    Inr \<lparr>api_http =
                        \<lparr>hs_addr = cf_http_addr cfg, hs_handler = router,
                         hs_read_timeout = cf_read_timeout cfg,
                         hs_read_header_timeout = cf_read_timeout cfg,
                         hs_write_timeout = cf_write_timeout cfg,
                         hs_idle_timeout = cf_idle_timeout cfg\<rparr>,
                      api_store = choice, api_checker = ck, api_config = cfg,
                      api_logger = new_logger L
                        \<lparr>lo_level = cf_log_level cfg, lo_format = cf_log_format cfg,
                         lo_service = cf_service_name cfg, lo_environment = cf_environment cfg,
                         lo_version = version\<rparr>,
                      api_notes = notes\<rparr>)))"

text \<open>How \<open>run\<close> ends: the listener returned, closed or with an error, or a signal came first.\<close>

datatype serve_end = Listener_Returned "string option" | Signal_Received

definition finish_api :: "(duration \<Rightarrow> string option) \<Rightarrow> config \<Rightarrow> serve_end \<Rightarrow> string option" where
  "finish_api shutdown cfg e =
    (case e of
       Listener_Returned err \<Rightarrow> map_option (\<lambda>x. ''http server: '' @ x) err
     | Signal_Received \<Rightarrow>
         map_option (\<lambda>x. ''graceful shutdown: '' @ x) (shutdown (cf_shutdown_timeout cfg)))"

text \<open>\<open>main\<close> of the self-probe.\<close>

definition healthcheck_address :: "environment \<Rightarrow> string" where
  "healthcheck_address env =
    (case env ''HTTP_ADDR'' of Some addr \<Rightarrow> if addr = [] then '':8080'' else addr | None \<Rightarrow> '':8080'')"

section \<open>The relay: \<open>cmd/outbox-relay/main.go\<close> and the log publisher\<close>

text \<open>\<open>LogPublisher.Publish\<close>: the line it writes; it never fails. The payload is not in it.\<close>

definition log_publish :: "('d, 'a) lib_scheme \<Rightarrow> event \<Rightarrow> log_line list \<Rightarrow> string option \<times> log_line list" where
  "log_publish L e lines =
    (None, lines @ [\<lparr>lg_level = Level_Info, lg_msg = ''outbox event published'',
      lg_attrs = [(''event_id'', uuid_string L (ev_id e)), (''event_type'', ev_type e),
        (''aggregate_id'', uuid_string L (ev_aggregate_id e)),
        (''payload_bytes'', show_nat (length (ev_payload e)))]\<rparr>])"

definition metrics_routes :: "('e, 's) world handler \<Rightarrow> ('e, 's) world route list" where
  "metrics_routes prom =
    [\<lparr>rt_method = ''GET'', rt_path = ''/metrics'', rt_handler = prom\<rparr>,
     \<lparr>rt_method = ''GET'', rt_path = ''/healthz'',
      rt_handler = (\<lambda>r w. ([Set_Header ''Content-Type'' ''application/json'',
        Write_Body (''{'' @ [CHR 0x22] @ ''status'' @ [CHR 0x22] @ '':'' @ [CHR 0x22] @ ''up'' @ [CHR 0x22] @ ''}'')],
        None, w))\<rparr>]"

definition metrics_mux :: "('e, 's) world handler \<Rightarrow> ('e, 's) world handler" where
  "metrics_mux prom = serve_mux (metrics_routes prom)"

record 'p relay_process =
  rl_pool :: 'p
  rl_options :: relay_options
  rl_logger :: slogger
  rl_metrics_addr :: string
  rl_read_header_timeout :: duration

definition start_relay ::
  "('a) unicode_scheme \<Rightarrow> (nat \<Rightarrow> nat \<Rightarrow> nat \<Rightarrow> nat) \<Rightarrow> ('x, 'p) pgx \<Rightarrow> string \<Rightarrow> environment
    \<Rightarrow> string + 'p relay_process" where
  "start_relay U fraction_ns X version env =
    (let (cfg, errs) = load U fraction_ns env in
     if errs \<noteq> [] then Inl (''load configuration: '' @ join [CHR 0x0A] errs)
     else if \<not> uses_database cfg
     then Inl ''DATABASE_URL must be set: the outbox relay requires a durable store''
     else
       (case fst (connect X (cf_database_url cfg) (int32_of (cf_database_max_conns cfg))) of
          Inl e \<Rightarrow> Inl (''connect to database: '' @ e)
        | Inr pool \<Rightarrow>
            Inr \<lparr>rl_pool = pool,
              rl_options = relay_options_of
                \<lparr>op_batch_size = cf_outbox_batch_size cfg,
                 op_poll_interval = cf_outbox_poll_interval cfg,
                 op_base_backoff = 0, op_max_backoff = 0, op_max_attempts = 0\<rparr>,
              rl_logger = new_logger U
                \<lparr>lo_level = cf_log_level cfg, lo_format = cf_log_format cfg,
                 lo_service = cf_service_name cfg @ ''-outbox-relay'',
                 lo_environment = cf_environment cfg, lo_version = version\<rparr>,
              rl_metrics_addr = cf_metrics_addr cfg, rl_read_header_timeout = 5 * second\<rparr>))"

section \<open>The migrations: \<open>cmd/migrate/main.go\<close> and \<open>migrate.go\<close>\<close>

record 'g goose =
  gs_open :: "string \<Rightarrow> string option"
  gs_dialect :: "string \<Rightarrow> string option"
  gs_up :: "'g \<Rightarrow> string option \<times> 'g"
  gs_status :: "'g \<Rightarrow> string option \<times> 'g"
  gs_down :: "'g \<Rightarrow> string option \<times> 'g"

definition run_goose :: "'g goose \<Rightarrow> ('g \<Rightarrow> string option \<times> 'g) \<Rightarrow> 'g \<Rightarrow> string option \<times> 'g" where
  "run_goose G run db =
    (case gs_dialect G ''postgres'' of
       Some e \<Rightarrow> (Some (''set migration dialect: '' @ e), db)
     | None \<Rightarrow> (let (e, db1) = run db in (map_option (\<lambda>x. ''apply migrations: '' @ x) e, db1)))"

definition over_database ::
  "'g goose \<Rightarrow> string \<Rightarrow> ('g \<Rightarrow> string option \<times> 'g) \<Rightarrow> 'g \<Rightarrow> string option \<times> 'g" where
  "over_database G url run db =
    (case gs_open G url of
       Some e \<Rightarrow> (Some (''open database for migration: '' @ e), db)
     | None \<Rightarrow> run_goose G run db)"

definition migrate :: "'g goose \<Rightarrow> string \<Rightarrow> 'g \<Rightarrow> string option \<times> 'g" where
  "migrate G url db = over_database G url (gs_up G) db"

definition migrate_with_pool :: "'g goose \<Rightarrow> 'g \<Rightarrow> string option \<times> 'g" where
  "migrate_with_pool G db = run_goose G (gs_up G) db"

definition migration_status :: "'g goose \<Rightarrow> string \<Rightarrow> 'g \<Rightarrow> string option \<times> 'g" where
  "migration_status G url db = over_database G url (gs_status G) db"

definition migrate_down :: "'g goose \<Rightarrow> string \<Rightarrow> 'g \<Rightarrow> string option \<times> 'g" where
  "migrate_down G url db = over_database G url (gs_down G) db"

text \<open>\<open>run\<close> of the command, for the arguments behind its name: the error, what it prints, the database.\<close>

definition run_migrate ::
  "('a) unicode_scheme \<Rightarrow> (nat \<Rightarrow> nat \<Rightarrow> nat \<Rightarrow> nat) \<Rightarrow> 'g goose \<Rightarrow> environment \<Rightarrow> string list \<Rightarrow> 'g
    \<Rightarrow> string option \<times> string \<times> 'g" where
  "run_migrate U fraction_ns G env args db =
    (let (cfg, errs) = load U fraction_ns env;
         url = cf_database_url cfg;
         command = (case args of [] \<Rightarrow> ''up'' | a # _ \<Rightarrow> a)
     in
     if errs \<noteq> [] then (Some (''load configuration: '' @ join [CHR 0x0A] errs), [], db)
     else if url = [] then (Some ''DATABASE_URL must be set'', [], db)
     else if command = ''up'' then
       (case migrate G url db of
          (Some e, db1) \<Rightarrow> (Some e, [], db1)
        | (None, db1) \<Rightarrow> (None, ''migrations applied'' @ [CHR 0x0A], db1))
     else if command = ''status'' then
       (let (e, db1) = migration_status G url db in (e, [], db1))
     else if command = ''down'' then
       (case migrate_down G url db of
          (Some e, db1) \<Rightarrow> (Some e, [], db1)
        | (None, db1) \<Rightarrow> (None, ''rolled back one migration'' @ [CHR 0x0A], db1))
     else (Some (''unknown command '' @ quote U command @ '': want up, status, or down''), [], db))"

lemmas commands_eval [model_defs] =
  pool_settings_def connect_def int32_of_def health_check_timeout_def rules_of_config_def
  open_store_def opened_store_def api_server_def start_api_def finish_api_def
  healthcheck_address_def log_publish_def metrics_routes_def metrics_mux_def start_relay_def
  run_goose_def over_database_def migrate_def migrate_with_pool_def migration_status_def
  migrate_down_def run_migrate_def

section \<open>What a started service is\<close>

lemma rules_of_config_simps [simp]:
  "r_types (rules_of_config U cfg) = Some (new_type_set U (cf_transaction_types cfg))"
  "r_max_clock_skew (rules_of_config U cfg) = cf_max_clock_skew cfg"
  by (simp_all add: rules_of_config_def Let_def)

lemma rules_of_config_currency:
  assumes "lookup U (cf_default_currency cfg) \<noteq> None"
  shows "lookup U (cf_default_currency cfg) = Some (r_default_currency (rules_of_config U cfg))"
    and "default_currency_known U (rules_of_config U cfg)"
proof -
  obtain c where c: "lookup U (cf_default_currency cfg) = Some c" using assms by blast
  then have d: "r_default_currency (rules_of_config U cfg) = c"
    by (simp add: rules_of_config_def Let_def)
  with c show "lookup U (cf_default_currency cfg) = Some (r_default_currency (rules_of_config U cfg))"
    by (simp only: d)
  show "default_currency_known U (rules_of_config U cfg)"
    using lookup_again [OF c] unfolding default_currency_known_def d by blast
qed

lemma start_api_parts:
  assumes "start_api L F H version env = Inr api"
  shows "snd (load L F env) = []" and "api_config api = fst (load L F env)"
    and "\<exists>name. fst (open_store (ho_pgx H) (api_config api) (new_checker health_check_timeout))
      = Inr (api_store api, name, api_checker api)"
    and "new_router L (api_server L H (api_config api) (api_store api)) (ho_spec H) (api_checker api)
      (ho_prometheus H) (ho_mw H) = Inr (hs_handler (api_http api))"
    and "\<not> uses_database (api_config api) \<Longrightarrow> Level_Warn \<in> fst ` set (api_notes api)"
    and "hs_addr (api_http api) = cf_http_addr (api_config api)
      \<and> hs_read_timeout (api_http api) = cf_read_timeout (api_config api)
      \<and> hs_write_timeout (api_http api) = cf_write_timeout (api_config api)
      \<and> hs_idle_timeout (api_http api) = cf_idle_timeout (api_config api)"
  using assms by (auto simp: start_api_def Let_def split: prod.splits if_splits sum.splits)

lemma open_store_choice:
  assumes "fst (open_store X cfg ck) = Inr (choice, name, ck')"
  shows "if uses_database cfg then \<exists>pool. choice = In_Postgres pool \<and> ck' = register ''database'' (px_ping X pool) ck
    else choice = In_Memory \<and> ck' = ck"
  using assms by (auto simp: open_store_def split: prod.splits sum.splits if_splits)


text \<open>A host for the witnesses: a database that answers, at the address the environment names.\<close>

definition demo_pgx :: "(unit, string) pgx" where
  "demo_pgx =
    \<lparr>px_parse = (\<lambda>url. Inr \<lparr>pc_max_conns = 4, pc_max_lifetime = 0, pc_max_idle = 0, pc_rest = ()\<rparr>),
     px_new = (\<lambda>cfg. Inr ''pool''), px_ping_start = (\<lambda>p. None), px_ping = (\<lambda>p t. (None, 1))\<rparr>"

definition demo_host :: "(uuid, refdec, uuid, unit, string) host" where
  "demo_host =
    \<lparr>ho_pgx = demo_pgx, ho_calls = demo_env, ho_runtime = demo_runtime,
     ho_accepts = list_all utf8_valid, ho_since = demo_since, ho_decode = (\<lambda>r. Inr demo_body),
     ho_spec = Inr demo_validator, ho_prometheus = (\<lambda>r w. ([], None, w)), ho_mw = demo_mw\<rparr>"

definition demo_fraction :: "nat \<Rightarrow> nat \<Rightarrow> nat \<Rightarrow> nat" where
  "demo_fraction f ns scale = f * ns div scale"

definition database_environment :: environment where
  "database_environment key = (if key = ''DATABASE_URL'' then Some ''postgres://db'' else None)"

lemma load_database_environment:
  "snd (load U F database_environment) = []" "uses_database (fst (load U F database_environment))"
proof -
  show "snd (load U F database_environment) = []"
    by (rule load_only_conns) (simp_all add: database_environment_def env_int_def)
  show "uses_database (fst (load U F database_environment))"
    by (simp add: uses_database_def load_fields env_string_def database_environment_def)
qed


section \<open>The size of the pool\<close>

lemma sint_int32_of: "0 < n \<Longrightarrow> sint (int32_of n) = n \<longleftrightarrow> n \<le> 2147483647"
proof -
  assume "0 < n"
  have "sint (int32_of n) \<le> 2147483647" using sint_lt [of "int32_of n"] by simp
  moreover have "sint (int32_of n) = n" if "n \<le> 2147483647"
    using that \<open>0 < n\<close> by (simp add: int32_of_def int_word_sint)
  ultimately show ?thesis by auto
qed

lemma pool_conns:
  "pc_max_conns (pool_settings m pc) = (if 0 < sint m then m else pc_max_conns pc)"
  by (simp add: pool_settings_def Let_def)

definition many_conns :: environment where
  "many_conns key = (if key = ''DATABASE_MAX_CONNS'' then Some ''4294967297'' else None)"

lemma load_many_conns:
  "snd (load U F many_conns) = []" "cf_database_max_conns (fst (load U F many_conns)) = 4294967297"
proof -
  have "atoi ''4294967297'' = Some 4294967297" by code_simp
  then have conns: "env_int U many_conns ''DATABASE_MAX_CONNS'' 10 [] = (4294967297, [])"
    by (simp add: env_int_def many_conns_def)
  show "snd (load U F many_conns) = []"
    by (rule load_only_conns) (simp_all add: conns, simp add: many_conns_def)
  show "cf_database_max_conns (fst (load U F many_conns)) = 4294967297"
    by (simp add: load_values conns)
qed

text \<open>The pool has the configured number of connections exactly when that number fits 32 signed
  bits, although \<open>Load\<close> accepts any positive 64-bit number: an environment without a single
  problem asks for 4294967297 connections and gets a pool of one.\<close>

theorem pool_size_wraps:
  "(let n = cf_database_max_conns (fst (load U F env)) in
      sint (pc_max_conns (pool_settings (int32_of n) pc)) = n \<longleftrightarrow> n \<le> 2147483647)
    \<and> snd (load U F many_conns) = []
    \<and> cf_database_max_conns (fst (load U F many_conns)) = 4294967297
    \<and> pc_max_conns (pool_settings (int32_of (cf_database_max_conns (fst (load U F many_conns)))) pc) = 1"
proof -
  let ?n = "cf_database_max_conns (fst (load U F env))"
  have pos: "0 < ?n" using load_numbers [of U F env] by (simp add: numbers_ok_def)
  have "sint (pc_max_conns pc) < 2147483648" using sint_lt [of "pc_max_conns pc"] by simp
  then have "sint (pc_max_conns (pool_settings (int32_of ?n) pc)) = ?n \<longleftrightarrow> ?n \<le> 2147483647"
    using sint_int32_of [OF pos] pos by (auto simp: pool_conns)
  moreover have "int32_of 4294967297 = 1" by (simp add: int32_of_def)
  ultimately show ?thesis by (simp add: load_many_conns pool_conns)
qed

section \<open>The relay and the migrations as configured\<close>

text \<open>The outbox relay starts only over a database, and with the batch size and the poll interval
  of a configuration without problems: the fallbacks of \<open>NewRelay\<close> never replace them, and the
  retry policy is the default one.\<close>

theorem relay_as_configured:
  assumes "start_relay U F X version env = Inr rl"
  defines "cfg \<equiv> fst (load U F env)"
  shows "config_ok U cfg \<and> uses_database cfg
    \<and> rl_options rl =
      \<lparr>op_batch_size = cf_outbox_batch_size cfg, op_poll_interval = cf_outbox_poll_interval cfg,
       op_base_backoff = 1000000000, op_max_backoff = 300000000000, op_max_attempts = 10\<rparr>"
proof -
  have started: "snd (load U F env) = []" "uses_database cfg"
    "rl_options rl = relay_options_of
      \<lparr>op_batch_size = cf_outbox_batch_size cfg, op_poll_interval = cf_outbox_poll_interval cfg,
       op_base_backoff = 0, op_max_backoff = 0, op_max_attempts = 0\<rparr>"
    using assms(1) by (auto simp: start_relay_def cfg_def Let_def split: prod.splits if_splits sum.splits)
  have ok: "config_ok U cfg" unfolding cfg_def by (rule config_ok_load [OF started(1)])
  then have "0 < cf_outbox_batch_size cfg" "0 < cf_outbox_poll_interval cfg"
    by (simp_all add: config_ok_def numbers_ok_def)
  then show ?thesis
    using ok started(2,3)
    by (simp add: relay_options_of_def default_relay_options_def Let_def second_def minute_def)
qed

theorem relay_as_configured_witness:
  "\<exists>rl. start_relay ref_lib demo_fraction demo_pgx ''dev'' database_environment = Inr rl
    \<and> op_max_attempts (rl_options rl) = 10"
proof -
  obtain cfg where cfg: "load ref_lib demo_fraction database_environment = (cfg, [])" "uses_database cfg"
    using load_database_environment [of ref_lib demo_fraction] by (metis prod.collapse)
  have "\<exists>rl. start_relay ref_lib demo_fraction demo_pgx ''dev'' database_environment = Inr rl"
    by (simp add: start_relay_def cfg connect_def demo_pgx_def)
  then obtain rl where rl: "start_relay ref_lib demo_fraction demo_pgx ''dev'' database_environment = Inr rl" ..
  from relay_as_configured [OF rl] rl show ?thesis by auto
qed

text \<open>
  The schema is touched by \<open>up\<close>, by \<open>down\<close> and, as far as the engine touches it for a report, by
  \<open>status\<close>; nothing else runs the engine.
\<close>

lemma migrate_only_on_command:
  assumes "run_migrate U F G env args db = (e, out, db1)" and "db1 \<noteq> db"
  shows "snd (load U F env) = [] \<and> (args = [] \<or> hd args \<in> {''up'', ''down'', ''status''})
    \<and> db1 \<in> {snd (gs_up G db), snd (gs_down G db), snd (gs_status G db)}"
  using assms
  by (auto simp: run_migrate_def migrate_def migration_status_def migrate_down_def over_database_def
      run_goose_def Let_def split: prod.splits if_splits option.splits list.splits)

end
