(* ===== verification/Service_Props.thy ===== *)
theory Service_Props
  imports Commands
begin

text \<open>
  The service from end to end: what a request does to the store through the router, its layers,
  the contract check and the handler, and what the client reads back.
\<close>

section \<open>The store through the layers\<close>

lemma caught_store: "wd_store (snd (snd (caught M r res))) = wd_store (snd (snd res))"
  by (cases res) (auto simp: caught_def recover_def split: option.splits panic.splits)

lemma metrics_mw_store:
  "wd_store (snd (snd (metrics_mw accepts next r w))) = wd_store (snd (snd (next r w)))"
  by (simp add: metrics_mw_def case_prod_beta with_metrics_store split: option.splits)

lemma logger_store:
  "wd_store (snd (snd (logger M next r w)))
    = wd_store (snd (snd (next r (if is_probe (rq_path r) then w else w\<lparr>wd_env := snd (mw_now M (wd_env w))\<rparr>))))"
  by (simp add: logger_def case_prod_beta Let_def split: option.splits)

lemma layers_store:
  "wd_store (snd (snd (chain h (service_layers M accepts) r w)))
    = wd_store (snd (snd (h (inner_request r (id_of M r w)) (inner_world M r w))))"
proof -
  obtain i e where ie: "inbound_id M r (wd_env w) = (i, e)" by fastforce
  have "wd_store (snd (snd (chain h (service_layers M accepts) r w)))
      = wd_store (snd (snd (logger M (metrics_mw accepts (recover M h)) (inner_request r i) (w\<lparr>wd_env := e\<rparr>))))"
    by (simp add: layers_outer ie case_prod_beta)
  also have "\<dots> = wd_store (snd (snd (h (inner_request r i) (inner_world M r w))))"
    unfolding logger_store metrics_mw_store recover_caught caught_store
    by (simp add: inner_world_def ie)
  finally show ?thesis by (simp add: id_of_def ie)
qed

lemma handle_ready_store: "wd_store (snd (snd (handle_ready ck r w))) = wd_store w"
proof -
  have "wd_store (fold log_failed_check xs w) = wd_store w" for xs
    by (induction xs arbitrary: w) (simp_all add: log_failed_check_def)
  then show ?thesis by (simp add: handle_ready_def Let_def)
qed

lemma spec_validator_store:
  "wd_store (snd (snd (spec_validator V accepts next r w)))
    = (if vd_check V r = None then wd_store (snd (snd (next r w))) else wd_store w)"
  by (auto simp: spec_validator_def contract_error_store split: option.splits prod.splits)

text \<open>What a pushed request makes of the store.\<close>

definition pushed ::
  "('d, 'a) lib_scheme \<Rightarrow> ('e, 's, 'd) ingest_server \<Rightarrow> request \<Rightarrow> 'e \<Rightarrow> 's \<Rightarrow> 's" where
  "pushed L srv r e s =
    (case accepted_request L srv r e of Some tx \<Rightarrow> snd (srv_store srv s tx) | None \<Rightarrow> s)"

lemma serve_mux_store:
  assumes "\<And>r w. wd_store (snd (snd (prom r w))) = wd_store w"
  shows "wd_store (snd (snd (serve_mux (service_routes L srv V ck prom) r w)))
    = (if rq_method r = ''POST'' \<and> rq_path r = ingest_path \<and> vd_check V r = None
       then pushed L srv r (wd_env w) (wd_store w) else wd_store w)"
proof (cases "rq_method r = ''POST'' \<and> rq_path r = ingest_path")
  case True
  then show ?thesis
    by (simp add: find_ingest spec_validator_store ingest_transaction_store pushed_def
        cong: option.case_cong)
next
  case False
  let ?found = "find (\<lambda>rt. rt_path rt = rq_path r \<and> answers_method (rq_method r) rt)
    (service_routes L srv V ck prom)"
  have "wd_store (snd (snd (rt_handler rt r v))) = wd_store v" if "?found = Some rt" for rt v
    using that False assms
    by (auto simp: find_Some_iff service_routes_def answers_method_def nth_Cons' handle_live_def
        handle_ready_store split: if_splits)
  then have "wd_store (snd (snd (serve_mux (service_routes L srv V ck prom) r w))) = wd_store w"
    by (cases ?found) (simp_all add: serve_mux_def Let_def)
  moreover have "\<not> (rq_method r = ''POST'' \<and> rq_path r = ingest_path \<and> vd_check V r = None)"
    using False by blast
  ultimately show ?thesis by (simp only: if_False)
qed

section \<open>The pattern through the handler\<close>

lemma with_metrics_pattern: "wd_pattern (snd (with_metrics f w)) = wd_pattern w"
  by (simp add: with_metrics_def case_prod_beta)

lemma answer_pattern: "wd_pattern (snd (snd (answer srv source result started calls w))) = wd_pattern w"
  by (auto simp: answer_def with_metrics_def case_prod_beta Let_def split: option.splits)

lemma record_transaction_pattern:
  "wd_pattern (snd (snd (record_transaction L srv r started tx w))) = wd_pattern w"
proof -
  have out: "wd_pattern (snd (snd (answer_outcome L srv started tx out v))) = wd_pattern v" for out v
    by (simp add: answer_outcome_def answer_pattern)
  obtain res s where st: "srv_store srv (wd_store w) tx = (res, s)" by fastforce
  show ?thesis
  proof (cases res)
    case (Inl e)
    then show ?thesis using st by (simp add: record_transaction_def answer_pattern)
  next
    case (Inr o1)
    let ?m = "with_metrics (divergent_replay (srv_accepts srv) (tx_source tx))
        (log_divergence L r tx o1 (w\<lparr>wd_store := s\<rparr>))"
    have "wd_pattern (snd ?m) = wd_pattern w"
      by (simp add: with_metrics_pattern log_divergence_def)
    then show ?thesis
      using st Inr out by (cases ?m; cases "fst ?m") (simp_all add: record_transaction_def Let_def)
  qed
qed

section \<open>An accepted push through the layers\<close>

definition panic_answer :: "writer_call list" where
  "panic_answer = [Set_Header ''Content-Type'' ''application/json'', Write_Header 500, Write_Body panic_body]"

text \<open>By the store's result, unless the metrics refuse the source: then the recovery answers.\<close>

definition push_answer ::
  "('d, 'a) lib_scheme \<Rightarrow> source_labels \<Rightarrow> string \<Rightarrow> string + 'd ingest_outcome \<Rightarrow> writer_call list" where
  "push_answer L labels source res =
    (if countable_source labels source then store_answer L res else panic_answer)"

lemma served_push_answer:
  assumes "new_router L srv (Inr V) ck prom M = Inr serve" and "prometheus_ok (srv_accepts srv)"
    and "rq_method r = ''POST''" and "rq_path r = ''/ingest/v1/transactions''"
    and "vd_check V (inner_request r (id_of M r w)) = None"
    and "accepted_request L srv (inner_request r (id_of M r w)) (wd_env (inner_world M r w)) = Some tx"
    and "srv_store srv (wd_store w) tx = (res, s)"
  shows "\<exists>w'. serve r w = (Set_Header request_id_header (id_of M r w)
      # push_answer L (sources_of w) (tx_source tx) res, None, w') \<and> wd_store w' = s"
proof -
  let ?r = "inner_request r (id_of M r w)" and ?h = "serve_mux (service_routes L srv V ck prom)"
  let ?w = "inner_world M r w" and ?out = "counted (sources_of w) (tx_source tx) (store_answer L res)"
  let ?wp = "?w\<lparr>wd_pattern := ''POST /ingest/v1/transactions''\<rparr>"
  have route: "?h ?r ?w = ingest_transaction L srv ?r ?wp"
    using assms(3-5) find_ingest [of ?r L srv V ck prom ?w]
    by (simp add: ingest_path_def spec_validator_def)
  have acc: "accepted_request L srv ?r (wd_env ?wp) = Some tx" using assms(6) by simp
  have "srv_store srv (wd_store ?wp) tx = (res, s)" using assms(7) by simp
  from accepted_total [OF acc assms(2) this]
  obtain w1 where run: "ingest_transaction L srv ?r ?wp = (fst ?out, snd ?out, w1)" "wd_store w1 = s"
    by auto
  obtain started e1 where
    eq: "record_transaction L srv ?r started tx (?wp\<lparr>wd_env := e1\<rparr>) = (fst ?out, snd ?out, w1)"
    using ingest_transaction_accepted [OF acc] run(1) by metis
  have pattern: "wd_pattern w1 = ''POST /ingest/v1/transactions''"
    using record_transaction_pattern [of L srv ?r started tx "?wp\<lparr>wd_env := e1\<rparr>"]
    unfolding eq by simp
  have "snd ?out \<noteq> Some Abort_Handler" by (simp add: counted_def)
  then obtain w2 where w2: "caught M ?r (fst ?out, snd ?out, w1) = (fst ?out @ (if snd ?out = None then []
        else [Set_Header ''Content-Type'' ''application/json'', Write_Header 500, Write_Body panic_body]),
        None, w2)" "wd_pattern w2 = wd_pattern w1" "wd_store w2 = wd_store w1"
    by (rule caught_cases)
  have count: "countable_request (srv_accepts srv) r w2"
    using assms(2,3) pattern_valid post_valid pattern w2(2) by (intro countableI) simp_all
  have "caught M ?r (?h ?r ?w) = (push_answer L (sources_of w) (tx_source tx) res, None, w2)"
    unfolding route run(1) w2(1) by (simp add: counted_def push_answer_def panic_answer_def)
  from layers_result [where h = ?h, OF this count] show ?thesis
    using assms(1) run(2) w2(3) by (auto simp: new_router_def)
qed

lemma store_answer_response:
  "map_of (rs_header (respond (Set_Header request_id_header i # store_answer L res))) ''X-Request-Id'' = Some i"
  "case res of
     Inl e \<Rightarrow> rs_status (respond (Set_Header request_id_header i # store_answer L res)) = 500
       \<and> rs_body (respond (Set_Header request_id_header i # store_answer L res))
           = rs_body (respond (write_error 500 ''transaction could not be recorded'' []))
   | Inr out \<Rightarrow> rs_status (respond (Set_Header request_id_header i # store_answer L res))
           = (if out_duplicate out then 200 else 201)
       \<and> rs_body (respond (Set_Header request_id_header i # store_answer L res))
           = ingest_result_json (to_result L out) @ [CHR 0x0A]"
proof -
  show "map_of (rs_header (respond (Set_Header request_id_header i # store_answer L res))) ''X-Request-Id'' = Some i"
    unfolding store_answer_def by (cases res)
      (simp_all add: respond_def write_json_def write_error_def new_writer_def request_id_header_def
        gm_set_def Let_def)
qed (auto simp: store_answer_def respond_header respond_header_body respond_write_error split: sum.split)

lemma panic_answer_response:
  "map_of (rs_header (respond (Set_Header request_id_header i # panic_answer))) ''X-Request-Id'' = Some i"
  "rs_status (respond (Set_Header request_id_header i # panic_answer)) = 500"
  "rs_body (respond (Set_Header request_id_header i # panic_answer)) = panic_body"
  by (simp_all add: panic_answer_def respond_def new_writer_def request_id_header_def gm_set_def Let_def)

text \<open>The status of a push, and the headers that do not depend on it.\<close>

lemma push_answer_status:
  "rs_status (respond (Set_Header request_id_header i # push_answer L labels source res)) =
    (if \<not> countable_source labels source then 500
     else case res of Inl _ \<Rightarrow> 500 | Inr out \<Rightarrow> if out_duplicate out then 200 else 201)"
  using store_answer_response(2) [where L = L and res = res and i = i] panic_answer_response(2)
  by (auto simp: push_answer_def split: sum.splits)

section \<open>Properties\<close>

text \<open>C2: The one way to change the store over HTTP: whatever the request, the service leaves the store
  as it is, unless it is a \<open>POST\<close> to the ingest path that satisfies the contract and whose
  submission the rules accept, and then it is ingested once, even when the request ends in a
  panic.\<close>

theorem store_changed_by_accepted_push_only:
  assumes "new_router L srv (Inr V) ck prom M = Inr serve"
    and "\<forall>r w. wd_store (snd (snd (prom r w))) = wd_store w"
  shows "wd_store (snd (snd (serve r w))) =
    (if rq_method r = ''POST'' \<and> rq_path r = ''/ingest/v1/transactions''
        \<and> vd_check V (inner_request r (id_of M r w)) = None
     then
       (case accepted_request L srv (inner_request r (id_of M r w)) (wd_env (inner_world M r w)) of
          Some tx \<Rightarrow> snd (srv_store srv (wd_store w) tx)
        | None \<Rightarrow> wd_store w)
     else wd_store w)"
proof -
  let ?r = "inner_request r (id_of M r w)" and ?h = "serve_mux (service_routes L srv V ck prom)"
  have serve: "serve = chain ?h (service_layers M (srv_accepts srv))"
    using assms(1) by (simp add: new_router_def)
  have prom: "\<And>r w. wd_store (snd (snd (prom r w))) = wd_store w" using assms(2) by blast
  show ?thesis
    unfolding serve layers_store serve_mux_store [where prom = prom, OF prom]
    by (simp add: ingest_path_def pushed_def)
qed

text \<open>C1: An accepted push over HTTP, whatever the store and whatever the source: the store is the one
  after this one ingest and the response names the request id. The client gets 201 or, for a
  duplicate, 200, with the result of the store's record as JSON, and a 500 without detail when the
  store fails; except under a source the metrics refuse (\<open>countable_source\<close>: its first 64 bytes end
  inside a character and the label set does not count it among the others), where every answer is
  the 500 of the recovered panic, although the store has ingested the push.\<close>

theorem served_push:
  assumes "new_router L srv (Inr V) ck prom M = Inr serve" and "prometheus_ok (srv_accepts srv)"
    and "rq_method r = ''POST''" and "rq_path r = ''/ingest/v1/transactions''"
    and "vd_check V (inner_request r (id_of M r w)) = None"
    and "accepted_request L srv (inner_request r (id_of M r w)) (wd_env (inner_world M r w)) = Some tx"
    and "srv_store srv (wd_store w) tx = (res, s)"
  shows "\<exists>calls w'. serve r w = (calls, None, w') \<and> wd_store w' = s
    \<and> map_of (rs_header (respond calls)) ''X-Request-Id'' = Some (id_of M r w)
    \<and> (if countable_source (m_sources (wd_metrics w)) (tx_source tx)
       then case res of
           Inl e \<Rightarrow> rs_status (respond calls) = 500
             \<and> rs_body (respond calls) = rs_body (respond (write_error 500 ''transaction could not be recorded'' []))
         | Inr out \<Rightarrow> rs_status (respond calls) = (if out_duplicate out then 200 else 201)
             \<and> rs_body (respond calls) = ingest_result_json (to_result L out) @ [CHR 0x0A]
       else rs_status (respond calls) = 500 \<and> rs_body (respond calls) = panic_body)"
proof -
  obtain w' where "serve r w = (Set_Header request_id_header (id_of M r w)
      # push_answer L (sources_of w) (tx_source tx) res, None, w')" "wd_store w' = s"
    using served_push_answer [OF assms] by blast
  then show ?thesis
    using store_answer_response [where L = L and res = res and i = "id_of M r w"]
      panic_answer_response [of "id_of M r w"]
    by (cases "countable_source (sources_of w) (tx_source tx)") (auto simp: push_answer_def)
qed

text \<open>A service over the memory store for the witnesses.\<close>

definition memory_service :: "(uuid, refdec mem_store) world handler" where
  "memory_service =
    chain (serve_mux (service_routes ref_lib (demo_server (mem_ingest ref_lib) demo_body)
        demo_validator (new_checker 0) (\<lambda>r w. ([], None, w))))
      (service_layers demo_mw (list_all utf8_valid))"

definition memory_start :: "(uuid, refdec mem_store) world" where
  "memory_start = demo_world mem_new"

lemma memory_start_store [simp]: "wd_store memory_start = mem_new"
  by (simp add: memory_start_def)

lemma memory_service_router:
  "new_router ref_lib (demo_server (mem_ingest ref_lib) demo_body) (Inr demo_validator)
    (new_checker 0) (\<lambda>r w. ([], None, w)) demo_mw = Inr memory_service"
  by (simp add: new_router_def memory_service_def demo_server_def)

theorem store_changed_by_accepted_push_only_witness:
  "wd_store (snd (snd (memory_service (demo_get ''GET'' ''/readyz'') memory_start))) = mem_new"
  using store_changed_by_accepted_push_only [OF memory_service_router, of "demo_get ''GET'' ''/readyz''"
      memory_start]
  by (simp add: demo_get_def)

theorem served_push_witness:
  "\<exists>calls w'. memory_service demo_request memory_start = (calls, None, w')
    \<and> rs_status (respond calls) = 201"
proof -
  let ?srv = "demo_server (mem_ingest ref_lib) demo_body"
  let ?r = "inner_request demo_request (id_of demo_mw demo_request memory_start)"
  let ?e = "wd_env (inner_world demo_mw demo_request memory_start)"
  let ?tx = "accepted_tx ref_lib demo_rules demo_now (demo_submission\<lparr>sub_source := ''lane-7''\<rparr>) (?e + 1)"
  have ok: "prometheus_ok (srv_accepts ?srv)" by simp
  have req: "rq_method demo_request = ''POST''" "rq_path demo_request = ''/ingest/v1/transactions''"
    "rq_body demo_request = None" by (simp_all add: demo_request_def)
  have contract: "vd_check demo_validator ?r = None"
    by (simp add: demo_validator_def demo_check_def read_body_def inner_request_def Let_def req
        demo_request_def)
  have "demo_body\<lparr>ir_source := ''lane-7''\<rparr> = demo_body" by (simp add: demo_body_def)
  then have acc: "accepted_request ref_lib ?srv ?r ?e = Some ?tx"
    using demo_accepted_request [of "mem_ingest ref_lib" "''lane-7''" ?r ?e] by simp
  have "source_label_valid (tx_source ?tx)"
    by (simp add: accepted_tx_def source_label_valid_def utf8_valid_ascii is_ascii_def code_def)
  then have src: "countable_source labels (tx_source ?tx)" for labels by (rule source_label_countable)
  obtain out s where st: "mem_ingest ref_lib mem_new ?tx = (Inr out, s)" "\<not> out_duplicate out"
    by (simp add: mem_ingest_def mem_new_def Let_def)
  then have "srv_store ?srv (wd_store memory_start) ?tx = (Inr out, s)" by simp
  from served_push [OF memory_service_router ok req(1,2) contract acc this] st(2) src
  show ?thesis by auto
qed

end
