(* ===== verification/Relay_Props.thy ===== *)
theory Relay_Props
  imports Relay Postgres_Store
begin

text \<open>
  What the relay guarantees: about one pass, about any sequence of passes, and that a reachable
  database and a working publisher drain the outbox.
\<close>

section \<open>Sequences of passes\<close>

text \<open>
  The passes of a relay one after the other, each with what the server does in it: everything
  handed to the publisher with its verdict, and the rows and the world they leave.
\<close>

fun relay_run ::
  "relay_options \<Rightarrow> int \<Rightarrow> 'w pass_env list \<Rightarrow> outbox_row list \<Rightarrow> 'w
    \<Rightarrow> (event \<times> string option) list \<times> outbox_row list \<times> 'w" where
  "relay_run opts x [] rows w = ([], rows, w)"
| "relay_run opts x (env # envs) rows w =
    (let (r, rows1, p) = run_once opts x env rows w;
         (ds, rows2, w2) = relay_run opts x envs rows1 (ps_world p)
     in (ps_delivered p @ ds, rows2, w2))"

lemma relay_run_ids:
  "distinct (event_ids rows) \<Longrightarrow> relay_run opts x envs rows w = (ds, rows', w') \<Longrightarrow>
    event_ids rows' = event_ids rows"
proof (induction envs arbitrary: rows w ds)
  case (Cons env envs)
  obtain r rows1 p where one: "run_once opts x env rows w = (r, rows1, p)" by (metis prod_cases3)
  obtain ds' where rest: "relay_run opts x envs rows1 (ps_world p) = (ds', rows', w')"
    using Cons.prems(2) one by (auto split: prod.splits)
  have ids: "event_ids rows1 = event_ids rows" by (rule run_once_event_ids [OF one Cons.prems(1)])
  then show ?case using Cons.IH [OF _ rest] Cons.prems(1) by simp
qed simp

lemma relay_run_published:
  "distinct (event_ids rows) \<Longrightarrow> relay_run opts x envs rows w = (ds, rows', w') \<Longrightarrow>
    published_ids rows \<subseteq> published_ids rows'
    \<and> published_ids rows' \<subseteq> published_ids rows \<union> {ev_id e | e. (e, None) \<in> set ds}"
proof (induction envs arbitrary: rows w ds)
  case (Cons env envs)
  obtain r rows1 p where one: "run_once opts x env rows w = (r, rows1, p)" by (metis prod_cases3)
  obtain ds' where rest: "relay_run opts x envs rows1 (ps_world p) = (ds', rows', w')"
      and ds: "ds = ps_delivered p @ ds'"
    using Cons.prems(2) one by (auto split: prod.splits)
  have "event_ids rows1 = event_ids rows" by (rule run_once_event_ids [OF one Cons.prems(1)])
  then have "distinct (event_ids rows1)" using Cons.prems(1) by simp
  note later = Cons.IH [OF this rest]
  have delivered: "{ev_id e | e. (e, None) \<in> set ds}
      = {ev_id e | e. (e, None) \<in> set (ps_delivered p)} \<union> {ev_id e | e. (e, None) \<in> set ds'}"
    unfolding ds by auto
  have "published_ids rows \<subseteq> published_ids rows'"
    using run_once_published(1) [OF one Cons.prems(1)] conjunct1 [OF later] by (rule subset_trans)
  moreover have "published_ids rows' \<subseteq> (published_ids rows
      \<union> {ev_id e | e. (e, None) \<in> set (ps_delivered p)}) \<union> {ev_id e | e. (e, None) \<in> set ds'}"
    using conjunct2 [OF later] run_once_published(2) [OF one Cons.prems(1)]
    by (meson Un_mono order_refl subset_trans)
  ultimately show ?case unfolding delivered Un_assoc by simp
qed simp

section \<open>Draining\<close>

text \<open>A pass in which nothing fails: the server answers, no row is locked, the publisher accepts.\<close>

definition calm_pass :: "'w pass_env \<Rightarrow> bool" where
  "calm_pass env \<longleftrightarrow> pe_begin env = None \<and> pe_query env = None \<and> pe_commit env = None
    \<and> (\<forall>i. \<not> pe_locked env i) \<and> (\<forall>i. pe_exec env i = None) \<and> (\<forall>e w. fst (pe_publish env e w) = None)"

definition due_rows :: "gotime \<Rightarrow> outbox_row list \<Rightarrow> outbox_row list" where
  "due_rows now rows = filter (is_due now) rows"

lemma calm_publish_one:
  assumes "calm_pass env" and "\<not> ps_aborted p"
  shows "\<not> ps_aborted (snd (publish_one opts x env c p))"
    and "\<exists>w. ps_delivered (snd (publish_one opts x env c p)) = ps_delivered p @ [(cl_event c, None)]"
proof -
  obtain v w where v: "pe_publish env (cl_event c) (ps_world p) = (v, w)" by fastforce
  then have "v = None" using assms(1) unfolding calm_pass_def by (metis fst_conv)
  with v assms show "\<not> ps_aborted (snd (publish_one opts x env c p))"
    and "\<exists>w. ps_delivered (snd (publish_one opts x env c p)) = ps_delivered p @ [(cl_event c, None)]"
    by (simp_all add: publish_one_def exec_update_def calm_pass_def pg_text_opt_ok_def count_metric_def)
qed

lemma calm_publish_all:
  "calm_pass env \<Longrightarrow> \<not> ps_aborted p \<Longrightarrow> \<not> ps_aborted (publish_all opts x env cs p)
    \<and> ps_delivered (publish_all opts x env cs p) = ps_delivered p @ map (\<lambda>c. (cl_event c, None)) cs"
proof (induction cs arbitrary: p)
  case (Cons c cs)
  obtain ok p1 where one: "publish_one opts x env c p = (ok, p1)" by fastforce
  let ?p2 = "if ok then p1\<lparr>ps_published := Suc (ps_published p1)\<rparr> else p1"
  have "\<not> ps_aborted ?p2" "ps_delivered ?p2 = ps_delivered p @ [(cl_event c, None)]"
    using calm_publish_one [OF Cons.prems, of opts x c] one by simp_all
  with Cons.IH [OF Cons.prems(1), of ?p2] show ?case by (simp add: one)
qed simp

lemma calm_run_once:
  assumes "calm_pass env" and "distinct (event_ids rows)"
  shows "\<exists>p. run_once opts x env rows w = (Inr (length (claim_rows opts env rows)),
      map (row_after opts x (pe_now env) (map (\<lambda>r. (cl_event (claimed_of (pe_jsonb env) r), None))
        (claim_rows opts env rows))) rows, p)"
proof -
  let ?cs = "map (claimed_of (pe_jsonb env)) (claim_rows opts env rows)"
  let ?q = "publish_all opts x env ?cs (begin_pass rows w)"
  have q: "\<not> ps_aborted ?q" "ps_delivered ?q = map (\<lambda>c. (cl_event c, None)) ?cs"
    using calm_publish_all [OF assms(1), of "begin_pass rows w" opts x ?cs] by (simp_all add: begin_pass_def)
  note rows_q = pass_rows [OF assms(2) refl q(1)]
  have count: "filter (\<lambda>(e, v). v = None) (map (\<lambda>c. (cl_event c, None)) ?cs) = map (\<lambda>c. (cl_event c, None)) ?cs"
    by (simp add: filter_map comp_def)
  show ?thesis
  proof (cases "claim_rows opts env rows = []")
    case True
    then show ?thesis using assms(1) by (simp add: run_once_def calm_pass_def claim_def begin_pass_def Let_def)
  next
    case False
    then show ?thesis
      using assms(1) q(1) rows_q unfolding q(2) count
      by (simp add: run_once_def calm_pass_def claim_def Let_def comp_def)
  qed
qed

lemma row_after_claim:
  "row_after opts x now (map (\<lambda>r. (cl_event (claimed_of j r), None)) rs) =
    (\<lambda>r. if ob_event_id r \<in> set (map ob_event_id rs) then mark_published now r else r)"
proof -
  have pairs: "map (\<lambda>(e, v). (ev_id e, v)) (map (\<lambda>r. (cl_event (claimed_of j r), None)) rs)
      = map (\<lambda>r. (ob_event_id r, None :: string option)) rs" by (simp add: claimed_of_def)
  have "map_of (map (\<lambda>r. (ob_event_id r, None :: string option)) rs) i
      = (if i \<in> set (map ob_event_id rs) then Some None else None)" for i
    by (induction rs) auto
  then show ?thesis unfolding row_after_def pairs by (simp add: fun_eq_iff)
qed

lemma not_due_published [simp]: "\<not> is_due now (mark_published now' r)"
  by (simp add: is_due_def)

lemma filter_not_taken:
  "distinct (map f (xs @ ys)) \<Longrightarrow> filter (\<lambda>r. f r \<notin> set (map f xs)) (xs @ ys) = ys"
  by (auto simp: filter_empty_conv filter_id_conv)

lemma due_rows_after:
  assumes "distinct (event_ids rows)"
    and "rs = take n (sort_key ob_id (due_rows now rows))"
  shows "length (due_rows now (map (\<lambda>r. if ob_event_id r \<in> set (map ob_event_id rs)
      then mark_published now r else r) rows)) = length (due_rows now rows) - n"
proof -
  let ?P = "\<lambda>r. ob_event_id r \<notin> set (map ob_event_id rs)"
  let ?s = "sort_key ob_id (due_rows now rows)"
  have "due_rows now (map (\<lambda>r. if ob_event_id r \<in> set (map ob_event_id rs)
      then mark_published now r else r) rows) = filter ?P (due_rows now rows)"
    unfolding due_rows_def by (induction rows) auto
  moreover have "mset (filter ?P (due_rows now rows)) = mset (filter ?P ?s)" by (simp add: mset_filter)
  then have "length (filter ?P (due_rows now rows)) = length (filter ?P ?s)" by (metis size_mset)
  moreover have "distinct (map ob_event_id ?s)"
  proof -
    have "distinct rows" "inj_on ob_event_id (set rows)"
      using assms(1) by (simp_all add: event_ids_def distinct_map)
    then have "distinct ?s" "inj_on ob_event_id (set ?s)"
      by (simp_all add: due_rows_def inj_on_def)
    then show ?thesis by (simp add: distinct_map)
  qed
  then have "filter ?P ?s = drop n ?s"
    using filter_not_taken [of ob_event_id "take n ?s" "drop n ?s"] by (simp add: assms(2))
  ultimately show ?thesis by simp
qed

lemma calm_pass_due:
  assumes "calm_pass env" and "pe_now env = now" and "distinct (event_ids rows)"
    and "run_once opts x env rows w = (r, rows', p)"
  shows "length (due_rows now rows') = length (due_rows now rows) - nat (op_batch_size opts)"
proof -
  let ?rs = "claim_rows opts env rows"
  have "?rs = take (nat (op_batch_size opts)) (sort_key ob_id (due_rows now rows))"
    using assms(1,2) by (simp add: claim_rows_def due_rows_def calm_pass_def)
  moreover have "rows' = map (row_after opts x now (map (\<lambda>r. (cl_event (claimed_of (pe_jsonb env) r), None)) ?rs)) rows"
    using calm_run_once [OF assms(1,3), of opts x w] assms(2,4) by auto
  ultimately show ?thesis
    using due_rows_after [OF assms(3), of ?rs] by (simp only: row_after_claim)
qed

lemma calm_run_due:
  "\<forall>env \<in> set envs. calm_pass env \<and> pe_now env = now \<Longrightarrow> distinct (event_ids rows) \<Longrightarrow>
    relay_run opts x envs rows w = (ds, rows', w') \<Longrightarrow>
    length (due_rows now rows') = length (due_rows now rows) - length envs * nat (op_batch_size opts)"
proof (induction envs arbitrary: rows w ds)
  case (Cons env envs)
  obtain r rows1 p where one: "run_once opts x env rows w = (r, rows1, p)" by (metis prod_cases3)
  obtain ds' where rest: "relay_run opts x envs rows1 (ps_world p) = (ds', rows', w')"
    using Cons.prems(3) one by (auto split: prod.splits)
  have ids: "distinct (event_ids rows1)"
    using run_once_event_ids [OF one Cons.prems(2)] Cons.prems(2) by simp
  have "length (due_rows now rows1) = length (due_rows now rows) - nat (op_batch_size opts)"
    using calm_pass_due [OF _ _ Cons.prems(2) one] Cons.prems(1) by simp
  moreover have "length (due_rows now rows') = length (due_rows now rows1) - length envs * nat (op_batch_size opts)"
    using Cons.IH [OF _ ids rest] Cons.prems(1) by simp
  ultimately show ?case by simp
qed simp

section \<open>Properties\<close>

text \<open>
  A concrete queue for the witnesses: two due events, a publisher that accepts, and one that
  refuses the first event with a given text.
\<close>

definition demo_row_1 :: outbox_row where
  "demo_row_1 =
    \<lparr>ob_id = 1, ob_event_id = 11, ob_event_type = event_type_transaction_received,
     ob_aggregate_id = 7, ob_payload = ''{}'', ob_created_at = zero_time, ob_published_at = None,
     ob_attempts = 0, ob_last_error = None, ob_next_attempt_at = zero_time\<rparr>"

definition demo_rows :: "outbox_row list" where
  "demo_rows = [demo_row_1, demo_row_1\<lparr>ob_id := 2, ob_event_id := 12, ob_aggregate_id := 8\<rparr>]"

definition no_lock :: "uuid \<Rightarrow> bool" where
  "no_lock i \<longleftrightarrow> False"

definition no_failure :: "uuid \<Rightarrow> string option" where
  "no_failure i = None"

definition same_text :: "string \<Rightarrow> string" where
  "same_text t = t"

definition accept_event :: "event \<Rightarrow> nat \<Rightarrow> string option \<times> nat" where
  "accept_event e w = (None, Suc w)"

definition refuse_first :: "string \<Rightarrow> event \<Rightarrow> nat \<Rightarrow> string option \<times> nat" where
  "refuse_first cause e w = (if ev_id e = 11 then Some cause else None, Suc w)"

definition demo_pass :: "(event \<Rightarrow> nat \<Rightarrow> string option \<times> nat) \<Rightarrow> nat pass_env" where
  "demo_pass publish =
    \<lparr>pe_begin = None, pe_query = None, pe_now = demo_now, pe_locked = no_lock, pe_jsonb = same_text,
     pe_exec = no_failure, pe_commit = None, pe_lost_ack = False, pe_publish = publish\<rparr>"

lemma demo_rows_distinct: "distinct (event_ids demo_rows)"
  by (simp add: event_ids_def demo_rows_def demo_row_1_def)

lemma demo_pass_calm: "calm_pass (demo_pass accept_event)"
  by (simp add: calm_pass_def demo_pass_def no_lock_def no_failure_def accept_event_def)

text \<open>A pass hands to the publisher exactly the rows it claims, each once: unpublished, due,
  locked by no other relay, in the order of their ids and at most a batch of them; it hands out
  nothing when the claim fails.\<close>

theorem pass_publishes_its_claim:
  assumes "run_once opts x env rows w = (r, rows', p)"
  shows "map (ev_id \<circ> fst) (ps_delivered p) =
      (if pe_begin env = None \<and> pe_query env = None then map ob_event_id (claim_rows opts env rows) else [])
    \<and> sorted (map ob_id (claim_rows opts env rows))
    \<and> length (claim_rows opts env rows) \<le> nat (op_batch_size opts)
    \<and> set (claim_rows opts env rows) \<subseteq> {q \<in> set rows. ob_published_at q = None
        \<and> t_ns (ob_next_attempt_at q) \<le> t_ns (pe_now env) \<and> \<not> pe_locked env (ob_event_id q)}"
proof -
  let ?due = "sort_key ob_id (filter (\<lambda>r. is_due (pe_now env) r \<and> \<not> pe_locked env (ob_event_id r)) rows)"
  have "sorted (map ob_id (claim_rows opts env rows))"
    unfolding claim_rows_def take_map [symmetric] by (rule sorted_wrt_take) simp
  moreover have "set (claim_rows opts env rows) \<subseteq> set ?due" unfolding claim_rows_def by (rule set_take_subset)
  then have "set (claim_rows opts env rows) \<subseteq> {q \<in> set rows. ob_published_at q = None
        \<and> t_ns (ob_next_attempt_at q) \<le> t_ns (pe_now env) \<and> \<not> pe_locked env (ob_event_id q)}"
    by (auto simp: is_due_def)
  moreover have "length (claim_rows opts env rows) \<le> nat (op_batch_size opts)"
    by (simp add: claim_rows_def)
  ultimately show ?thesis using run_once_delivers [OF assms] by simp
qed

theorem pass_publishes_its_claim_witness:
  "\<exists>r rows' p. run_once default_relay_options 0 (demo_pass accept_event) demo_rows 0 = (r, rows', p)
    \<and> map (ev_id \<circ> fst) (ps_delivered p) = [11, 12]"
proof -
  obtain r rows' p where one:
    "run_once default_relay_options 0 (demo_pass accept_event) demo_rows 0 = (r, rows', p)"
    by (metis prod_cases3)
  have "map ob_event_id (claim_rows default_relay_options (demo_pass accept_event) demo_rows) = [11, 12]"
    by code_simp
  with pass_publishes_its_claim [OF one] one show ?thesis by (auto simp: demo_pass_def)
qed

text \<open>C19: What a pass does to the rows: it ends without an error only after updating every row by
  the publisher's verdict on its event (published now, or put off by its retry delay with the
  attempt counted and the error kept, and parked for a day at the last attempt), and its result
  is the number of accepted events; after an error the rows are as before, unless only the
  acknowledgement of the commit was lost, and then they are updated in the same way. A single
  refused event does not stop the rest of the batch.\<close>

theorem pass_updates_rows_by_verdict:
  assumes "run_once opts x env rows w = (r, rows', p)" and "distinct (event_ids rows)"
  shows "(\<exists>e. r = Inl e) \<and> rows' = rows
    \<or> rows' = map (\<lambda>q. case map_of (map (\<lambda>(e, v). (ev_id e, v)) (ps_delivered p)) (ob_event_id q) of
          None \<Rightarrow> q
        | Some None \<Rightarrow> q\<lparr>ob_published_at := Some (pg_time (pe_now env)),
            ob_attempts := ob_attempts q + 1, ob_last_error := None\<rparr>
        | Some (Some cause) \<Rightarrow> mark_failed (pe_now env) cause
            (if op_max_attempts opts \<le> ob_attempts q + 1 then 24 * hour
             else backoff_for opts x (ob_attempts q + 1)) q) rows
      \<and> (r = Inr (length (filter (\<lambda>(e, v). v = None) (ps_delivered p)))
         \<or> (\<exists>m. pe_commit env = Some m \<and> pe_lost_ack env \<and> r = Inl (''commit outbox transaction: '' @ m)))"
  using run_once_cases [OF assms]
  unfolding row_after_def mark_published_def delay_for_def parked_backoff_def .

theorem pass_updates_rows_by_verdict_witness:
  "\<exists>rows' p. run_once default_relay_options 0 (demo_pass (refuse_first ''no'')) demo_rows 0 = (Inr 1, rows', p)
    \<and> map ob_last_error rows' = [Some ''no'', None]
    \<and> map (\<lambda>q. ob_published_at q = None) rows' = [True, False]"
proof -
  let ?env = "demo_pass (refuse_first ''no'')"
  obtain r rows' p where one: "run_once default_relay_options 0 ?env demo_rows 0 = (r, rows', p)"
    by (metis prod_cases3)
  have "map_sum id id (fst (run_once default_relay_options 0 ?env demo_rows 0)) = Inr 1"
    and "map (\<lambda>(e, v). (ev_id e, v)) (ps_delivered (snd (snd (run_once default_relay_options 0 ?env demo_rows 0))))
      = [(11, Some ''no''), (12, None)]" by code_simp+
  then have r: "r = Inr 1" and ds: "map (\<lambda>(e, v). (ev_id e, v)) (ps_delivered p) = [(11, Some ''no''), (12, None)]"
    unfolding one by (simp_all add: sum.map_id0)
  show ?thesis
    using pass_updates_rows_by_verdict [OF one demo_rows_distinct] one unfolding ds r
    by (simp add: demo_rows_def demo_row_1_def mark_failed_def)
qed

text \<open>C12: At least once, and never lost: over any sequence of passes, whatever fails, no event leaves
  the table, no published event becomes unpublished, and an event is marked as published only
  after the publisher accepted it.\<close>

theorem no_event_lost:
  assumes "distinct (event_ids rows)" and "relay_run opts x envs rows w = (ds, rows', w')"
  shows "event_ids rows' = event_ids rows \<and> published_ids rows \<subseteq> published_ids rows'
    \<and> published_ids rows' \<subseteq> published_ids rows \<union> {ev_id e | e. (e, None) \<in> set ds}"
  using relay_run_ids [OF assms] relay_run_published [OF assms] by blast

theorem no_event_lost_witness:
  "\<exists>ds rows' w'. relay_run default_relay_options 0 [demo_pass (refuse_first ''no''), demo_pass accept_event]
      demo_rows 0 = (ds, rows', w')
    \<and> event_ids rows' = [11, 12]"
proof -
  obtain ds rows' w' where run: "relay_run default_relay_options 0
      [demo_pass (refuse_first ''no''), demo_pass accept_event] demo_rows 0 = (ds, rows', w')"
    by (metis prod_cases3)
  have "event_ids demo_rows = [11, 12]" by (simp add: event_ids_def demo_rows_def demo_row_1_def)
  with no_event_lost [OF demo_rows_distinct run] run show ?thesis by auto
qed

text \<open>C20: A relay whose passes go well drains the outbox: with \<open>n\<close> events due, as many passes as it
  takes batches to hold \<open>n\<close> leave no event that is due.\<close>

theorem relay_drains:
  assumes "\<forall>env \<in> set envs. calm_pass env \<and> pe_now env = now" and "distinct (event_ids rows)"
    and "relay_run opts x envs rows w = (ds, rows', w')"
    and "length (filter (is_due now) rows) \<le> length envs * nat (op_batch_size opts)"
  shows "\<forall>q \<in> set rows'. \<not> is_due now q"
proof -
  have "length (filter (is_due now) rows') = 0"
    using calm_run_due [OF assms(1-3)] assms(4) by (simp add: due_rows_def)
  then show ?thesis by (simp add: filter_empty_conv)
qed

theorem relay_drains_witness:
  "\<exists>ds rows' w'. relay_run default_relay_options 0 [demo_pass accept_event] demo_rows 0 = (ds, rows', w')
    \<and> (\<forall>q \<in> set rows'. \<not> is_due demo_now q)"
proof -
  obtain ds rows' w' where run:
    "relay_run default_relay_options 0 [demo_pass accept_event] demo_rows 0 = (ds, rows', w')"
    by (metis prod_cases3)
  have "length (filter (is_due demo_now) demo_rows)
      \<le> length [demo_pass accept_event] * nat (op_batch_size default_relay_options)" by code_simp
  moreover have "\<forall>env \<in> set [demo_pass accept_event]. calm_pass env \<and> pe_now env = demo_now"
    using demo_pass_calm by (simp add: demo_pass_def)
  ultimately have "\<forall>q \<in> set rows'. \<not> is_due demo_now q"
    using relay_drains [OF _ demo_rows_distinct run] by blast
  with run show ?thesis by blast
qed

text \<open>C40: One event can stop its whole batch: when the publisher refuses an event with an error text
  that the database cannot store, the transaction is aborted, the pass ends in an error and
  nothing is recorded, neither the failure with its retry delay nor the events of the batch that
  were published.\<close>

theorem unstorable_error_text_aborts_pass:
  assumes "run_once opts x env rows w = (r, rows', p)" and "(e, Some cause) \<in> set (ps_delivered p)"
    and "\<not> pg_text_ok cause"
  shows "r = Inl (''commit outbox transaction: '' @ err_commit_rollback) \<and> rows' = rows"
  by (rule run_once_poison [OF assms])

theorem unstorable_error_text_aborts_pass_witness:
  "\<exists>rows' p. run_once default_relay_options 0 (demo_pass (refuse_first [CHR 0x00])) demo_rows 0
      = (Inl (''commit outbox transaction: '' @ err_commit_rollback), rows', p)
    \<and> rows' = demo_rows \<and> map snd (ps_delivered p) = [Some [CHR 0x00], None]"
proof -
  let ?env = "demo_pass (refuse_first [CHR 0x00])"
  obtain r rows' p where one: "run_once default_relay_options 0 ?env demo_rows 0 = (r, rows', p)"
    by (metis prod_cases3)
  have "map snd (ps_delivered (snd (snd (run_once default_relay_options 0 ?env demo_rows 0))))
      = [Some [CHR 0x00], None]" by code_simp
  then have ds: "map snd (ps_delivered p) = [Some [CHR 0x00], None]" unfolding one by simp
  then obtain e where "(e, Some [CHR 0x00]) \<in> set (ps_delivered p)"
    by (cases "ps_delivered p") auto
  moreover have "\<not> pg_text_ok [CHR 0x00]" by (simp add: pg_text_ok_def)
  ultimately show ?thesis using unstorable_error_text_aborts_pass [OF one] one ds by simp
qed

end
