(* ===== verification/Relay_Loop.thy ===== *)
theory Relay_Loop
  imports Relay_Props Metrics
begin

text \<open>
  The endless loop of \<open>Relay.Run\<close> in \<open>internal/outbox/relay.go\<close>: pass after pass until the context
  is cancelled. A turn is what happens around one pass: how other processes changed the rows
  before it, the server and publisher during it, whether its error is the cancellation, and
  whether the context ends while the relay waits after it. The loop is given fuel, one unit a
  pass, and answers \<open>None\<close> when it is still running.
\<close>

record 'w turn =
  tu_others :: "outbox_row list \<Rightarrow> outbox_row list"
  tu_env :: "'w pass_env"
  tu_cancelled :: bool
  tu_done :: bool

text \<open>The rows, the world and the number of passes when \<open>Run\<close> returns.\<close>

fun run_loop ::
  "relay_options \<Rightarrow> int \<Rightarrow> (nat \<Rightarrow> 'w turn) \<Rightarrow> nat \<Rightarrow> nat \<Rightarrow> outbox_row list \<Rightarrow> 'w
    \<Rightarrow> (outbox_row list \<times> 'w \<times> nat) option" where
  "run_loop opts x turns 0 i rows w = None"
| "run_loop opts x turns (Suc fuel) i rows w =
    (let (r, rows1, p) = run_once opts x (tu_env (turns i)) (tu_others (turns i) rows) w in
     case after_pass_of r (tu_cancelled (turns i)) (tu_done (turns i)) of
       Stop \<Rightarrow> Some (rows1, ps_world p, Suc i)
     | Again_At_Once \<Rightarrow> run_loop opts x turns fuel (Suc i) rows1 (ps_world p)
     | Again_After_Poll \<Rightarrow> run_loop opts x turns fuel (Suc i) rows1 (ps_world p))"

text \<open>
  \<open>reportBacklog\<close> before each pass: the gauges are set from two queries, and stay as they are
  when one of them fails.
\<close>

definition report_backlog ::
  "gotime \<Rightarrow> string option \<Rightarrow> string option \<Rightarrow> outbox_row list \<Rightarrow> metrics \<Rightarrow> metrics" where
  "report_backlog now count_error oldest_error rows m =
    (if count_error \<noteq> None \<or> oldest_error \<noteq> None then m
     else outbox_backlog (int (pending_count rows)) (fst (oldest_pending now rows)) m)"

lemma run_loop_Suc:
  assumes "run_once opts x (tu_env (turns i)) (tu_others (turns i) rows) w = (r, rows1, p)"
  shows "run_loop opts x turns (Suc fuel) i rows w =
    (if after_pass_of r (tu_cancelled (turns i)) (tu_done (turns i)) = Stop
     then Some (rows1, ps_world p, Suc i)
     else run_loop opts x turns fuel (Suc i) rows1 (ps_world p))"
  using assms by (simp split: after_pass.splits)

lemma run_loop_more_fuel:
  "run_loop opts x turns fuel i rows w = Some res \<Longrightarrow> fuel \<le> fuel' \<Longrightarrow>
    run_loop opts x turns fuel' i rows w = Some res"
proof (induction fuel arbitrary: fuel' i rows w)
  case (Suc fuel)
  obtain g where g: "fuel' = Suc g" "fuel \<le> g" using Suc.prems(2) by (cases fuel') auto
  obtain r rows1 p where one: "run_once opts x (tu_env (turns i)) (tu_others (turns i) rows) w = (r, rows1, p)"
    by (metis prod_cases3)
  show ?case
    using Suc.prems(1) Suc.IH [OF _ g(2)] unfolding g(1) run_loop_Suc [where turns = turns, OF one]
    by (simp split: if_splits)
qed simp

lemma run_loop_stopped:
  "run_loop opts x turns fuel i rows w = Some (rows', w', k) \<Longrightarrow>
    i < k \<and> (tu_cancelled (turns (k - 1)) \<or> tu_done (turns (k - 1)))"
proof (induction fuel arbitrary: i rows w)
  case (Suc fuel)
  obtain r rows1 p where one: "run_once opts x (tu_env (turns i)) (tu_others (turns i) rows) w = (r, rows1, p)"
    by (metis prod_cases3)
  show ?case
  proof (cases "after_pass_of r (tu_cancelled (turns i)) (tu_done (turns i)) = Stop")
    case True
    then have "k = Suc i" using Suc.prems unfolding run_loop_Suc [where turns = turns, OF one] by simp
    then show ?thesis using True by (auto simp: after_pass_of_def split: sum.splits if_splits)
  next
    case False
    then have "run_loop opts x turns fuel (Suc i) rows1 (ps_world p) = Some (rows', w', k)"
      using Suc.prems unfolding run_loop_Suc [where turns = turns, OF one] by simp
    from Suc.IH [OF this] show ?thesis by simp
  qed
qed simp

lemma run_loop_ends:
  assumes "pe_begin (tu_env (turns n)) = Some e" and "tu_cancelled (turns n)" and "i \<le> n"
  shows "\<exists>rows' w' k. run_loop opts x turns (Suc (n - i)) i rows w = Some (rows', w', k) \<and> k \<le> Suc n"
  using assms(3)
proof (induction "n - i" arbitrary: i rows w)
  case 0
  then have "i = n" by simp
  then show ?case using assms by (simp add: run_once_def begin_pass_def after_pass_of_def)
next
  case (Suc m)
  then have less: "m = n - Suc i" "Suc i \<le> n" "n - i = Suc (n - Suc i)" by simp_all
  obtain r rows1 p where one: "run_once opts x (tu_env (turns i)) (tu_others (turns i) rows) w = (r, rows1, p)"
    by (metis prod_cases3)
  show ?case
    using Suc.hyps(1) [OF less(1,2), of rows1 "ps_world p"] less(2)
    unfolding less(3) run_loop_Suc [where turns = turns, OF one] by auto
qed

text \<open>C21: \<open>Run\<close> ends when, and only when, its context is cancelled. A pass that is refused because
  the context is cancelled, as every call on a cancelled context is, is the last one at the
  latest, whatever happened before; and no number of failing passes, rejected events or changes
  of the rows by others makes it return otherwise.\<close>

theorem relay_runs_until_cancelled:
  assumes "pe_begin (tu_env (turns n)) = Some e" and "tu_cancelled (turns n)"
  shows "\<exists>rows' w' k. run_loop opts x turns (Suc n) 0 rows w = Some (rows', w', k) \<and> 0 < k \<and> k \<le> Suc n
    \<and> (tu_cancelled (turns (k - 1)) \<or> tu_done (turns (k - 1)))
    \<and> (\<forall>fuel res. run_loop opts x turns fuel 0 rows w = Some res \<longrightarrow> res = (rows', w', k))"
proof -
  obtain rows' w' k where run: "run_loop opts x turns (Suc n) 0 rows w = Some (rows', w', k)" "k \<le> Suc n"
    using run_loop_ends [of turns n e 0, OF assms le0, of opts x rows w] unfolding minus_nat.diff_0
    by blast
  have "res = (rows', w', k)" if "run_loop opts x turns fuel 0 rows w = Some res" for fuel res
    using run_loop_more_fuel [OF that, of "max fuel (Suc n)"]
      run_loop_more_fuel [OF run(1), of "max fuel (Suc n)"] by simp
  with run run_loop_stopped [OF run(1)] show ?thesis by blast
qed

definition cancelled_turn :: "nat turn" where
  "cancelled_turn =
    \<lparr>tu_others = (\<lambda>rows. rows), tu_env = (demo_pass accept_event)\<lparr>pe_begin := Some ''context canceled''\<rparr>,
     tu_cancelled = True, tu_done = True\<rparr>"

definition demo_turns :: "nat \<Rightarrow> nat turn" where
  "demo_turns i =
    (if i < 3
     then cancelled_turn\<lparr>tu_env := demo_pass accept_event, tu_cancelled := False, tu_done := False\<rparr>
     else cancelled_turn)"

theorem relay_runs_until_cancelled_witness:
  "\<exists>rows' w' k. run_loop default_relay_options int64_min demo_turns 4 0 demo_rows 0 = Some (rows', w', k)
    \<and> k \<le> 4"
proof -
  have "pe_begin (tu_env (demo_turns 3)) = Some ''context canceled''" "tu_cancelled (demo_turns 3)"
    by (simp_all add: demo_turns_def cancelled_turn_def)
  from relay_runs_until_cancelled [of demo_turns 3, OF this, of default_relay_options int64_min demo_rows 0]
  show ?thesis by (auto simp: eval_nat_numeral simp del: run_loop.simps)
qed

end
