(* ===== verification/Relay_Replicas.thy ===== *)
theory Relay_Replicas
  imports Relay_Props
begin

text \<open>
  Several relays over one outbox (\<open>internal/outbox/relay.go\<close>), as a step relation: a relay claims
  rows that no other has locked (\<open>FOR UPDATE SKIP LOCKED\<close>), hands its events to the publisher one
  at a time, and commits, which writes the rows it claimed and no others; it may fail at any
  time, which undoes its updates and releases its locks. Other processes add events meanwhile.
\<close>

section \<open>The steps\<close>

text \<open>A pass that is under way: its claim, what of it is left, and the pass so far.\<close>

record 'w running =
  rn_env :: "'w pass_env"
  rn_claim :: "claimed list"
  rn_todo :: "claimed list"
  rn_pass :: "'w pass"

record 'w cluster =
  cs_rows :: "outbox_row list"
  cs_running :: "nat \<Rightarrow> 'w running option"
  cs_log :: "(event \<times> string option) list"
  cs_failed :: nat

definition claim_ids :: "claimed list \<Rightarrow> uuid list" where
  "claim_ids cs = map (ev_id \<circ> cl_event) cs"

definition locked_ids :: "'w cluster \<Rightarrow> uuid set" where
  "locked_ids s = {e. \<exists>i r. cs_running s i = Some r \<and> e \<in> set (claim_ids (rn_claim r))}"

text \<open>The rows a transaction has locked, in its version, over the others as they are.\<close>

definition merge_rows :: "uuid list \<Rightarrow> outbox_row list \<Rightarrow> outbox_row list \<Rightarrow> outbox_row list" where
  "merge_rows es new rows =
    map (\<lambda>r. if ob_event_id r \<in> set es
             then (case find (\<lambda>q. ob_event_id q = ob_event_id r) new of Some q \<Rightarrow> q | None \<Rightarrow> r)
             else r) rows"

inductive cluster_step :: "relay_options \<Rightarrow> int \<Rightarrow> 'w cluster \<Rightarrow> 'w cluster \<Rightarrow> bool"
  for opts :: relay_options and x :: int where
  claim_step: "cs_running s i = None \<Longrightarrow> pe_locked env = (\<lambda>e. e \<in> locked_ids s) \<Longrightarrow>
    claim opts env (cs_rows s) = Inr cs \<Longrightarrow>
    cluster_step opts x s
      (s\<lparr>cs_running := (cs_running s)(i \<mapsto>
        \<lparr>rn_env = env, rn_claim = cs, rn_todo = cs, rn_pass = begin_pass (cs_rows s) w\<rparr>)\<rparr>)"
| publish_step: "cs_running s i = Some r \<Longrightarrow> rn_todo r = c # cs \<Longrightarrow>
    publish_one opts x (rn_env r) c (rn_pass r) = (ok, p) \<Longrightarrow>
    cluster_step opts x s
      (s\<lparr>cs_running := (cs_running s)(i \<mapsto> r\<lparr>rn_todo := cs, rn_pass := p\<rparr>),
         cs_log := cs_log s @ [last (ps_delivered p)]\<rparr>)"
| commit_step: "cs_running s i = Some r \<Longrightarrow> rn_todo r = [] \<Longrightarrow> \<not> ps_aborted (rn_pass r) \<Longrightarrow>
    cluster_step opts x s
      (s\<lparr>cs_running := (cs_running s)(i := None),
         cs_rows := merge_rows (claim_ids (rn_claim r)) (ps_rows (rn_pass r)) (cs_rows s)\<rparr>)"
| fail_step: "cs_running s i = Some r \<Longrightarrow>
    cluster_step opts x s (s\<lparr>cs_running := (cs_running s)(i := None), cs_failed := Suc (cs_failed s)\<rparr>)"
| arrive_step: "ob_event_id n \<notin> set (event_ids (cs_rows s)) \<Longrightarrow> ob_published_at n = None \<Longrightarrow>
    cluster_step opts x s (s\<lparr>cs_rows := cs_rows s @ [n]\<rparr>)"

definition start_cluster :: "outbox_row list \<Rightarrow> 'w cluster" where
  "start_cluster rows = \<lparr>cs_rows = rows, cs_running = (\<lambda>i. None), cs_log = [], cs_failed = 0\<rparr>"

inductive cluster_reach :: "relay_options \<Rightarrow> int \<Rightarrow> 'w cluster \<Rightarrow> 'w cluster \<Rightarrow> bool"
  for opts :: relay_options and x :: int and s0 :: "'w cluster" where
  reach_start: "cluster_reach opts x s0 s0"
| reach_step: "cluster_reach opts x s0 s \<Longrightarrow> cluster_step opts x s s' \<Longrightarrow> cluster_reach opts x s0 s'"

text \<open>The events the publisher accepted, in a list of deliveries.\<close>

definition accepted_ids :: "(event \<times> string option) list \<Rightarrow> uuid list" where
  "accepted_ids ds = map (ev_id \<circ> fst) (filter (\<lambda>d. snd d = None) ds)"

lemma accepted_ids_simps [simp]:
  "accepted_ids [] = []" "accepted_ids (a @ b) = accepted_ids a @ accepted_ids b"
  "accepted_ids [(e, None)] = [ev_id e]" "accepted_ids [(e, Some c)] = []"
  by (simp_all add: accepted_ids_def)

lemma accepted_ids_subset: "set (accepted_ids ds) \<subseteq> set (map (ev_id \<circ> fst) ds)"
  by (auto simp: accepted_ids_def)

section \<open>Merging\<close>

lemma event_ids_merge [simp]: "event_ids (merge_rows es new rows) = event_ids rows"
proof -
  have "ob_event_id (case find (\<lambda>q. ob_event_id q = e) new of Some q \<Rightarrow> q | None \<Rightarrow> r) = e"
    if "ob_event_id r = e" for e r
    using that by (auto simp: find_Some_iff split: option.splits)
  then show ?thesis by (simp add: event_ids_def merge_rows_def)
qed

lemma published_find:
  assumes "distinct (event_ids new)" and "e \<in> set (event_ids new)"
  shows "\<exists>q. find (\<lambda>q. ob_event_id q = e) new = Some q
    \<and> (ob_published_at q \<noteq> None \<longleftrightarrow> e \<in> published_ids new)"
proof -
  obtain q where q: "q \<in> set new" "ob_event_id q = e" using assms(2) by (auto simp: event_ids_def)
  have uniq: "\<And>q'. q' \<in> set new \<Longrightarrow> ob_event_id q' = e \<Longrightarrow> q' = q"
    using assms(1) q by (auto simp: event_ids_def distinct_map inj_on_def)
  obtain q' where f: "find (\<lambda>q. ob_event_id q = e) new = Some q'"
    using q by (cases "find (\<lambda>q. ob_event_id q = e) new") (auto simp: find_None_iff)
  then have "q' \<in> set new" "ob_event_id q' = e" by (auto simp: find_Some_iff)
  then have "q' = q" by (rule uniq)
  moreover have "ob_published_at q \<noteq> None \<longleftrightarrow> e \<in> published_ids new"
    unfolding published_ids_iff using q uniq by blast
  ultimately show ?thesis using f by blast
qed

lemma published_merge:
  assumes "distinct (event_ids new)" and "set es \<subseteq> set (event_ids new)"
    and "set es \<subseteq> set (event_ids rows)"
  shows "published_ids (merge_rows es new rows)
    = (published_ids rows - set es) \<union> (published_ids new \<inter> set es)"
proof (rule set_eqI)
  fix e
  let ?f = "\<lambda>r. if ob_event_id r \<in> set es
    then (case find (\<lambda>q. ob_event_id q = ob_event_id r) new of Some q \<Rightarrow> q | None \<Rightarrow> r) else r"
  have ids: "ob_event_id (?f r) = ob_event_id r" for r
    by (auto simp: find_Some_iff split: option.splits)
  have "e \<in> published_ids (merge_rows es new rows)
      \<longleftrightarrow> (\<exists>r \<in> set rows. ob_event_id r = e \<and> ob_published_at (?f r) \<noteq> None)"
    unfolding published_ids_iff merge_rows_def using ids by (metis (no_types, lifting) imageE imageI list.set_map)
  also have "\<dots> \<longleftrightarrow> (if e \<in> set es then e \<in> published_ids new else e \<in> published_ids rows)"
  proof (cases "e \<in> set es")
    case True
    then have e: "e \<in> set (event_ids new)" "e \<in> set (event_ids rows)" using assms(2,3) by auto
    obtain q where "find (\<lambda>q. ob_event_id q = e) new = Some q"
      "ob_published_at q \<noteq> None \<longleftrightarrow> e \<in> published_ids new"
      using published_find [OF assms(1) e(1)] by blast
    then show ?thesis using True e(2) by (auto simp: event_ids_def)
  next
    case False
    then show ?thesis by (auto simp: published_ids_iff)
  qed
  finally show "e \<in> published_ids (merge_rows es new rows)
      \<longleftrightarrow> e \<in> (published_ids rows - set es) \<union> (published_ids new \<inter> set es)" by auto
qed

section \<open>The invariant\<close>

text \<open>
  A running pass: its deliveries and what is left make up its claim, no claimed event is
  published in the table, and in its own version of the rows exactly the accepted ones are.
\<close>

definition running_ok :: "outbox_row list \<Rightarrow> 'w running \<Rightarrow> bool" where
  "running_ok rows r \<longleftrightarrow>
    distinct (claim_ids (rn_claim r))
    \<and> claim_ids (rn_claim r)
      = map (ev_id \<circ> fst) (ps_delivered (rn_pass r)) @ claim_ids (rn_todo r)
    \<and> set (claim_ids (rn_claim r)) \<subseteq> set (event_ids rows) - published_ids rows
    \<and> distinct (event_ids (ps_rows (rn_pass r)))
    \<and> set (claim_ids (rn_claim r)) \<subseteq> set (event_ids (ps_rows (rn_pass r)))
    \<and> (\<not> ps_aborted (rn_pass r) \<longrightarrow>
        published_ids (ps_rows (rn_pass r)) \<inter> set (claim_ids (rn_claim r))
          = set (accepted_ids (ps_delivered (rn_pass r))))"

lemma running_ok_claim:
  assumes "distinct (event_ids rows)" and "claim opts env rows = Inr cs"
  shows "running_ok rows \<lparr>rn_env = env, rn_claim = cs, rn_todo = cs, rn_pass = begin_pass rows w\<rparr>"
    and "\<And>e. e \<in> set (claim_ids cs) \<Longrightarrow> \<not> pe_locked env e"
proof -
  have cs: "cs = map (claimed_of (pe_jsonb env)) (claim_rows opts env rows)"
    using assms(2) by (auto simp: claim_def split: option.splits)
  then have ids: "claim_ids cs = map ob_event_id (claim_rows opts env rows)"
    by (simp add: claim_ids_def comp_def claimed_of_def)
  have due: "ob_published_at r = None \<and> r \<in> set rows" if "r \<in> set (claim_rows opts env rows)" for r
    using that claim_rows_subset [of opts env rows] by (auto simp: is_due_def)
  have "\<forall>r \<in> set rows. \<forall>q \<in> set rows. ob_event_id r = ob_event_id q \<longrightarrow> r = q"
    using assms(1) by (auto simp: event_ids_def distinct_map inj_on_def)
  then have "\<forall>r \<in> set (claim_rows opts env rows). ob_event_id r \<notin> published_ids rows"
    using due unfolding published_ids_iff by metis
  moreover have "set (map ob_event_id (claim_rows opts env rows)) \<subseteq> set (event_ids rows)"
    using due by (auto simp: event_ids_def)
  ultimately have "set (claim_ids cs) \<subseteq> set (event_ids rows) - published_ids rows"
    unfolding ids by auto
  then show "running_ok rows \<lparr>rn_env = env, rn_claim = cs, rn_todo = cs, rn_pass = begin_pass rows w\<rparr>"
    using distinct_claim_rows [OF assms(1), of opts env] assms(1)
    by (simp add: running_ok_def begin_pass_def ids) blast
  show "\<not> pe_locked env e" if "e \<in> set (claim_ids cs)" for e
  proof -
    have "set (claim_rows opts env rows) \<subseteq> {r. \<not> pe_locked env (ob_event_id r)}"
      unfolding claim_rows_def using set_take_subset by fastforce
    then show ?thesis using that unfolding ids by auto
  qed
qed

lemma running_okD:
  assumes "running_ok rows r"
  shows "distinct (claim_ids (rn_claim r))"
    and "claim_ids (rn_claim r) = map (ev_id \<circ> fst) (ps_delivered (rn_pass r)) @ claim_ids (rn_todo r)"
    and "set (claim_ids (rn_claim r)) \<subseteq> set (event_ids rows)"
    and "set (claim_ids (rn_claim r)) \<inter> published_ids rows = {}"
    and "distinct (event_ids (ps_rows (rn_pass r)))"
    and "set (claim_ids (rn_claim r)) \<subseteq> set (event_ids (ps_rows (rn_pass r)))"
    and "\<not> ps_aborted (rn_pass r) \<Longrightarrow>
      published_ids (ps_rows (rn_pass r)) \<inter> set (claim_ids (rn_claim r))
        = set (accepted_ids (ps_delivered (rn_pass r)))"
  using assms unfolding running_ok_def by blast+

lemma running_ok_publish:
  assumes "running_ok rows r" and "rn_todo r = c # cs"
    and "publish_one opts x (rn_env r) c (rn_pass r) = (ok, p)"
  shows "running_ok rows (r\<lparr>rn_todo := cs, rn_pass := p\<rparr>)
    \<and> (\<exists>v. ps_delivered p = ps_delivered (rn_pass r) @ [(cl_event c, v)])
    \<and> ev_id (cl_event c) \<in> set (claim_ids (rn_claim r))
    \<and> ev_id (cl_event c) \<notin> set (map (ev_id \<circ> fst) (ps_delivered (rn_pass r)))"
proof -
  let ?q = "ps_rows (rn_pass r)" and ?now = "pe_now (rn_env r)"
  obtain v where v: "ps_delivered p = ps_delivered (rn_pass r) @ [(cl_event c, v)]"
    and abort: "ps_aborted (rn_pass r) \<Longrightarrow> ps_aborted p"
    and rows: "\<not> ps_aborted p \<Longrightarrow> ps_rows p = outbox.process ?now [verdict_entry opts x (c, v)] ?q"
    and same: "ps_aborted p \<Longrightarrow> ps_rows p = ?q"
    using publish_one_delivers [OF assms(3)] by blast
  note ok = running_okD [OF assms(1)]
  have claim: "claim_ids (rn_claim r)
      = map (ev_id \<circ> fst) (ps_delivered (rn_pass r)) @ ev_id (cl_event c) # claim_ids cs"
    using ok(2) assms(2) by (simp add: claim_ids_def)
  have mem: "ev_id (cl_event c) \<in> set (claim_ids (rn_claim r))" by (simp add: claim)
  have new: "ev_id (cl_event c) \<notin> set (map (ev_id \<circ> fst) (ps_delivered (rn_pass r)))"
    using ok(1) unfolding claim by auto
  have ids: "event_ids (ps_rows p) = event_ids ?q"
    using rows same by (cases "ps_aborted p") (simp_all add: outbox.process_items)
  have "ev_id (cl_event c) \<in> set (event_ids ?q)" using ok(6) mem by blast
  then have "published_ids (ps_rows p) = published_ids ?q \<union> set (accepted_ids [(cl_event c, v)])"
    if "\<not> ps_aborted p"
    using rows [OF that] by (cases v) (simp_all add: verdict_entry_def published_ids_settle published_ids_put_off)
  moreover have "set (accepted_ids [(cl_event c, v)]) \<subseteq> set (claim_ids (rn_claim r))"
    using mem by (cases v) simp_all
  ultimately have "published_ids (ps_rows p) \<inter> set (claim_ids (rn_claim r)) = set (accepted_ids (ps_delivered p))"
    if "\<not> ps_aborted p"
    using that abort ok(7) unfolding v accepted_ids_simps(2) set_append by blast
  moreover have "claim_ids (rn_claim r) = map (ev_id \<circ> fst) (ps_delivered p) @ claim_ids cs"
    by (simp add: claim v)
  moreover have sel: "rn_claim (r\<lparr>rn_todo := cs, rn_pass := p\<rparr>) = rn_claim r"
    "rn_todo (r\<lparr>rn_todo := cs, rn_pass := p\<rparr>) = cs" "rn_pass (r\<lparr>rn_todo := cs, rn_pass := p\<rparr>) = p"
    by simp_all
  ultimately have "running_ok rows (r\<lparr>rn_todo := cs, rn_pass := p\<rparr>)"
    unfolding running_ok_def sel ids using ok(1,3-6) by blast
  then show ?thesis using v mem new by blast
qed

lemma running_ok_rows:
  assumes "running_ok rows r" and "set (event_ids rows) \<subseteq> set (event_ids rows')"
    and "set (claim_ids (rn_claim r)) \<inter> published_ids rows' = {}"
  shows "running_ok rows' r"
  using assms unfolding running_ok_def by blast

lemma accepted_claimed:
  "running_ok rows r \<Longrightarrow> set (accepted_ids (ps_delivered (rn_pass r))) \<subseteq> set (claim_ids (rn_claim r))"
  using running_okD(2) [of rows r] accepted_ids_subset by auto

text \<open>An event that is published, or accepted in a pass that has not ended.\<close>

definition busy :: "'w cluster \<Rightarrow> uuid \<Rightarrow> bool" where
  "busy s e \<longleftrightarrow> e \<in> published_ids (cs_rows s)
    \<or> (\<exists>i r. cs_running s i = Some r \<and> e \<in> set (accepted_ids (ps_delivered (rn_pass r))))"

definition passes_ok :: "'w cluster \<Rightarrow> bool" where
  "passes_ok s \<longleftrightarrow> distinct (event_ids (cs_rows s))
    \<and> (\<forall>i r. cs_running s i = Some r \<longrightarrow> running_ok (cs_rows s) r)
    \<and> (\<forall>i j r q. cs_running s i = Some r \<longrightarrow> cs_running s j = Some q \<longrightarrow> i \<noteq> j \<longrightarrow>
        set (claim_ids (rn_claim r)) \<inter> set (claim_ids (rn_claim q)) = {})"

definition log_ok :: "uuid set \<Rightarrow> 'w cluster \<Rightarrow> bool" where
  "log_ok old s \<longleftrightarrow>
    (\<forall>e. count_list (accepted_ids (cs_log s)) e \<le> cs_failed s + (if busy s e then 1 else 0))
    \<and> published_ids (cs_rows s) \<subseteq> old \<union> set (accepted_ids (cs_log s))
    \<and> (\<forall>i r. cs_running s i = Some r \<longrightarrow>
        set (accepted_ids (ps_delivered (rn_pass r))) \<subseteq> set (accepted_ids (cs_log s)))"

lemma passes_okD:
  assumes "passes_ok s"
  shows "distinct (event_ids (cs_rows s))"
    and "\<And>i r. cs_running s i = Some r \<Longrightarrow> running_ok (cs_rows s) r"
    and "\<And>i j r q. cs_running s i = Some r \<Longrightarrow> cs_running s j = Some q \<Longrightarrow> i \<noteq> j \<Longrightarrow>
      set (claim_ids (rn_claim r)) \<inter> set (claim_ids (rn_claim q)) = {}"
  using assms unfolding passes_ok_def by blast+

text \<open>What a commit publishes: the accepted events of its pass.\<close>

lemma committed_published:
  assumes "running_ok rows r" and "\<not> ps_aborted (rn_pass r)"
  shows "published_ids (merge_rows (claim_ids (rn_claim r)) (ps_rows (rn_pass r)) rows)
    = published_ids rows \<union> set (accepted_ids (ps_delivered (rn_pass r)))"
proof -
  note ok = running_okD [OF assms(1)]
  show ?thesis
    unfolding published_merge [OF ok(5,6,3)] ok(7) [OF assms(2)] using ok(4) by blast
qed

lemma passes_ok_step:
  assumes "cluster_step opts x s s'" and "passes_ok s"
  shows "passes_ok s'"
  using assms(1)
proof cases
  case (claim_step i env cs w)
  note ok = passes_okD [OF assms(2)]
  note new = running_ok_claim [OF ok(1) claim_step(4)]
  have "set (claim_ids cs) \<inter> set (claim_ids (rn_claim q)) = {}" if "cs_running s j = Some q" for j q
    using new(2) that unfolding claim_step(3) locked_ids_def by blast
  then show ?thesis
    using ok new(1) [of w] unfolding claim_step(1) passes_ok_def by (auto split: if_splits)
next
  case (publish_step i r c cs ok p)
  note inv = passes_okD [OF assms(2)]
  have "running_ok (cs_rows s) (r\<lparr>rn_todo := cs, rn_pass := p\<rparr>)"
    using running_ok_publish [OF inv(2) [OF publish_step(2)] publish_step(3,4)] by blast
  then show ?thesis
    using inv publish_step(2) unfolding publish_step(1) passes_ok_def by (auto split: if_splits)
next
  case (commit_step i r)
  note inv = passes_okD [OF assms(2)]
  let ?rows = "merge_rows (claim_ids (rn_claim r)) (ps_rows (rn_pass r)) (cs_rows s)"
  have "running_ok ?rows q" if q: "cs_running s j = Some q" "j \<noteq> i" for j q
  proof (rule running_ok_rows [OF inv(2) [OF q(1)]])
    have "set (claim_ids (rn_claim q)) \<inter> set (accepted_ids (ps_delivered (rn_pass r))) = {}"
      using inv(3) [OF q(1) commit_step(2) q(2)] accepted_claimed [OF inv(2) [OF commit_step(2)]] by blast
    then show "set (claim_ids (rn_claim q)) \<inter> published_ids ?rows = {}"
      using running_okD(4) [OF inv(2) [OF q(1)]]
      unfolding committed_published [OF inv(2) [OF commit_step(2)] commit_step(4)] by blast
  qed simp
  then show ?thesis
    using inv(1,3) unfolding commit_step(1) passes_ok_def by (auto split: if_splits)
next
  case (fail_step i r)
  then show ?thesis using passes_okD [OF assms(2)] unfolding fail_step(1) passes_ok_def by (auto split: if_splits)
next
  case (arrive_step n)
  note inv = passes_okD [OF assms(2)]
  have pub: "published_ids (cs_rows s @ [n]) = published_ids (cs_rows s)"
    using arrive_step(3) by (auto simp: published_ids_def)
  have "running_ok (cs_rows s @ [n]) q" if q: "cs_running s j = Some q" for j q
    by (rule running_ok_rows [OF inv(2) [OF q]])
       (use running_okD(4) [OF inv(2) [OF q]] in \<open>auto simp: pub event_ids_def\<close>)
  then show ?thesis
    using inv(1,3) arrive_step(2) unfolding arrive_step(1) passes_ok_def by (auto simp: event_ids_def)
qed

lemma log_ok_step:
  assumes "cluster_step opts x s s'" and "passes_ok s" and "log_ok old s"
  shows "log_ok old s'"
  using assms(1)
proof cases
  case (claim_step i env cs w)
  have "busy s' = busy s"
    unfolding claim_step(1) busy_def [abs_def] using claim_step(2)
    by (auto simp: fun_eq_iff begin_pass_def) (metis option.distinct(1))
  then show ?thesis using assms(3) unfolding claim_step(1) log_ok_def by (auto simp: begin_pass_def)
next
  case (publish_step i r c cs ok p)
  note inv = passes_okD [OF assms(2)]
  obtain v where v: "ps_delivered p = ps_delivered (rn_pass r) @ [(cl_event c, v)]"
    and mem: "ev_id (cl_event c) \<in> set (claim_ids (rn_claim r))"
    and new: "ev_id (cl_event c) \<notin> set (map (ev_id \<circ> fst) (ps_delivered (rn_pass r)))"
    using running_ok_publish [OF inv(2) [OF publish_step(2)] publish_step(3,4)] by blast
  let ?e = "ev_id (cl_event c)"
  have free: "\<not> busy s ?e"
  proof
    assume "busy s ?e"
    moreover have "?e \<notin> published_ids (cs_rows s)"
      using mem running_okD(4) [OF inv(2) [OF publish_step(2)]] by blast
    ultimately obtain j q where q: "cs_running s j = Some q" "?e \<in> set (accepted_ids (ps_delivered (rn_pass q)))"
      unfolding busy_def by blast
    show False
    proof (cases "j = i")
      case True
      then show False using q publish_step(2) new accepted_ids_subset by fastforce
    next
      case False
      then show False
        using inv(3) [OF q(1) publish_step(2)] mem q(2) accepted_claimed [OF inv(2) [OF q(1)]] by blast
    qed
  qed
  have log: "cs_log s' = cs_log s @ [(cl_event c, v)]" and failed: "cs_failed s' = cs_failed s"
    and rows: "cs_rows s' = cs_rows s"
    and run: "cs_running s' = (cs_running s)(i \<mapsto> r\<lparr>rn_todo := cs, rn_pass := p\<rparr>)"
    by (simp_all add: publish_step(1) v)
  have busy: "busy s' e \<longleftrightarrow> busy s e \<or> e \<in> set (accepted_ids [(cl_event c, v)])" for e
    unfolding busy_def rows run using publish_step(2)
    by (auto simp: v split: if_splits) (metis option.inject)
  have "count_list (accepted_ids (cs_log s')) e \<le> cs_failed s' + (if busy s' e then 1 else 0)" for e
  proof -
    have "count_list (accepted_ids (cs_log s)) e \<le> cs_failed s + (if busy s e then 1 else 0)"
      using assms(3) unfolding log_ok_def by blast
    then show ?thesis
      using free unfolding log failed busy by (cases v; cases "e = ?e") (auto split: if_splits)
  qed
  moreover have "set (accepted_ids (ps_delivered (rn_pass q))) \<subseteq> set (accepted_ids (cs_log s'))"
    if q: "cs_running s' j = Some q" for j q
  proof (cases "j = i")
    case True
    then have "ps_delivered (rn_pass q) = ps_delivered (rn_pass r) @ [(cl_event c, v)]"
      using q by (auto simp: run v)
    then show ?thesis using assms(3) publish_step(2) unfolding log_ok_def log by fastforce
  next
    case False
    then show ?thesis using q assms(3) unfolding log_ok_def log run by fastforce
  qed
  moreover have "published_ids (cs_rows s') \<subseteq> old \<union> set (accepted_ids (cs_log s'))"
    using assms(3) unfolding log_ok_def rows log by auto
  ultimately show ?thesis unfolding log_ok_def by blast
next
  case (commit_step i r)
  note inv = passes_okD [OF assms(2)]
  have rows: "published_ids (cs_rows s') = published_ids (cs_rows s) \<union> set (accepted_ids (ps_delivered (rn_pass r)))"
    unfolding commit_step(1) using committed_published [OF inv(2) [OF commit_step(2)] commit_step(4)] by simp
  have run: "cs_running s' = (cs_running s)(i := None)" and log: "cs_log s' = cs_log s"
    and failed: "cs_failed s' = cs_failed s" by (simp_all add: commit_step(1))
  have "busy s' e \<longleftrightarrow> busy s e" for e
    unfolding busy_def rows run using commit_step(2)
    by (auto split: if_splits) (metis option.inject)
  moreover have "set (accepted_ids (ps_delivered (rn_pass r))) \<subseteq> set (accepted_ids (cs_log s))"
    using assms(3) commit_step(2) unfolding log_ok_def by blast
  ultimately show ?thesis
    using assms(3) unfolding log_ok_def rows run log failed by (auto split: if_splits)
next
  case (fail_step i r)
  have run: "cs_running s' = (cs_running s)(i := None)" and log: "cs_log s' = cs_log s"
    and failed: "cs_failed s' = Suc (cs_failed s)" and rows: "cs_rows s' = cs_rows s"
    by (simp_all add: fail_step(1))
  have "count_list (accepted_ids (cs_log s')) e \<le> cs_failed s'" for e
  proof -
    have "count_list (accepted_ids (cs_log s)) e \<le> cs_failed s + (if busy s e then 1 else 0)"
      using assms(3) unfolding log_ok_def by blast
    then show ?thesis unfolding log failed by (simp split: if_splits)
  qed
  then show ?thesis
    using assms(3) unfolding log_ok_def rows run log by (auto simp: trans_le_add1 split: if_splits)
next
  case (arrive_step n)
  have pub: "published_ids (cs_rows s @ [n]) = published_ids (cs_rows s)"
    using arrive_step(3) by (auto simp: published_ids_def)
  have "busy s' = busy s" unfolding arrive_step(1) busy_def [abs_def] by (simp add: pub)
  then show ?thesis using assms(3) unfolding arrive_step(1) log_ok_def by (simp add: pub)
qed

lemma cluster_reach_ok:
  assumes "cluster_reach opts x (start_cluster rows) s" and "distinct (event_ids rows)"
  shows "passes_ok s \<and> log_ok (published_ids rows) s"
  using assms(1)
proof induction
  case reach_start
  show ?case using assms(2) by (simp add: passes_ok_def log_ok_def start_cluster_def)
next
  case (reach_step s s')
  then show ?case using passes_ok_step log_ok_step by blast
qed

text \<open>C13: Any number of relays may run over one outbox at the same time, whatever the interleaving of
  their claims, deliveries and commits with each other, with new events and with failures at any
  point: no event is in the claims of two of them; what becomes marked published was accepted by
  the publisher; and the publisher accepts an event at most once more than passes have failed, so
  exactly as often as it should when none does.\<close>

theorem relays_share_the_outbox:
  assumes "cluster_reach opts x (start_cluster rows) s" and "distinct (event_ids rows)"
  shows "(\<forall>i j r q. cs_running s i = Some r \<longrightarrow> cs_running s j = Some q \<longrightarrow> i \<noteq> j \<longrightarrow>
        set (claim_ids (rn_claim r)) \<inter> set (claim_ids (rn_claim q)) = {})
    \<and> published_ids (cs_rows s) \<subseteq> published_ids rows \<union> set (accepted_ids (cs_log s))
    \<and> (\<forall>e. count_list (accepted_ids (cs_log s)) e \<le> cs_failed s + 1)"
proof -
  have ok: "passes_ok s" "log_ok (published_ids rows) s" using cluster_reach_ok [OF assms] by blast+
  have "count_list (accepted_ids (cs_log s)) e \<le> cs_failed s + 1" for e
  proof -
    have "count_list (accepted_ids (cs_log s)) e \<le> cs_failed s + (if busy s e then 1 else 0)"
      using ok(2) unfolding log_ok_def by blast
    then show ?thesis by (simp split: if_splits)
  qed
  then show ?thesis using passes_okD(3) [OF ok(1)] ok(2) unfolding log_ok_def by blast
qed

text \<open>Two relays of batch size one: the second finds the first row locked and takes the second.\<close>

definition demo_opts :: relay_options where
  "demo_opts = default_relay_options\<lparr>op_batch_size := 1\<rparr>"

definition replica_env :: "uuid list \<Rightarrow> nat pass_env" where
  "replica_env locked = (demo_pass accept_event)\<lparr>pe_locked := (\<lambda>e. e \<in> set locked)\<rparr>"

definition replica_running :: "uuid list \<Rightarrow> nat running" where
  "replica_running locked =
    (let cs = map (claimed_of (pe_jsonb (replica_env locked)))
                (claim_rows demo_opts (replica_env locked) demo_rows)
     in \<lparr>rn_env = replica_env locked, rn_claim = cs, rn_todo = cs, rn_pass = begin_pass demo_rows 0\<rparr>)"

lemma replica_claims:
  "claim_ids (rn_claim (replica_running [])) = [11]"
  "claim_ids (rn_claim (replica_running [11])) = [12]"
  by code_simp+

definition one_claimed :: "nat cluster" where
  "one_claimed = (start_cluster demo_rows)\<lparr>cs_running := (\<lambda>i. None)(0 \<mapsto> replica_running [])\<rparr>"

definition both_claimed :: "nat cluster" where
  "both_claimed = one_claimed\<lparr>cs_running := (cs_running one_claimed)(1 \<mapsto> replica_running [11])\<rparr>"

lemma claim_replica:
  assumes "cs_rows s = demo_rows" and "cs_running s i = None" and "locked_ids s = set locked"
  shows "cluster_step demo_opts x s
    (s\<lparr>cs_running := (cs_running s)(i \<mapsto> replica_running locked)\<rparr>)"
  unfolding replica_running_def Let_def assms(1) [symmetric]
  by (rule claim_step)
     (simp_all add: assms claim_def replica_env_def demo_pass_def)

lemma both_claimed_reached: "cluster_reach demo_opts int64_min (start_cluster demo_rows) both_claimed"
proof -
  have "cluster_step demo_opts int64_min (start_cluster demo_rows) one_claimed"
    using claim_replica [of "start_cluster demo_rows" 0 "[]"]
    by (simp add: one_claimed_def start_cluster_def locked_ids_def)
  moreover have "locked_ids one_claimed = set [11]"
    by (auto simp: locked_ids_def one_claimed_def replica_claims)
  then have "cluster_step demo_opts int64_min one_claimed both_claimed"
    using claim_replica [of one_claimed 1 "[11]"]
    by (simp add: both_claimed_def one_claimed_def start_cluster_def)
  ultimately show ?thesis by (blast intro: reach_start reach_step)
qed

lemma relays_share_the_outbox_witness:
  "\<exists>(s :: nat cluster) r q. cs_running s 0 = Some r \<and> cs_running s 1 = Some q
    \<and> claim_ids (rn_claim r) = [11] \<and> claim_ids (rn_claim q) = [12]
    \<and> set (claim_ids (rn_claim r)) \<inter> set (claim_ids (rn_claim q)) = {}
    \<and> count_list (accepted_ids (cs_log s)) 11 \<le> cs_failed s + 1"
proof -
  have run: "cs_running both_claimed 0 = Some (replica_running [])"
    "cs_running both_claimed 1 = Some (replica_running [11])"
    by (simp_all add: both_claimed_def one_claimed_def)
  show ?thesis
    using relays_share_the_outbox [OF both_claimed_reached demo_rows_distinct] run replica_claims
    by (metis zero_neq_one)
qed

end
