(* ===== verification/Go_Time_Unique.thy ===== *)
theory Go_Time_Unique
  imports Go_Time
begin

text \<open>
  The calendar of \<open>Go_Time\<close> and the text of a time determine the instant: the day a civil date
  was computed from is computed back from it, and two times in UTC that can be written have the
  same text only when they are the same instant.
\<close>

section \<open>The calendar\<close>

text \<open>The day of a civil date, counted from 0001-01-01.\<close>

definition days_of_civil :: "civil \<Rightarrow> int" where
  "days_of_civil c =
    (let y = (if cv_month c \<le> 2 then cv_year c - 1 else cv_year c);
         mp = (if cv_month c \<le> 2 then cv_month c + 9 else cv_month c - 3);
         yoe = y mod 400; doy = (153 * mp + 2) div 5 + cv_day c - 1
     in 146097 * (y div 400) + 365 * yoe + yoe div 4 - yoe div 100 + doy - 306)"

lemma int_div_mod_eq:
  fixes b q r :: int
  assumes "a = b * q + r" and "0 \<le> r" and "r < b"
  shows "a div b = q" and "a mod b = r"
  using assms by simp_all

text \<open>The parts of a day in its era: the century, the four years, the year, and the day of it.\<close>

lemma capped_div:
  fixes a b :: int
  assumes "0 \<le> a" and "a \<le> 4 * b" and "0 < b"
  defines "k \<equiv> min 3 (a div b)"
  shows "0 \<le> k" and "k \<le> 3" and "0 \<le> a - k * b" and "a - k * b \<le> b"
    and "k < 3 \<Longrightarrow> a - k * b < b"
proof -
  have a: "a = a div b * b + a mod b" by simp
  have r: "0 \<le> a mod b" "a mod b < b" using assms(3) by simp_all
  have q: "0 \<le> a div b" using assms(1,3) by (simp add: pos_imp_zdiv_nonneg_iff)
  show "0 \<le> k" "k \<le> 3" using q by (simp_all add: k_def)
  show "k < 3 \<Longrightarrow> a - k * b < b" 
  proof -
    assume "k < 3"
    then have "k = a div b" by (simp add: k_def min_def split: if_splits)
    show "a - k * b < b" unfolding \<open>k = a div b\<close> using a r by linarith
  qed
  show "a - k * b \<le> b"
  proof (cases "3 \<le> a div b")
    case True
    then show ?thesis using assms(2) by (simp add: k_def min_def)
  next
    case False
    then have "k = a div b" by (simp add: k_def min_def)
    show ?thesis unfolding \<open>k = a div b\<close> using a r by linarith
  qed
  have "k * b \<le> a div b * b" using assms(3) by (simp add: k_def mult_right_mono)
  then show "0 \<le> a - k * b" using a r by linarith
qed

lemma year_of_era:
  fixes era c q y :: int
  assumes "0 \<le> c" "c \<le> 3" and "0 \<le> q" "q \<le> 24" and "0 \<le> y" "y \<le> 3"
  defines "yr \<equiv> 400 * era + 100 * c + 4 * q + y"
  shows "yr div 400 = era" and "yr mod 400 = 100 * c + 4 * q + y"
    and "yr mod 400 div 4 = 25 * c + q" and "yr mod 400 div 100 = c"
proof -
  have "yr = 400 * era + (100 * c + 4 * q + y)" "0 \<le> 100 * c + 4 * q + y" "100 * c + 4 * q + y < 400"
    using assms(1-6) by (simp_all add: yr_def)
  note e = int_div_mod_eq [OF this]
  then show "yr div 400 = era" "yr mod 400 = 100 * c + 4 * q + y" by blast+
  show "yr mod 400 div 4 = 25 * c + q"
    unfolding e by (rule int_div_mod_eq(1) [where r = y]) (use assms(1-6) in simp_all)
  show "yr mod 400 div 100 = c"
    unfolding e by (rule int_div_mod_eq(1) [where r = "4 * q + y"]) (use assms(1-6) in simp_all)
qed

definition civil_from_parts :: "int \<Rightarrow> int \<Rightarrow> int \<Rightarrow> int \<Rightarrow> int \<Rightarrow> civil" where
  "civil_from_parts era c q y doy =
    (let mp = (5 * doy + 2) div 153; m = (if mp < 10 then mp + 3 else mp - 9)
     in \<lparr>cv_year = 400 * era + 100 * c + 4 * q + y + (if m \<le> 2 then 1 else 0), cv_month = m,
         cv_day = doy - (153 * mp + 2) div 5 + 1\<rparr>)"

lemma civil_of_days_parts:
  obtains era c q y doy where "civil_of_days n = civil_from_parts era c q y doy"
    and "0 \<le> c" "c \<le> 3" and "0 \<le> q" "q \<le> 24" and "0 \<le> y" "y \<le> 3"
    and "0 \<le> doy" "doy \<le> 365" and "doy = 365 \<longrightarrow> y = 3 \<and> (q < 24 \<or> c = 3)"
    and "n + 306 = 146097 * era + (36524 * c + 1461 * q + 365 * y + doy)"
proof -
  define era where "era = (n + 306) div 146097"
  define doe where "doe = (n + 306) mod 146097"
  define c where "c = min 3 (doe div 36524)"
  define doc where "doc = doe - c * 36524"
  define q where "q = doc div 1461"
  define doq where "doq = doc - q * 1461"
  define y where "y = min 3 (doq div 365)"
  define doy where "doy = doq - y * 365"
  have doe: "0 \<le> doe" "doe \<le> 4 * 36524" unfolding doe_def by (simp, linarith)
  have cs: "0 \<le> c" "c \<le> 3" "0 \<le> doc" "doc \<le> 36524"
    using capped_div [OF doe] unfolding doc_def c_def by simp_all
  have q: "0 \<le> q" "q \<le> 24" using cs(3,4) unfolding q_def by linarith+
  have doq: "0 \<le> doq" "doq \<le> 4 * 365" unfolding doq_def q_def by linarith+
  have ys: "0 \<le> y" "y \<le> 3" "0 \<le> doy" "doy \<le> 365"
    using capped_div [OF doq] unfolding doy_def y_def by simp_all
  have "civil_of_days n = civil_from_parts era c q y doy"
    by (simp only: civil_of_days_def civil_from_parts_def Let_def era_def doe_def c_def doc_def
        q_def doq_def y_def doy_def)
  moreover have "n + 306 = 146097 * era + (36524 * c + 1461 * q + 365 * y + doy)"
  proof -
    have "n + 306 = 146097 * era + doe" unfolding era_def doe_def by simp
    then show ?thesis by (simp add: doy_def doq_def doc_def)
  qed
  moreover have "y = 3 \<and> (q < 24 \<or> c = 3)" if "doy = 365"
  proof
    show "y = 3" using capped_div(5) [OF doq] ys(2) that unfolding doy_def y_def by fastforce
    then have "doq = 1460" using that unfolding doy_def by simp
    then have "q = 24 \<Longrightarrow> \<not> doc < 36524" unfolding doq_def by simp
    then show "q < 24 \<or> c = 3"
      using capped_div(5) [OF doe] cs(2) q(2) unfolding doc_def c_def by fastforce
  qed
  ultimately show ?thesis using that cs(1,2) q ys by blast
qed

lemma days_of_civil_of_days: "days_of_civil (civil_of_days n) = n"
proof -
  obtain era c q y doy where parts: "civil_of_days n = civil_from_parts era c q y doy"
    and c: "0 \<le> c" "c \<le> 3" and q: "0 \<le> q" "q \<le> 24" and y: "0 \<le> y" "y \<le> 3"
    and doy: "0 \<le> doy" "doy \<le> 365" and "doy = 365 \<longrightarrow> y = 3 \<and> (q < 24 \<or> c = 3)"
    and n: "n + 306 = 146097 * era + (36524 * c + 1461 * q + 365 * y + doy)"
    by (rule civil_of_days_parts)
  note year = year_of_era [OF c q y, of era]
  define yr where "yr = 400 * era + 100 * c + 4 * q + y"
  define mp where "mp = (5 * doy + 2) div 153"
  have mp: "0 \<le> mp" "mp \<le> 11" using doy unfolding mp_def by linarith+
  have "days_of_civil (civil_of_days n)
      = 146097 * (yr div 400) + 365 * (yr mod 400) + yr mod 400 div 4 - yr mod 400 div 100 + doy - 306"
    using mp unfolding parts civil_from_parts_def days_of_civil_def Let_def mp_def [symmetric] yr_def [symmetric]
    by simp
  also have "\<dots> = n" using n unfolding yr_def year(1,3,4) unfolding year(2) by simp
  finally show ?thesis .
qed

lemma civil_of_days_inject: "civil_of_days a = civil_of_days b \<longleftrightarrow> a = b"
  by (metis days_of_civil_of_days)

lemma civil_of_days_ranges:
  "1 \<le> cv_month (civil_of_days n) \<and> cv_month (civil_of_days n) \<le> 12"
  "1 \<le> cv_day (civil_of_days n) \<and> cv_day (civil_of_days n) \<le> 31"
proof -
  obtain era c q y doy where parts: "civil_of_days n = civil_from_parts era c q y doy"
    and doy: "0 \<le> doy" "doy \<le> 365"
    by (rule civil_of_days_parts)
  define mp where "mp = (5 * doy + 2) div 153"
  have mp: "0 \<le> mp" "mp \<le> 11" and d: "0 \<le> doy - (153 * mp + 2) div 5"
    "doy - (153 * mp + 2) div 5 \<le> 30"
    using doy unfolding mp_def by linarith+
  show "1 \<le> cv_month (civil_of_days n) \<and> cv_month (civil_of_days n) \<le> 12"
    using mp unfolding parts civil_from_parts_def Let_def mp_def [symmetric] by simp
  show "1 \<le> cv_day (civil_of_days n) \<and> cv_day (civil_of_days n) \<le> 31"
    using d unfolding parts civil_from_parts_def Let_def mp_def [symmetric] by simp
qed

section \<open>The text of a time\<close>

lemma pad_nat_mod: "pad_nat w (n mod 10 ^ w) = pad_nat w n"
  using pad_nat_digits_val [OF pad_nat_digits [of w n]] by (simp add: digits_val_pad_nat)

lemma pad_nat_inject: "pad_nat w a = pad_nat w b \<longleftrightarrow> a mod 10 ^ w = b mod 10 ^ w"
  by (metis digits_val_pad_nat pad_nat_mod)

lemma pad_int_inject:
  fixes a b :: int
  assumes "pad_nat w (nat a) = pad_nat w (nat b)" and "0 \<le> a" "a < 10 ^ w" and "0 \<le> b" "b < 10 ^ w"
  shows "a = b"
proof -
  have "nat a < 10 ^ w" "nat b < 10 ^ w" using assms(2-5) by (simp_all add: nat_less_iff)
  then have "nat a = nat b" using assms(1) by (simp add: pad_nat_inject)
  then show ?thesis using assms(2,4) by (simp add: eq_nat_nat_iff)
qed

lemma strip_zeros_split: "\<exists>n. s = strip_zeros s @ replicate n (CHR ''0'')"
proof -
  let ?z = "takeWhile (\<lambda>c. c = CHR ''0'') (rev s)"
  have "?z = replicate (length ?z) (CHR ''0'')"
    by (rule replicate_eqI) (auto dest: set_takeWhileD)
  then have "rev ?z = replicate (length ?z) (CHR ''0'')" by (metis rev_replicate)
  moreover have "s = strip_zeros s @ rev ?z"
    unfolding strip_zeros_def by (metis rev_append rev_rev_ident takeWhile_dropWhile_id)
  ultimately show ?thesis by metis
qed

lemma strip_zeros_inject:
  assumes "strip_zeros s = strip_zeros t" and "length s = length t"
  shows "s = t"
proof -
  obtain n m where "s = strip_zeros s @ replicate n (CHR ''0'')"
    "t = strip_zeros t @ replicate m (CHR ''0'')" using strip_zeros_split by metis
  then show ?thesis using assms by (metis append_same_eq length_append length_replicate add_left_cancel)
qed

lemma frac_string_inject:
  assumes "frac_string a p = frac_string b p"
  shows "a mod 10 ^ p = b mod 10 ^ p"
proof -
  have "strip_zeros (pad_nat p (a mod 10 ^ p)) = strip_zeros (pad_nat p (b mod 10 ^ p))"
    using assms by (simp add: frac_string_def Let_def split: if_splits)
  then have "pad_nat p (a mod 10 ^ p) = pad_nat p (b mod 10 ^ p)"
    by (rule strip_zeros_inject) simp
  then show ?thesis by (simp add: pad_nat_inject)
qed

text \<open>A time of day, from its nanosecond.\<close>

lemma time_of_day_inject:
  fixes a b :: nat
  assumes "pad_nat 2 (a div 10 ^ 9 div 3600) = pad_nat 2 (b div 10 ^ 9 div 3600)"
    and "pad_nat 2 (a div 10 ^ 9 div 60 mod 60) = pad_nat 2 (b div 10 ^ 9 div 60 mod 60)"
    and "pad_nat 2 (a div 10 ^ 9 mod 60) = pad_nat 2 (b div 10 ^ 9 mod 60)" and "a mod 10 ^ 9 = b mod 10 ^ 9"
    and "a < 86400 * 10 ^ 9" and "b < 86400 * 10 ^ 9"
  shows "a = b"
proof -
  have small: "s mod 60 mod 10 ^ 2 = s mod 60" for s :: nat
  proof -
    have "s mod 60 < 60" by simp
    then show ?thesis by simp
  qed
  have "s < 86400 \<Longrightarrow> s div 3600 mod 10 ^ 2 = s div 60 div 60" for s :: nat
    by (simp add: div_mult2_eq [symmetric] less_mult_imp_div_less)
  moreover have "a div 10 ^ 9 < 86400" "b div 10 ^ 9 < 86400"
    using assms(5,6) by (simp_all add: less_mult_imp_div_less)
  ultimately have "a div 10 ^ 9 div 60 div 60 = b div 10 ^ 9 div 60 div 60"
    using assms(1) unfolding pad_nat_inject by metis
  then have "a div 10 ^ 9 div 60 = b div 10 ^ 9 div 60" 
    using assms(2) unfolding pad_nat_inject small by (metis div_mult_mod_eq)
  then have "a div 10 ^ 9 = b div 10 ^ 9" using assms(3) unfolding pad_nat_inject small by (metis div_mult_mod_eq)
  with assms(4) show ?thesis by (metis div_mult_mod_eq)
qed

lemma time_rfc3339_inject:
  assumes "time_json_ok t" and "time_json_ok u" and "time_rfc3339 t = time_rfc3339 u"
  shows "t_ns t = t_ns u"
proof -
  let ?c = "\<lambda>t. civil_of_days (t_ns t div day_ns)" and ?ns = "\<lambda>t. nat (t_ns t mod day_ns)"
  have eq: "pad_nat 4 (nat (cv_year (?c t))) = pad_nat 4 (nat (cv_year (?c u)))"
    "pad_nat 2 (nat (cv_month (?c t))) = pad_nat 2 (nat (cv_month (?c u)))"
    "pad_nat 2 (nat (cv_day (?c t))) = pad_nat 2 (nat (cv_day (?c u)))"
    "pad_nat 2 (?ns t div 10 ^ 9 div 3600) = pad_nat 2 (?ns u div 10 ^ 9 div 3600)"
    "pad_nat 2 (?ns t div 10 ^ 9 div 60 mod 60) = pad_nat 2 (?ns u div 10 ^ 9 div 60 mod 60)"
    "pad_nat 2 (?ns t div 10 ^ 9 mod 60) = pad_nat 2 (?ns u div 10 ^ 9 mod 60)"
    "frac_string (?ns t) 9 = frac_string (?ns u) 9"
    using assms(3) unfolding time_rfc3339_def Let_def
    by (simp_all del: pad_nat.simps add: append_eq_append_conv)
  have "0 \<le> cv_year (?c v) \<and> cv_year (?c v) < 10 ^ 4" if "time_json_ok v" for v
    using that by (auto simp: time_json_ok_def Let_def)
  then have "cv_year (?c t) = cv_year (?c u)"
    using assms(1,2) by (blast intro: pad_int_inject [OF eq(1)])
  moreover have "0 \<le> cv_month (?c v) \<and> cv_month (?c v) < 10 ^ 2" for v
    using civil_of_days_ranges(1) [of "t_ns v div day_ns"] by simp
  then have "cv_month (?c t) = cv_month (?c u)" by (blast intro: pad_int_inject [OF eq(2)])
  moreover have "0 \<le> cv_day (?c v) \<and> cv_day (?c v) < 10 ^ 2" for v
    using civil_of_days_ranges(2) [of "t_ns v div day_ns"] by simp
  then have "cv_day (?c t) = cv_day (?c u)" by (blast intro: pad_int_inject [OF eq(3)])
  ultimately have "?c t = ?c u" by simp
  then have day: "t_ns t div day_ns = t_ns u div day_ns" by (simp add: civil_of_days_inject)
  have less: "?ns t < 86400 * 10 ^ 9" for t by (simp add: day_ns_def nat_less_iff)
  have "?ns t = ?ns u"
    by (rule time_of_day_inject [OF eq(4-6) frac_string_inject [OF eq(7)] less less])
  then have "t_ns t mod day_ns = t_ns u mod day_ns"
    by (simp add: day_ns_def)
  with day show ?thesis by (metis div_mult_mod_eq)
qed

definition time_char :: "char \<Rightarrow> bool" where
  "time_char c \<longleftrightarrow> is_digit c \<or> c \<in> set ''-:TZ.''"

lemma time_rfc3339_chars: "list_all time_char (time_rfc3339 t)"
proof -
  have num: "list_all time_char s" if "list_all is_digit s" for s
    using that by (simp add: list_all_iff time_char_def)
  have "list_all is_digit (strip_zeros (pad_nat p n))" for p n
    using pad_nat_digits [of p n] set_dropWhileD [of _ _ "rev (pad_nat p n)"]
    by (auto simp: strip_zeros_def list_all_iff)
  moreover have "time_char (CHR ''-'')" "time_char (CHR '':'')" "time_char (CHR ''T'')"
    "time_char (CHR ''Z'')" "time_char (CHR ''.'')"
    by (simp_all add: time_char_def)
  ultimately show ?thesis
    by (simp del: pad_nat.simps add: time_rfc3339_def Let_def frac_string_def num)
qed

end
