(* ===== verification/Json_Unique.thy ===== *)
theory Json_Unique
  imports Json Go_Time_Unique
begin

text \<open>
  The encoding of \<open>Json\<close> is unambiguous: a text of valid UTF-8, and a value whose texts are
  valid, can be told from their encodings, up to the order in which the members of objects
  come, which the encoder sorts away.
\<close>

section \<open>Runes\<close>

text \<open>A rune that was decoded from a valid sequence is encoded by the bytes it was read from.\<close>

lemma mod_of_base:
  fixes n m base :: nat
  assumes "base \<le> n" and "n < base + m" and "m dvd base"
  shows "base + n mod m = n" and "n mod m < m"
proof -
  obtain k where k: "n = base + k" using assms(1) le_Suc_ex by blast
  then have "k < m" using assms(2) by simp
  with k assms(3) show "base + n mod m = n" by (metis mod_add_left_eq dvd_imp_mod_0 add_0 mod_less)
  show "n mod m < m" using \<open>k < m\<close> by simp
qed

lemma code_mod_64: "cont_byte c \<Longrightarrow> 128 + code c mod 64 = code c"
  using mod_of_base(1) [of 128 "code c" 64] by (simp add: cont_byte_def)

lemma second_ok_cont: "second_ok x c \<Longrightarrow> cont_byte c"
  by (auto simp: second_ok_def second_lo_def second_hi_def cont_byte_def split: if_splits)

text \<open>The digits of a rune in base 64.\<close>

lemma base64_digits:
  fixes a b c d :: nat
  assumes "b < 64" and "c < 64" and "d < 64"
  shows "(a * 64 + b) div 64 = a" and "(a * 64 + b) mod 64 = b"
    and "(a * 4096 + b * 64 + c) div 4096 = a" and "(a * 4096 + b * 64 + c) div 64 mod 64 = b"
    and "(a * 4096 + b * 64 + c) mod 64 = c"
    and "(a * 262144 + b * 4096 + c * 64 + d) div 262144 = a"
    and "(a * 262144 + b * 4096 + c * 64 + d) div 4096 mod 64 = b"
    and "(a * 262144 + b * 4096 + c * 64 + d) div 64 mod 64 = c"
    and "(a * 262144 + b * 4096 + c * 64 + d) mod 64 = d"
proof -
  have step: "(p * 64 + q) div 64 = p" "(p * 64 + q) mod 64 = q" if "q < 64" for p q :: nat
    using that by simp_all
  have two: "a * 4096 + b * 64 + c = (a * 64 + b) * 64 + c" by simp
  have three: "a * 262144 + b * 4096 + c * 64 + d = ((a * 64 + b) * 64 + c) * 64 + d" by simp
  have big: "n div 4096 = n div 64 div 64" "n div 262144 = n div 64 div 64 div 64" for n :: nat
    by (simp_all add: div_mult2_eq [symmetric])
  show "(a * 64 + b) div 64 = a" "(a * 64 + b) mod 64 = b" using step assms by blast+
  show "(a * 4096 + b * 64 + c) div 4096 = a" "(a * 4096 + b * 64 + c) div 64 mod 64 = b"
    "(a * 4096 + b * 64 + c) mod 64 = c"
    unfolding two big step [OF assms(2)] by (rule step [OF assms(1)] refl)+
  show "(a * 262144 + b * 4096 + c * 64 + d) div 262144 = a"
    "(a * 262144 + b * 4096 + c * 64 + d) div 4096 mod 64 = b"
    "(a * 262144 + b * 4096 + c * 64 + d) div 64 mod 64 = c"
    "(a * 262144 + b * 4096 + c * 64 + d) mod 64 = d"
    unfolding three big step [OF assms(3)] step [OF assms(2)] by (rule step [OF assms(1)] refl)+
qed

lemma encode_two:
  assumes "194 \<le> code a" "code a \<le> 223" and "cont_byte b"
  shows "encode_rune (code a mod 32 * 64 + code b mod 64) = [a, b]"
proof -
  have x: "192 + code a mod 32 = code a" "code a mod 32 < 32"
    using mod_of_base [of 192 "code a" 32] assms(1,2) by simp_all
  have y: "code b mod 64 < 64" by simp
  define r where "r = code a mod 32 * 64 + code b mod 64"
  have "128 \<le> r" "r < 2048" using x y assms(1) unfolding r_def by linarith+
  moreover have "r div 64 = code a mod 32" "r mod 64 = code b mod 64"
    unfolding r_def using base64_digits(1,2) [OF y y y] by blast+
  ultimately show ?thesis
    unfolding r_def [symmetric] using x code_mod_64 [OF assms(3)]
    by (simp add: encode_rune_def Let_def valid_rune_def)
qed

lemma encode_three:
  assumes "224 \<le> code a" "code a \<le> 239" and "second_ok (code a) b" and "cont_byte c"
  shows "encode_rune (code a mod 16 * 4096 + code b mod 64 * 64 + code c mod 64) = [a, b, c]"
proof -
  have x: "224 + code a mod 16 = code a" "code a mod 16 < 16"
    using mod_of_base [of 224 "code a" 16] assms(1,2) by simp_all
  have y: "code b mod 64 < 64" "code c mod 64 < 64" by simp_all
  have b: "128 + code b mod 64 = code b" using code_mod_64 second_ok_cont assms(3) by blast
  define r where "r = code a mod 16 * 4096 + code b mod 64 * 64 + code c mod 64"
  have "2048 \<le> r" "r < 65536" "valid_rune r"
    using x y b assms(3) unfolding r_def second_ok_def second_lo_def second_hi_def valid_rune_def
    by (auto split: if_splits)
  moreover have "r div 4096 = code a mod 16" "r div 64 mod 64 = code b mod 64" "r mod 64 = code c mod 64"
    unfolding r_def using base64_digits(3-5) [OF y(1,2,2)] by blast+
  ultimately show ?thesis
    unfolding r_def [symmetric] using x b code_mod_64 [OF assms(4)]
    by (simp add: encode_rune_def Let_def)
qed

lemma encode_four:
  assumes "240 \<le> code a" "code a \<le> 244" and "second_ok (code a) b" and "cont_byte c" and "cont_byte d"
  shows "encode_rune (code a mod 8 * 262144 + code b mod 64 * 4096 + code c mod 64 * 64 + code d mod 64)
    = [a, b, c, d]"
proof -
  have x: "240 + code a mod 8 = code a" "code a mod 8 < 8"
    using mod_of_base [of 240 "code a" 8] assms(1,2) by simp_all
  have y: "code b mod 64 < 64" "code c mod 64 < 64" "code d mod 64 < 64" by simp_all
  have b: "128 + code b mod 64 = code b" using code_mod_64 second_ok_cont assms(3) by blast
  define r where "r = code a mod 8 * 262144 + code b mod 64 * 4096 + code c mod 64 * 64 + code d mod 64"
  have "65536 \<le> r" "valid_rune r"
    using x y b assms(2,3) unfolding r_def second_ok_def second_lo_def second_hi_def valid_rune_def
    by (auto split: if_splits)
  moreover have "r div 262144 = code a mod 8" "r div 4096 mod 64 = code b mod 64"
    "r div 64 mod 64 = code c mod 64" "r mod 64 = code d mod 64"
    unfolding r_def using base64_digits(6-9) [OF y(1,2,3)] by blast+
  ultimately show ?thesis
    unfolding r_def [symmetric] using x b code_mod_64 [OF assms(4)] code_mod_64 [OF assms(5)]
    by (simp add: encode_rune_def Let_def)
qed

text \<open>What a rune is read from: its own encoding, whatever follows.\<close>

definition good_pair :: "nat \<times> string \<Rightarrow> bool" where
  "good_pair p \<longleftrightarrow> snd p \<noteq> [] \<and> snd p = encode_rune (fst p)
    \<and> (\<forall>t. decode_rune (snd p @ t) = (fst p, length (snd p)))"

lemma decode_rune_cases:
  "code a < 128 \<Longrightarrow> decode_rune (a # s) = (code a, 1)"
  "194 \<le> code a \<Longrightarrow> code a \<le> 223 \<Longrightarrow> decode_rune (a # s) =
    (case s of b # _ \<Rightarrow> if second_ok (code a) b then (code a mod 32 * 64 + code b mod 64, 2) else (rune_error, 1)
     | [] \<Rightarrow> (rune_error, 1))"
  "224 \<le> code a \<Longrightarrow> code a \<le> 239 \<Longrightarrow> decode_rune (a # s) =
    (case s of b # c # _ \<Rightarrow>
        if second_ok (code a) b \<and> cont_byte c
        then (code a mod 16 * 4096 + code b mod 64 * 64 + code c mod 64, 3) else (rune_error, 1)
     | _ \<Rightarrow> (rune_error, 1))"
  "240 \<le> code a \<Longrightarrow> code a \<le> 244 \<Longrightarrow> decode_rune (a # s) =
    (case s of b # c # d # _ \<Rightarrow>
        if second_ok (code a) b \<and> cont_byte c \<and> cont_byte d
        then (code a mod 8 * 262144 + code b mod 64 * 4096 + code c mod 64 * 64 + code d mod 64, 4)
        else (rune_error, 1)
     | _ \<Rightarrow> (rune_error, 1))"
  "128 \<le> code a \<Longrightarrow> code a < 194 \<or> 244 < code a \<Longrightarrow> decode_rune (a # s) = (rune_error, 1)"
  by (auto simp: decode_rune.simps Let_def)

lemma decode_rune_good:
  assumes "decode_rune s = (r, w)" and "s \<noteq> []" and "\<not> (r = rune_error \<and> w = 1)"
  shows "good_pair (r, take w s)"
proof -
  obtain a s' where s: "s = a # s'" using assms(2) by (cases s) auto
  note d = assms(1) [unfolded s]
  consider (one) "code a < 128" | (two) "194 \<le> code a" "code a \<le> 223"
    | (three) "224 \<le> code a" "code a \<le> 239" | (four) "240 \<le> code a" "code a \<le> 244"
    | (bad) "128 \<le> code a" "code a < 194 \<or> 244 < code a"
    by linarith
  then show ?thesis
  proof cases
    case one
    note eq = decode_rune_cases(1) [OF one]
    have "encode_rune (code a) = [a]" using one by (simp add: encode_rune_def valid_rune_def)
    then show ?thesis using d unfolding eq s by (auto simp: good_pair_def eq)
  next
    case two
    note eq = decode_rune_cases(2) [OF two]
    obtain b s'' where b: "s' = b # s''" "second_ok (code a) b" "w = 2"
        "r = code a mod 32 * 64 + code b mod 64"
      using d assms(3) unfolding eq by (cases s') (auto split: if_splits)
    then show ?thesis
      unfolding s b good_pair_def using encode_two [OF two second_ok_cont] by (simp add: eq)
  next
    case three
    note eq = decode_rune_cases(3) [OF three]
    obtain b c s'' where b: "s' = b # c # s''" "second_ok (code a) b" "cont_byte c" "w = 3"
        "r = code a mod 16 * 4096 + code b mod 64 * 64 + code c mod 64"
      using d assms(3) unfolding eq by (cases s'; cases "tl s'") (auto split: if_splits)
    then show ?thesis
      unfolding s b good_pair_def using encode_three [OF three b(2,3)] by (simp add: eq)
  next
    case four
    note eq = decode_rune_cases(4) [OF four]
    obtain b c e s'' where b: "s' = b # c # e # s''" "second_ok (code a) b" "cont_byte c" "cont_byte e"
        "w = 4" "r = code a mod 8 * 262144 + code b mod 64 * 4096 + code c mod 64 * 64 + code e mod 64"
      using d assms(3) unfolding eq
      by (cases s'; cases "tl s'"; cases "tl (tl s')") (auto split: if_splits)
    then show ?thesis
      unfolding s b good_pair_def using encode_four [OF four b(2-4)] by (simp add: eq)
  next
    case bad
    then show ?thesis using d assms(3) unfolding decode_rune_cases(5) [OF bad] by simp
  qed
qed

lemma runes_good: "utf8_valid s \<Longrightarrow> list_all good_pair (runes s)"
proof (induction s rule: runes.induct)
  case (2 b s)
  obtain r w where d: "decode_rune (b # s) = (r, w)" by fastforce
  have w: "0 < w" "w \<le> Suc (length s)"
    using decode_rune_width_pos [of "b # s"] decode_rune_width_le [of "b # s"] d by simp_all
  have "\<not> (r = rune_error \<and> w = 1)" and "utf8_valid (drop (w - 1) s)"
    using 2(2) d w by (auto simp: utf8_valid_def)
  then show ?case using decode_rune_good [OF d] 2(1) [OF d [symmetric]] d by simp
qed simp

lemma concat_runes: "concat (map snd (runes s)) = s"
proof (induction s rule: runes.induct)
  case (2 b s)
  obtain r w where d: "decode_rune (b # s) = (r, w)" by fastforce
  have "0 < w" using decode_rune_width_pos [of "b # s"] d by simp
  then have "take w (b # s) @ drop (w - 1) s = b # s" by (cases w) simp_all
  then show ?case using 2 [OF d [symmetric]] d by simp
qed simp

lemma good_pair_head:
  assumes "good_pair p"
  shows "fst p < 128 \<Longrightarrow> snd p = [char_of (fst p)]"
    and "128 \<le> fst p \<Longrightarrow> \<exists>c cs. snd p = c # cs \<and> 128 \<le> code c"
proof -
  show "fst p < 128 \<Longrightarrow> snd p = [char_of (fst p)]"
    using assms by (simp add: good_pair_def encode_rune_def valid_rune_def)
  obtain c cs where c: "snd p = c # cs" using assms by (cases "snd p") (auto simp: good_pair_def)
  have "decode_rune (snd p @ []) = (fst p, length (snd p))" using assms unfolding good_pair_def by blast
  then show "\<exists>c cs. snd p = c # cs \<and> 128 \<le> code c" if "128 \<le> fst p"
    using that c by (cases "code c < 128") (auto simp: decode_rune.simps)
qed

section \<open>Texts\<close>

definition short_escapes :: "(nat \<times> char) list" where
  "short_escapes = [(34, CHR 0x22), (92, CHR 0x5C), (8, CHR ''b''), (12, CHR ''f''),
     (10, CHR ''n''), (13, CHR ''r''), (9, CHR ''t'')]"

lemma short_escapes_inject:
  "(r, c) \<in> set short_escapes \<Longrightarrow> (q, c) \<in> set short_escapes \<Longrightarrow> r = q"
  by (auto simp: short_escapes_def)

lemma short_escapes_not_u: "(r, CHR ''u'') \<notin> set short_escapes"
  by (simp add: short_escapes_def)

lemma pad_hex_inject: "pad_hex w a = pad_hex w b \<longleftrightarrow> a mod 16 ^ w = b mod 16 ^ w"
proof (induction w arbitrary: a b)
  case (Suc w)
  have step: "n mod 16 ^ Suc w = 16 * (n div 16 mod 16 ^ w) + n mod 16" for n :: nat
    by (simp add: mod_mult2_eq [of n 16 "16 ^ w"])
  have split: "16 * x + p = 16 * y + q \<longleftrightarrow> x = y \<and> p = q" if "p < 16" "q < 16" for x y p q :: nat
  proof -
    have "(16 * x + p) div 16 = x" "(16 * x + p) mod 16 = p" "(16 * y + q) div 16 = y"
      "(16 * y + q) mod 16 = q" using that by simp_all
    then show ?thesis by metis
  qed
  have "pad_hex (Suc w) a = pad_hex (Suc w) b
      \<longleftrightarrow> a div 16 mod 16 ^ w = b div 16 mod 16 ^ w \<and> a mod 16 = b mod 16"
    by (simp add: hex_char_inject Suc.IH)
  also have "\<dots> \<longleftrightarrow> a mod 16 ^ Suc w = b mod 16 ^ Suc w"
    unfolding step by (rule split [symmetric]) simp_all
  finally show ?case .
qed simp

lemma json_escape_short: "(r, c) \<in> set short_escapes \<Longrightarrow> json_escape (r, bs) = [CHR 0x5C, c]"
proof -
  have "char_of (34 :: nat) = CHR 0x22" "char_of (92 :: nat) = CHR 0x5C" by code_simp+
  then have "\<forall>p \<in> set short_escapes. json_escape (fst p, bs) = [CHR 0x5C, snd p]"
    by (simp add: short_escapes_def json_escape_def)
  then show "(r, c) \<in> set short_escapes \<Longrightarrow> ?thesis" by fastforce
qed

lemma json_escape_long:
  "r < 32 \<or> r = 60 \<or> r = 62 \<or> r = 38 \<or> r = 8232 \<or> r = 8233 \<Longrightarrow> r \<notin> {8, 9, 10, 12, 13} \<Longrightarrow>
    json_escape (r, bs) = [CHR 0x5C, CHR ''u''] @ pad_hex 4 r"
  by (elim disjE) (simp_all add: json_escape_def rune_error_def del: pad_hex.simps)

lemma json_escape_same:
  "\<not> (r < 32 \<or> r = 60 \<or> r = 62 \<or> r = 38 \<or> r = 8232 \<or> r = 8233 \<or> r = 34 \<or> r = 92) \<Longrightarrow>
    \<not> (r = rune_error \<and> length bs = 1) \<Longrightarrow> json_escape (r, bs) = bs"
  by (auto simp: json_escape_def)

text \<open>The three forms in which a rune is written.\<close>

lemma json_escape_cases:
  assumes "good_pair p"
  obtains (short) c where "json_escape p = [CHR 0x5C, c]" and "(fst p, c) \<in> set short_escapes"
  | (long) "json_escape p = [CHR 0x5C, CHR ''u''] @ pad_hex 4 (fst p)" and "fst p < 16 ^ 4"
  | (same) "json_escape p = snd p" and "hd (snd p) \<noteq> CHR 0x5C" and "hd (snd p) \<noteq> CHR 0x22"
proof -
  obtain r bs where p: "p = (r, bs)" by fastforce
  have narrow: "\<not> (r = rune_error \<and> length bs = 1)"
    using assms by (auto simp: good_pair_def p encode_rune_def valid_rune_def rune_error_def)
  note head = good_pair_head [OF assms, unfolded p fst_conv snd_conv]
  have ends: "(r, c) \<in> set short_escapes \<longleftrightarrow> (r, c) = (34, CHR 0x22) \<or> (r, c) = (92, CHR 0x5C)
      \<or> (r, c) = (8, CHR ''b'') \<or> (r, c) = (12, CHR ''f'') \<or> (r, c) = (10, CHR ''n'')
      \<or> (r, c) = (13, CHR ''r'') \<or> (r, c) = (9, CHR ''t'')" for c
    by (simp add: short_escapes_def)
  consider (sh) c where "(r, c) \<in> set short_escapes"
    | (lg) "r < 32 \<or> r = 60 \<or> r = 62 \<or> r = 38 \<or> r = 8232 \<or> r = 8233" "r \<notin> {8, 9, 10, 12, 13}"
    | (sm) "\<not> (r < 32 \<or> r = 60 \<or> r = 62 \<or> r = 38 \<or> r = 8232 \<or> r = 8233 \<or> r = 34 \<or> r = 92)"
    using ends by auto
  then show ?thesis
  proof cases
    case sh
    then show ?thesis using short json_escape_short p by simp
  next
    case lg
    then have "r < 16 ^ 4" by auto
    then show ?thesis using long json_escape_long [OF lg] p by (simp del: pad_hex.simps)
  next
    case sm
    have "hd bs \<noteq> CHR 0x5C \<and> hd bs \<noteq> CHR 0x22"
    proof (cases "r < 128")
      case True
      then have "code (hd bs) = r" using head(1) by (simp add: code_def)
      then show ?thesis using sm by (auto simp: code_def)
    next
      case False
      then show ?thesis using head(2) by (auto simp: code_def)
    qed
    then show ?thesis using same json_escape_same [OF sm narrow] p by simp
  qed
qed

lemma json_escape_cancel:
  assumes "good_pair p" and "good_pair q" and "json_escape p @ x = json_escape q @ y"
  shows "p = q \<and> x = y"
proof -
  have good: "p = q" if "fst p = fst q"
    using assms(1,2) that by (auto simp: good_pair_def prod_eq_iff)
  have ne: "snd p \<noteq> []" "snd q \<noteq> []" using assms(1,2) by (auto simp: good_pair_def)
  from assms(1) show ?thesis
  proof (cases rule: json_escape_cases)
    case (short c)
    note p = short
    from assms(2) show ?thesis
    proof (cases rule: json_escape_cases)
      case (short d)
      then show ?thesis using p assms(3) good short_escapes_inject by (metis append_Cons append_Nil list.inject)
    next
      case long
      then show ?thesis using p assms(3) short_escapes_not_u by auto
    next
      case same
      then show ?thesis using p assms(3) ne by (cases "snd q") auto
    qed
  next
    case long
    note p = long
    from assms(2) show ?thesis
    proof (cases rule: json_escape_cases)
      case (short d)
      then show ?thesis using p assms(3) short_escapes_not_u by auto
    next
      case long
      then have "pad_hex 4 (fst p) @ x = pad_hex 4 (fst q) @ y" using p assms(3) by simp
      then have "pad_hex 4 (fst p) = pad_hex 4 (fst q) \<and> x = y" by (simp del: pad_hex.simps)
      then show ?thesis using p(2) long(2) good unfolding pad_hex_inject by simp
    next
      case same
      then show ?thesis using p assms(3) ne by (cases "snd q") auto
    qed
  next
    case same
    note p = same
    from assms(2) show ?thesis
    proof (cases rule: json_escape_cases)
      case (short d)
      then show ?thesis using p assms(3) ne by (cases "snd p") auto
    next
      case long
      then show ?thesis using p assms(3) ne by (cases "snd p") auto
    next
      case same
      then have eq: "snd p @ x = snd q @ y" using p assms(3) by simp
      have "decode_rune (snd p @ x) = (fst p, length (snd p))"
        "decode_rune (snd q @ y) = (fst q, length (snd q))"
        using assms(1,2) unfolding good_pair_def by blast+
      then have "fst p = fst q" "length (snd p) = length (snd q)" unfolding eq by simp_all
      then show ?thesis using good eq by simp
    qed
  qed
qed

lemma json_escape_head: "good_pair p \<Longrightarrow> \<exists>c cs. json_escape p = c # cs \<and> c \<noteq> CHR 0x22"
proof -
  assume p: "good_pair p"
  then have ne: "snd p \<noteq> []" by (simp add: good_pair_def)
  from p show ?thesis by (cases rule: json_escape_cases) (use ne in \<open>auto simp: neq_Nil_conv\<close>)
qed

lemma json_escapes_cancel:
  assumes "list_all good_pair ps" and "list_all good_pair qs"
    and "concat (map json_escape ps) @ CHR 0x22 # x = concat (map json_escape qs) @ CHR 0x22 # y"
  shows "ps = qs \<and> x = y"
  using assms
proof (induction ps arbitrary: qs)
  case Nil
  then show ?case by (cases qs) (auto dest: json_escape_head)
next
  case (Cons p ps)
  then obtain q qs' where q: "qs = q # qs'" by (cases qs) (auto dest!: json_escape_head)
  have "p = q \<and> concat (map json_escape ps) @ CHR 0x22 # x = concat (map json_escape qs') @ CHR 0x22 # y"
    using json_escape_cancel [of p q] Cons.prems unfolding q by simp
  then show ?case using Cons.IH [of qs'] Cons.prems unfolding q by simp
qed

lemma json_string_cancel:
  assumes "utf8_valid s" and "utf8_valid t" and "json_string s @ x = json_string t @ y"
  shows "s = t \<and> x = y"
proof -
  have "runes s = runes t \<and> x = y"
    by (rule json_escapes_cancel [OF runes_good runes_good])
       (use assms in \<open>simp_all add: json_string_def\<close>)
  then show ?thesis by (metis concat_runes)
qed

text \<open>A text of characters that are not escaped stands between its quotes as it is.\<close>

lemma json_string_verbatim:
  assumes "list_all (\<lambda>c. is_ascii c \<and> json_escape (code c, [c]) = [c]) s"
  shows "json_string s = [CHR 0x22] @ s @ [CHR 0x22]"
proof -
  have "list_all is_ascii s" using assms by (simp add: list_all_iff)
  moreover have "concat (map (\<lambda>c. json_escape (code c, [c])) s) = s"
    using assms by (induction s) auto
  ultimately show ?thesis by (simp add: json_string_def runes_ascii comp_def)
qed

lemma time_char_verbatim: "time_char c \<Longrightarrow> is_ascii c \<and> json_escape (code c, [c]) = [c]"
  by (auto simp: time_char_def json_escape_def byte_defs code_def)

lemma json_string_time: "json_string (time_rfc3339 t) = [CHR 0x22] @ time_rfc3339 t @ [CHR 0x22]"
  by (rule json_string_verbatim)
     (use time_rfc3339_chars [of t] time_char_verbatim in \<open>auto simp: list_all_iff\<close>)

lemma time_text_valid: "utf8_valid (time_rfc3339 t)"
  by (rule utf8_valid_ascii)
     (use time_rfc3339_chars [of t] time_char_verbatim in \<open>auto simp: list_all_iff\<close>)

section \<open>Values\<close>

text \<open>A text that may follow a value: it ends here, or the next element, or the end of a container.\<close>

definition ends_value :: "string \<Rightarrow> bool" where
  "ends_value x \<longleftrightarrow> x = [] \<or> hd x \<in> {CHR '','', CHR '']'', CHR ''}''}"

definition num_text_char :: "char \<Rightarrow> bool" where
  "num_text_char c \<longleftrightarrow> is_digit c \<or> c \<in> {CHR ''-'', CHR ''+'', CHR ''.'', CHR ''e'', CHR ''E''}"

text \<open>
  Values as the decoder makes them and the encoder writes them: texts and keys are valid UTF-8,
  the keys of an object are distinct, and a number is written with the characters of numbers.
\<close>

fun json_ok :: "json \<Rightarrow> bool" where
  "json_ok JNull \<longleftrightarrow> True"
| "json_ok (JBool b) \<longleftrightarrow> True"
| "json_ok (JNum n) \<longleftrightarrow> n \<noteq> [] \<and> list_all num_text_char n \<and> (is_digit (hd n) \<or> hd n = CHR ''-'')"
| "json_ok (JStr s) \<longleftrightarrow> utf8_valid s"
| "json_ok (JArr xs) \<longleftrightarrow> list_all json_ok xs"
| "json_ok (JObj kvs) \<longleftrightarrow> gm_wf kvs \<and> list_all (\<lambda>(k, v). utf8_valid k \<and> json_ok v) kvs"

text \<open>A value with the members of its objects in the order they are written.\<close>

fun json_canon :: "json \<Rightarrow> json" where
  "json_canon (JArr xs) = JArr (map json_canon xs)"
| "json_canon (JObj kvs) = JObj (sort_key fst (map (\<lambda>(k, v). (k, json_canon v)) kvs))"
| "json_canon v = v"

lemma insort_key_map_fst:
  "insort_key fst (k, f k v) (map (\<lambda>(k, v). (k, f k v)) kvs)
    = map (\<lambda>(k, v). (k, f k v)) (insort_key fst (k, v) kvs)"
  by (induction kvs) auto

lemma sort_key_map_fst:
  "sort_key fst (map (\<lambda>(k, v). (k, f k v)) kvs) = map (\<lambda>(k, v). (k, f k v)) (sort_key fst kvs)"
  by (induction kvs) (auto simp: sort_key_simps insort_key_map_fst)

lemma sort_key_sorted: "sorted (map f xs) \<Longrightarrow> sort_key f xs = xs"
  by (induction xs) (auto simp: insort_is_Cons)

lemma json_encode_obj:
  "json_encode (JObj kvs)
    = ''{'' @ join '','' (map (\<lambda>(k, v). json_string k @ '':'' @ json_encode v) (sort_key fst kvs)) @ ''}''"
  unfolding json_encode.simps(6) sort_key_map_fst json_members_def by (simp add: comp_def case_prod_unfold)

lemma json_canon_obj:
  "json_canon (JObj kvs) = JObj (map (\<lambda>(k, v). (k, json_canon v)) (sort_key fst kvs))"
  by (simp add: sort_key_map_fst [of "\<lambda>k. json_canon"])

text \<open>The order of the members is all that the encoding forgets.\<close>

lemma json_encode_canon: "json_encode (json_canon v) = json_encode v"
proof (induction v)
  case (JArr xs)
  then show ?case by (simp add: comp_def cong: map_cong)
next
  case (JObj kvs)
  have "sort_key fst (map (\<lambda>(k, v). (k, json_canon v)) (sort_key fst kvs))
      = map (\<lambda>(k, v). (k, json_canon v)) (sort_key fst kvs)"
    by (simp add: sort_key_map_fst [of "\<lambda>k. json_canon"] sort_key_sorted)
  moreover have "json_encode (json_canon v) = json_encode v" if "(k, v) \<in> set kvs" for k v
    using JObj that by fastforce
  ultimately show ?case
    unfolding json_canon_obj json_encode_obj by (auto simp: intro!: arg_cong [of _ _ "join _"])
qed simp_all

text \<open>What the encodings of the elements determine, the encoding of the list does.\<close>

lemma not_ends_value_neq:
  "\<not> ends_value s \<Longrightarrow> c = CHR '']'' \<or> c = CHR ''}'' \<Longrightarrow> s @ p \<noteq> c # x"
  by (cases s) (auto simp: ends_value_def)

definition rest_of :: "('a \<Rightarrow> string) \<Rightarrow> char \<Rightarrow> 'a list \<Rightarrow> string \<Rightarrow> string" where
  "rest_of f c zs t = (if zs = [] then c # t else CHR '','' # join '','' (map f zs) @ c # t)"

lemma join_rest: "join '','' (map f (u # us)) @ c # x = f u @ rest_of f c us x"
  by (simp add: join_Cons rest_of_def)

lemma ends_value_rest: "c = CHR '']'' \<or> c = CHR ''}'' \<Longrightarrow> ends_value (rest_of f c zs t)"
  by (auto simp: ends_value_def rest_of_def)

lemma join_cancel:
  assumes "\<And>u v p q. u \<in> set xs \<Longrightarrow> v \<in> set ys \<Longrightarrow> ends_value p \<Longrightarrow> ends_value q \<Longrightarrow>
      f u @ p = f v @ q \<Longrightarrow> g u = g v \<and> p = q"
    and "\<And>u. u \<in> set xs \<Longrightarrow> \<not> ends_value (f u)" and "\<And>u. u \<in> set ys \<Longrightarrow> \<not> ends_value (f u)"
    and "c = CHR '']'' \<or> c = CHR ''}''"
    and "join '','' (map f xs) @ c # x = join '','' (map f ys) @ c # y"
  shows "map g xs = map g ys \<and> x = y"
  using assms(1-3,5)
proof (induction xs arbitrary: ys)
  case Nil
  have "ys = []"
  proof (cases ys)
    case (Cons v vs)
    have "f v @ rest_of f c vs y = c # x"
      using Nil.prems(4) unfolding Cons join_rest by simp
    then show ?thesis using not_ends_value_neq [OF Nil.prems(3) assms(4)] Cons by simp
  qed
  then show ?case using Nil.prems(4) by simp
next
  case (Cons u us)
  obtain v vs where ys: "ys = v # vs"
  proof (cases ys)
    case Nil
    have "f u @ rest_of f c us x = c # y" using Cons.prems(4) unfolding Nil join_rest by simp
    then show ?thesis using not_ends_value_neq [OF Cons.prems(2) assms(4), of u] by simp
  qed blast
  have "f u @ rest_of f c us x = f v @ rest_of f c vs y"
    using Cons.prems(4) unfolding ys join_rest .
  moreover have "ends_value (rest_of f c us x)" "ends_value (rest_of f c vs y)"
    by (rule ends_value_rest [OF assms(4)])+
  ultimately have uv: "g u = g v" "rest_of f c us x = rest_of f c vs y"
    using Cons.prems(1) [of u v "rest_of f c us x" "rest_of f c vs y"] by (simp_all add: ys)
  show ?case
  proof (cases "us = [] \<or> vs = []")
    case True
    then show ?thesis using uv assms(4) by (auto simp: ys rest_of_def split: if_splits)
  next
    case False
    then have "join '','' (map f us) @ c # x = join '','' (map f vs) @ c # y"
      using uv(2) by (simp add: rest_of_def)
    moreover have "g a = g b \<and> p = q"
      if "a \<in> set us" "b \<in> set vs" "ends_value p" "ends_value q" "f a @ p = f b @ q" for a b p q
      by (rule Cons.prems(1) [OF _ _ that(3-5)]) (use that(1,2) in \<open>simp_all add: ys\<close>)
    moreover have "\<not> ends_value (f a)" if "a \<in> set us" for a
      by (rule Cons.prems(2)) (use that in simp)
    moreover have "\<not> ends_value (f a)" if "a \<in> set vs" for a
      by (rule Cons.prems(3)) (use that in \<open>simp add: ys\<close>)
    ultimately have "map g us = map g vs \<and> x = y" by (intro Cons.IH)
    then show ?thesis using uv(1) by (simp add: ys)
  qed
qed

text \<open>The first character tells the kind of a value.\<close>

lemma json_encode_head:
  assumes "json_ok v"
  shows "\<exists>c cs. json_encode v = c # cs
    \<and> (case v of JNull \<Rightarrow> c = CHR ''n'' | JBool b \<Rightarrow> c = (if b then CHR ''t'' else CHR ''f'')
       | JNum n \<Rightarrow> is_digit c \<or> c = CHR ''-'' | JStr s \<Rightarrow> c = CHR 0x22 | JArr xs \<Rightarrow> c = CHR ''[''
       | JObj kvs \<Rightarrow> c = CHR ''{'')"
  using assms by (cases v) (auto simp: json_string_def json_members_def neq_Nil_conv)

lemma json_encode_not_end: "json_ok v \<Longrightarrow> \<not> ends_value (json_encode v)"
  using json_encode_head [of v] by (cases v) (auto simp: ends_value_def byte_defs code_def)

lemma num_cancel:
  assumes "list_all num_text_char n" and "list_all num_text_char m"
    and "ends_value x" and "ends_value y" and "n @ x = m @ y"
  shows "n = m \<and> x = y"
proof -
  have stop: "takeWhile num_text_char z = []" if "ends_value z" for z
    using that by (cases z) (auto simp: ends_value_def num_text_char_def is_digit_def code_def)
  have "takeWhile num_text_char (k @ z) = k" if "list_all num_text_char k" "ends_value z" for k z
    using that stop by (simp add: takeWhile_append2 list_all_iff)
  then have "n = m" using assms by metis
  then show ?thesis using assms(5) by simp
qed

text \<open>The kind is the same when the texts agree.\<close>

definition json_kind :: "json \<Rightarrow> nat" where
  "json_kind v = (case v of JNull \<Rightarrow> 0 | JBool b \<Rightarrow> (if b then 1 else 2) | JNum n \<Rightarrow> 3 | JStr s \<Rightarrow> 4
     | JArr xs \<Rightarrow> 5 | JObj kvs \<Rightarrow> 6)"

lemma json_kind_eq:
  assumes "json_ok a" and "json_ok b" and "json_encode a @ x = json_encode b @ y"
  shows "json_kind a = json_kind b"
proof -
  obtain c cs d ds where "json_encode a = c # cs" "json_encode b = d # ds"
    "case a of JNull \<Rightarrow> c = CHR ''n'' | JBool b \<Rightarrow> c = (if b then CHR ''t'' else CHR ''f'')
       | JNum n \<Rightarrow> is_digit c \<or> c = CHR ''-'' | JStr s \<Rightarrow> c = CHR 0x22 | JArr xs \<Rightarrow> c = CHR ''[''
       | JObj kvs \<Rightarrow> c = CHR ''{''"
    "case b of JNull \<Rightarrow> d = CHR ''n'' | JBool b \<Rightarrow> d = (if b then CHR ''t'' else CHR ''f'')
       | JNum n \<Rightarrow> is_digit d \<or> d = CHR ''-'' | JStr s \<Rightarrow> d = CHR 0x22 | JArr xs \<Rightarrow> d = CHR ''[''
       | JObj kvs \<Rightarrow> d = CHR ''{''"
    using json_encode_head [OF assms(1)] json_encode_head [OF assms(2)] by blast
  moreover have "c = d" using assms(3) calculation(1,2) by simp
  ultimately show ?thesis
    by (cases a; cases b) (auto simp: json_kind_def is_digit_def code_def split: if_splits)
qed

lemma member_cancel:
  assumes "utf8_valid j" and "utf8_valid k"
    and "\<And>p q. ends_value p \<Longrightarrow> ends_value q \<Longrightarrow> json_encode v @ p = json_encode w @ q \<Longrightarrow>
      json_canon v = json_canon w \<and> p = q"
    and "ends_value p" and "ends_value q"
    and "(json_string j @ '':'' @ json_encode v) @ p = (json_string k @ '':'' @ json_encode w) @ q"
  shows "(j, json_canon v) = (k, json_canon w) \<and> p = q"
proof -
  have "json_string j @ ('':'' @ json_encode v @ p) = json_string k @ ('':'' @ json_encode w @ q)"
    using assms(6) by simp
  then have "j = k \<and> '':'' @ json_encode v @ p = '':'' @ json_encode w @ q"
    by (rule json_string_cancel [OF assms(1,2)])
  then show ?thesis using assms(3) [OF assms(4,5)] by simp
qed

text \<open>The members of an object in the order they are written, and what is known of each.\<close>

lemma json_ok_members:
  assumes "json_ok (JObj kvs)" and "(k, v) \<in> set (sort_key fst kvs)"
  shows "utf8_valid k" and "json_ok v" and "(k, v) \<in> set kvs"
  using assms by (auto simp: list_all_iff)

theorem json_encode_cancel:
  assumes "json_ok a" and "json_ok b" and "ends_value x" and "ends_value y"
    and "json_encode a @ x = json_encode b @ y"
  shows "json_canon a = json_canon b \<and> x = y"
  using assms
proof (induction a arbitrary: b x y)
  case JNull
  then show ?case using json_kind_eq [OF JNull(1,2,5)]
    by (cases b) (auto simp: json_kind_def split: if_splits)
next
  case (JBool c)
  then show ?case using json_kind_eq [OF JBool(1,2,5)]
    by (cases b) (auto simp: json_kind_def split: if_splits)
next
  case (JNum n)
  then obtain m where "b = JNum m" using json_kind_eq [OF JNum(1,2,5)]
    by (cases b) (auto simp: json_kind_def split: if_splits)
  then show ?case using num_cancel [of n m x y] JNum by simp
next
  case (JStr s)
  then obtain t where "b = JStr t" using json_kind_eq [OF JStr(1,2,5)]
    by (cases b) (auto simp: json_kind_def split: if_splits)
  then show ?case using json_string_cancel [of s t x y] JStr by simp
next
  case (JArr us)
  then obtain vs where b: "b = JArr vs" using json_kind_eq [OF JArr(2,3,6)]
    by (cases b) (auto simp: json_kind_def split: if_splits)
  have "map json_canon us = map json_canon vs \<and> x = y"
  proof (rule join_cancel [where f = json_encode and c = "CHR '']''"])
    show "json_canon u = json_canon v \<and> p = q"
      if "u \<in> set us" "v \<in> set vs" "ends_value p" "ends_value q" "json_encode u @ p = json_encode v @ q"
      for u v p q
      using JArr.IH [OF that(1) _ _ that(3-5)] JArr.prems(1,2) that(1,2) by (simp add: b list_all_iff)
    show "join '','' (map json_encode us) @ CHR '']'' # x = join '','' (map json_encode vs) @ CHR '']'' # y"
      using JArr.prems(5) by (simp add: b)
  qed (use JArr.prems(1,2) json_encode_not_end in \<open>simp_all add: b list_all_iff\<close>)
  then show ?case by (simp add: b)
next
  case (JObj kvs)
  then obtain lws where b: "b = JObj lws" using json_kind_eq [OF JObj(2,3,6)]
    by (cases b) (auto simp: json_kind_def split: if_splits)
  let ?f = "\<lambda>(k, v). json_string k @ '':'' @ json_encode v" and ?g = "\<lambda>(k, v). (k, json_canon v)"
  have "map ?g (sort_key fst kvs) = map ?g (sort_key fst lws) \<and> x = y"
  proof (rule join_cancel [where f = ?f and c = "CHR ''}''"])
    fix u w p q
    assume u: "u \<in> set (sort_key fst kvs)" and w: "w \<in> set (sort_key fst lws)"
      and ends: "ends_value p" "ends_value q" and eq: "?f u @ p = ?f w @ q"
    obtain k v l z where uw: "u = (k, v)" "w = (l, z)" by fastforce
    note ku = json_ok_members [OF JObj.prems(1) u [unfolded uw]]
    note lw = json_ok_members [OF JObj.prems(2) [unfolded b] w [unfolded uw]]
    have "(k, json_canon v) = (l, json_canon z) \<and> p = q"
    proof (rule member_cancel [OF ku(1) lw(1) _ ends])
      show "json_canon v = json_canon z \<and> r = t"
        if "ends_value r" "ends_value t" "json_encode v @ r = json_encode z @ t" for r t
        using JObj.IH [OF ku(3) _ ku(2) lw(2) that] by simp
      show "(json_string k @ '':'' @ json_encode v) @ p = (json_string l @ '':'' @ json_encode z) @ q"
        using eq by (simp add: uw)
    qed
    then show "?g u = ?g w \<and> p = q" by (simp add: uw)
  next
    show "join '','' (map ?f (sort_key fst kvs)) @ CHR ''}'' # x
        = join '','' (map ?f (sort_key fst lws)) @ CHR ''}'' # y"
      using JObj.prems(5) unfolding b json_encode_obj by simp
  qed (auto simp: ends_value_def json_string_def)
  then show ?case unfolding b json_canon_obj by simp
qed

end
