(* ===== verification/Fingerprint_Unique.thy ===== *)
theory Fingerprint_Unique
  imports Fingerprint Json_Unique Go_Time_Unique
begin

text \<open>
  \<open>internal/transaction/fingerprint.go\<close>: what the hashed text determines. The text is the
  encoding of an object of JSON values, so it is unambiguous, and two accepted transactions have
  the same text exactly when they have the same billable content.
\<close>

section \<open>The fields as values\<close>

definition omit_text :: "string \<Rightarrow> string \<Rightarrow> (string \<times> json) list" where
  "omit_text name v = (if v = [] then [] else [(name, JStr v)])"

definition omit_object :: "string \<Rightarrow> json_obj option \<Rightarrow> (string \<times> json) list" where
  "omit_object name m =
    (case m of None \<Rightarrow> [] | Some kvs \<Rightarrow> if kvs = [] then [] else [(name, JObj kvs)])"

definition plate_texts :: "'d transaction \<Rightarrow> string \<times> string" where
  "plate_texts t = (case tx_plate t of None \<Rightarrow> ([], []) | Some p \<Rightarrow> (pl_number p, pl_jurisdiction p))"

definition transponder_text :: "'d transaction \<Rightarrow> string" where
  "transponder_text t = (case tx_transponder t of None \<Rightarrow> [] | Some n \<Rightarrow> tr_number n)"

definition fingerprint_values :: "('d, 'a) lib_scheme \<Rightarrow> 'd transaction \<Rightarrow> (string \<times> json) list" where
  "fingerprint_values L t =
    [(''source'', JStr (tx_source t)), (''source_reference'', JStr (tx_source_reference t)),
     (''type'', JStr (tx_type t)),
     (''occurred_at'', JStr (time_rfc3339 (time_utc (tx_occurred_at t))))]
    @ omit_text ''plate_number'' (fst (plate_texts t))
    @ omit_text ''plate_jurisdiction'' (snd (plate_texts t))
    @ omit_text ''transponder'' (transponder_text t)
    @ [(''amount'', JStr (dec_string L (amt_value (tx_base_amount t)))),
       (''currency'', JStr (cur_code (amt_currency (tx_base_amount t))))]
    @ omit_object ''location'' (tx_location t)
    @ omit_object ''metadata'' (tx_metadata t)"

abbreviation encode_value :: "string \<times> json \<Rightarrow> string \<times> string" where
  "encode_value \<equiv> (\<lambda>(k, v). (k, json_encode v))"

lemma fingerprint_fields_values:
  "fingerprint_fields L t = map encode_value (fingerprint_values L t)"
  by (auto simp: fingerprint_fields_def fingerprint_values_def quoted_member_def omit_empty_def
      omit_text_def omit_empty_map_def omit_object_def plate_texts_def transponder_text_def
      json_string_time json_object_def split: option.splits simp del: json_encode.simps(6))

lemma fingerprint_encoding_values:
  assumes "time_json_ok (time_utc (tx_occurred_at t))"
  shows "fingerprint_encoding L t
    = ''{'' @ join '','' (map (\<lambda>(k, v). json_string k @ '':'' @ json_encode v) (fingerprint_values L t)) @ ''}''"
  using assms
  by (simp add: fingerprint_encoding_def fingerprint_fields_values json_members_def comp_def
      case_prod_unfold)

section \<open>What can be written\<close>

definition map_ok :: "json_obj option \<Rightarrow> bool" where
  "map_ok m = (case m of None \<Rightarrow> True | Some kvs \<Rightarrow> json_ok (JObj kvs))"

text \<open>Texts and values as they come out of a JSON body, and a time that has a text.\<close>

definition writable :: "'d transaction \<Rightarrow> bool" where
  "writable t \<longleftrightarrow> time_json_ok (time_utc (tx_occurred_at t))
    \<and> list_all utf8_valid [tx_source t, tx_source_reference t, tx_type t, fst (plate_texts t),
        snd (plate_texts t), transponder_text t]
    \<and> map_ok (tx_location t) \<and> map_ok (tx_metadata t)
    \<and> cur_code (amt_currency (tx_base_amount t)) \<in> set codes"

lemma plain_ascii: "list_all plain_char s \<Longrightarrow> utf8_valid s"
  by (rule utf8_valid_ascii) (auto simp: list_all_iff plain_char_props)

lemma fingerprint_values_ok:
  assumes "decimal_ok L v" and "writable t"
  shows "list_all (\<lambda>(k, v). utf8_valid k \<and> json_ok v) (fingerprint_values L t)"
proof -
  have "list_all plain_char (dec_string L (amt_value (tx_base_amount t)))"
    using decimal_ok_string_chars [OF assms(1)] by (auto simp: list_all_iff num_char_def plain_char_def)
  moreover have "list_all plain_char (cur_code (amt_currency (tx_base_amount t)))"
    using codes_shape assms(2) by (auto simp: writable_def list_all_iff plain_char_def)
  moreover have "list_all (\<lambda>k. utf8_valid k) [''source'', ''source_reference'', ''type'', ''occurred_at'',
    ''plate_number'', ''plate_jurisdiction'', ''transponder'', ''amount'', ''currency'', ''location'', ''metadata'']"
    by code_simp
  ultimately show ?thesis
    using assms(2) unfolding fingerprint_values_def
    by (auto simp: writable_def map_ok_def omit_text_def omit_object_def plain_ascii time_text_valid
        split: option.splits simp del: json_ok.simps(6))
qed

section \<open>What the text determines\<close>

definition canon_member :: "string \<times> json \<Rightarrow> string \<times> json" where
  "canon_member m = (fst m, json_canon (snd m))"

lemma json_canon_encode_eq: "json_canon a = json_canon b \<Longrightarrow> json_encode a = json_encode b"
  by (metis json_encode_canon)

lemma fingerprint_encoding_canon:
  assumes "decimal_ok L v" and "writable t" and "writable u"
  shows "fingerprint_encoding L t = fingerprint_encoding L u
    \<longleftrightarrow> map canon_member (fingerprint_values L t) = map canon_member (fingerprint_values L u)"
proof
  let ?f = "\<lambda>(k, v). json_string k @ '':'' @ json_encode v"
  have times: "time_json_ok (time_utc (tx_occurred_at t))" "time_json_ok (time_utc (tx_occurred_at u))"
    using assms(2,3) by (simp_all add: writable_def)
  note enc = times [THEN fingerprint_encoding_values]
  note ok = fingerprint_values_ok [OF assms(1,2)] fingerprint_values_ok [OF assms(1,3)]
  show "map canon_member (fingerprint_values L t) = map canon_member (fingerprint_values L u)"
    if "fingerprint_encoding L t = fingerprint_encoding L u"
  proof -
    have "map canon_member (fingerprint_values L t) = map canon_member (fingerprint_values L u) \<and> [] = ([] :: string)"
    proof (rule join_cancel [where f = ?f and c = "CHR ''}''"])
      fix a b p q
      assume a: "a \<in> set (fingerprint_values L t)" and b: "b \<in> set (fingerprint_values L u)"
        and ends: "ends_value p" "ends_value q" and eq: "?f a @ p = ?f b @ q"
      obtain k x l y where ab: "a = (k, x)" "b = (l, y)" by fastforce
      have valid: "utf8_valid k" "json_ok x" "utf8_valid l" "json_ok y"
        using ok a b by (auto simp: ab list_all_iff)
      have "(k, json_canon x) = (l, json_canon y) \<and> p = q"
        by (rule member_cancel [OF valid(1,3) json_encode_cancel [OF valid(2,4)] ends])
           (use eq in \<open>simp_all add: ab\<close>)
      then show "canon_member a = canon_member b \<and> p = q" by (simp add: ab canon_member_def)
    next
      show "join '','' (map ?f (fingerprint_values L t)) @ CHR ''}'' # []
          = join '','' (map ?f (fingerprint_values L u)) @ CHR ''}'' # []"
        using that unfolding enc by simp
    qed (auto simp: ends_value_def json_string_def)
    then show ?thesis by simp
  qed
  show "fingerprint_encoding L t = fingerprint_encoding L u"
    if "map canon_member (fingerprint_values L t) = map canon_member (fingerprint_values L u)"
  proof -
    have "?f m = (\<lambda>(k, v). json_string k @ '':'' @ json_encode v) (canon_member m)" for m
      by (simp add: canon_member_def json_encode_canon case_prod_unfold)
    then have "map ?f ms = map ?f (map canon_member ms)" for ms by simp
    then show ?thesis unfolding enc using that by metis
  qed
qed

definition map_canon :: "json_obj option \<Rightarrow> json" where
  "map_canon m = json_canon (JObj (case m of None \<Rightarrow> [] | Some kvs \<Rightarrow> kvs))"

text \<open>
  Two transactions have the same billable content when they agree on the key, the type, the
  instant, the reads as received and the money, and on the free-form parts up to the order of
  the members of objects at any depth; an absent map counts as an empty one.
\<close>

definition same_billable :: "('d, 'a) lib_scheme \<Rightarrow> 'd transaction \<Rightarrow> 'd transaction \<Rightarrow> bool" where
  "same_billable L t u \<longleftrightarrow>
    key_of t = key_of u \<and> tx_type t = tx_type u
    \<and> t_ns (tx_occurred_at t) = t_ns (tx_occurred_at u)
    \<and> map_option (\<lambda>p. (pl_number p, pl_jurisdiction p)) (tx_plate t)
        = map_option (\<lambda>p. (pl_number p, pl_jurisdiction p)) (tx_plate u)
    \<and> map_option tr_number (tx_transponder t) = map_option tr_number (tx_transponder u)
    \<and> amount_equal L (tx_base_amount t) (tx_base_amount u)
    \<and> map_canon (tx_location t) = map_canon (tx_location u)
    \<and> map_canon (tx_metadata t) = map_canon (tx_metadata u)"

lemma canon_lookup:
  "map_of (map canon_member ms) k = map_option json_canon (map_of ms k)"
  by (induction ms) (auto simp: canon_member_def)

lemma omit_lookup:
  "map_of (omit_text n v @ ms) k = (if k = n \<and> v \<noteq> [] then Some (JStr v) else map_of ms k)"
  "map_of (omit_object n m @ ms) k
    = (if k = n \<and> m \<noteq> None \<and> m \<noteq> Some [] then Some (JObj (the m)) else map_of ms k)"
  "map_of (omit_object n m) k
    = (if k = n \<and> m \<noteq> None \<and> m \<noteq> Some [] then Some (JObj (the m)) else None)"
  by (auto simp: omit_text_def omit_object_def split: option.splits)

lemma tx_reads:
  assumes "tx_ok L t" and "tx_ok L u"
  shows "plate_texts t = plate_texts u \<longleftrightarrow>
      map_option (\<lambda>p. (pl_number p, pl_jurisdiction p)) (tx_plate t)
        = map_option (\<lambda>p. (pl_number p, pl_jurisdiction p)) (tx_plate u)"
    and "transponder_text t = transponder_text u \<longleftrightarrow>
      map_option tr_number (tx_transponder t) = map_option tr_number (tx_transponder u)"
proof -
  have "pl_number p \<noteq> []" if "tx_ok L v" "tx_plate v = Some p" for v p
    using that unfolding tx_ok_def plate_is_empty_def new_plate_def
    by (metis canonicalize_nonempty plate.select_convs(3))
  then show "plate_texts t = plate_texts u \<longleftrightarrow>
      map_option (\<lambda>p. (pl_number p, pl_jurisdiction p)) (tx_plate t)
        = map_option (\<lambda>p. (pl_number p, pl_jurisdiction p)) (tx_plate u)"
    using assms by (cases "tx_plate t"; cases "tx_plate u") (fastforce simp: plate_texts_def)+
  have "tr_number n \<noteq> []" if "tx_ok L v" "tx_transponder v = Some n" for v n
    using that unfolding tx_ok_def transponder_is_empty_def new_transponder_def
    by (metis canonicalize_nonempty transponder.select_convs(2))
  then show "transponder_text t = transponder_text u \<longleftrightarrow>
      map_option tr_number (tx_transponder t) = map_option tr_number (tx_transponder u)"
    using assms by (cases "tx_transponder t"; cases "tx_transponder u") (fastforce simp: transponder_text_def)+
qed

text \<open>The value of a free-form part, left out when it is empty.\<close>

definition object_value :: "json_obj option \<Rightarrow> json option" where
  "object_value m = (if m = None \<or> m = Some [] then None else Some (json_canon (JObj (the m))))"

lemma object_value_eq: "object_value m = object_value m' \<longleftrightarrow> map_canon m = map_canon m'"
proof -
  have "length (sort_key fst (map f kvs)) = length kvs" for f :: "string \<times> json \<Rightarrow> string \<times> json" and kvs
    by simp
  then have "sort_key fst (map f kvs) = [] \<longleftrightarrow> kvs = []" "[] = sort_key fst (map f kvs) \<longleftrightarrow> kvs = []"
    for f :: "string \<times> json \<Rightarrow> string \<times> json" and kvs
    by (metis length_0_conv)+
  then show ?thesis
    by (cases m; cases m') (auto simp: object_value_def map_canon_def)
qed

lemma canon_omit_object:
  "map canon_member (omit_object n m) = (case object_value m of None \<Rightarrow> [] | Some v \<Rightarrow> [(n, v)])"
  by (auto simp: omit_object_def object_value_def canon_member_def split: option.splits)

lemma fingerprint_lookups:
  fixes L :: "('d, 'a) lib_scheme" and t :: "'d transaction"
  defines "look \<equiv> \<lambda>k. map_of (map canon_member (fingerprint_values L t)) k"
  shows "look ''source'' = Some (JStr (tx_source t))"
    and "look ''source_reference'' = Some (JStr (tx_source_reference t))"
    and "look ''type'' = Some (JStr (tx_type t))"
    and "look ''occurred_at'' = Some (JStr (time_rfc3339 (time_utc (tx_occurred_at t))))"
    and "look ''plate_number'' = (if fst (plate_texts t) = [] then None else Some (JStr (fst (plate_texts t))))"
    and "look ''plate_jurisdiction''
      = (if snd (plate_texts t) = [] then None else Some (JStr (snd (plate_texts t))))"
    and "look ''transponder'' = (if transponder_text t = [] then None else Some (JStr (transponder_text t)))"
    and "look ''amount'' = Some (JStr (dec_string L (amt_value (tx_base_amount t))))"
    and "look ''currency'' = Some (JStr (cur_code (amt_currency (tx_base_amount t))))"
    and "look ''location'' = object_value (tx_location t)"
    and "look ''metadata'' = object_value (tx_metadata t)"
  unfolding look_def canon_lookup
  by (simp_all add: fingerprint_values_def omit_lookup object_value_def 
      del: json_canon.simps(2) map_of_append)

lemma fingerprint_values_same:
  assumes "decimal_ok L v" and "tx_ok L t" and "tx_ok L u"
  shows "map canon_member (fingerprint_values L t) = map canon_member (fingerprint_values L u)
    \<longleftrightarrow> time_rfc3339 (time_utc (tx_occurred_at t)) = time_rfc3339 (time_utc (tx_occurred_at u))
      \<and> same_billable L t (u\<lparr>tx_occurred_at := tx_occurred_at t\<rparr>)"
    (is "?l = ?r")
proof
  let ?look = "\<lambda>t. map_of (map canon_member (fingerprint_values L t))"
  show ?r if eq: ?l
  proof -
    have looks: "?look t k = ?look u k" for k using eq by simp
    note ks = looks [of "''source''"] looks [of "''source_reference''"] looks [of "''type''"]
      looks [of "''occurred_at''"] looks [of "''plate_number''"] looks [of "''plate_jurisdiction''"]
      looks [of "''transponder''"] looks [of "''amount''"] looks [of "''currency''"]
      looks [of "''location''"] looks [of "''metadata''"]
    note ks = ks [unfolded fingerprint_lookups]
    have "plate_texts t = plate_texts u" "transponder_text t = transponder_text u"
      using ks(5-7) by (simp_all add: prod_eq_iff split: if_splits)
    then show ?thesis
      using ks(1-4,8-11) tx_reads [OF assms(2,3)]
      by (simp add: same_billable_def key_of_eq_iff amount_equal_def object_value_eq
          decimal_ok_equal [OF assms(1)] decimal_ok_string [OF assms(1)])
  qed
  show ?l if ?r
  proof -
    have "plate_texts t = plate_texts u" "transponder_text t = transponder_text u"
      and "object_value (tx_location t) = object_value (tx_location u)"
      and "object_value (tx_metadata t) = object_value (tx_metadata u)"
      and "dec_string L (amt_value (tx_base_amount t)) = dec_string L (amt_value (tx_base_amount u))"
      using that tx_reads [OF assms(2,3)]
      by (simp_all add: same_billable_def amount_equal_def object_value_eq
          decimal_ok_equal [OF assms(1)] decimal_ok_string [OF assms(1)])
    then show ?thesis
      using that
      by (simp add: fingerprint_values_def canon_omit_object same_billable_def key_of_eq_iff
          amount_equal_def)
  qed
qed

lemma fingerprint_encoding_decides:
  assumes "decimal_ok L v" and "tx_ok L t" and "tx_ok L u" and "writable t" and "writable u"
  shows "fingerprint_encoding L t = fingerprint_encoding L u \<longleftrightarrow> same_billable L t u"
proof -
  have "time_rfc3339 (time_utc (tx_occurred_at t)) = time_rfc3339 (time_utc (tx_occurred_at u))
      \<longleftrightarrow> t_ns (tx_occurred_at t) = t_ns (tx_occurred_at u)"
    using time_rfc3339_inject [of "time_utc (tx_occurred_at t)" "time_utc (tx_occurred_at u)"] assms(4,5)
    by (auto simp: writable_def time_utc_eq_iff [symmetric])
  then show ?thesis
    unfolding fingerprint_encoding_canon [OF assms(1,4,5)] fingerprint_values_same [OF assms(1-3)]
    by (auto simp: same_billable_def key_of_eq_iff)
qed

section \<open>Properties\<close>

text \<open>C27: The fingerprint of an accepted transaction is its billable content, no more and no less: two
  accepted transactions whose texts are valid and whose times can be written have the same
  fingerprint exactly when they agree on the key, the type, the instant, the reads as received,
  the money, and the location and metadata up to the order of members at any depth, as long as
  the hash does not collide on their two texts.\<close>

theorem fingerprint_decides_content:
  assumes "decimal_ok L v" and "tx_ok L t" and "tx_ok L u" and "writable t" and "writable u"
    and "sha256 L (fingerprint_encoding L t) = sha256 L (fingerprint_encoding L u) \<Longrightarrow>
      fingerprint_encoding L t = fingerprint_encoding L u"
  shows "fingerprint L t = fingerprint L u \<longleftrightarrow> same_billable L t u"
  using fingerprint_encoding_decides [OF assms(1-5)] assms(6)
  by (auto simp: fingerprint_def hex_encode_inject)

definition demo_place :: "bool \<Rightarrow> json_obj option" where
  "demo_place swapped =
    (let lane = (''lane'', JNum ''3''); tag = (''tag'', JStr ''<A&B>'');
         inner = JObj (if swapped then [tag, lane] else [lane, tag])
     in Some (if swapped then [(''plaza'', inner), lane] else [lane, (''plaza'', inner)]))"

definition demo_at :: "bool \<Rightarrow> string \<Rightarrow> refdec transaction" where
  "demo_at swapped number =
    demo_tx\<lparr>tx_location := demo_place swapped, tx_plate := Some (new_plate number ''US-TX'')\<rparr>"

theorem fingerprint_decides_content_witness:
  "fingerprint ref_lib (demo_at True ''ABC 123'') = fingerprint ref_lib (demo_at False ''ABC 123'')
    \<and> fingerprint ref_lib (demo_at True ''ABC 123'') \<noteq> fingerprint ref_lib (demo_at True ''ABC-123'')"
proof -
  have ok: "tx_ok ref_lib (demo_at b n)" if "canonicalize n \<noteq> []" for b n
    using demo_tx_ok that
    by (auto simp: demo_at_def tx_ok_def has_plate_def has_transponder_def plate_is_empty_def new_plate_def)
  have usable: "canonicalize ''ABC 123'' \<noteq> []" "canonicalize ''ABC-123'' \<noteq> []" by code_simp+
  have wr: "writable (demo_at True ''ABC 123'')" "writable (demo_at False ''ABC 123'')"
    "writable (demo_at True ''ABC-123'')" by code_simp+
  have same: "same_billable ref_lib (demo_at True ''ABC 123'') (demo_at False ''ABC 123'')"
    "\<not> same_billable ref_lib (demo_at True ''ABC 123'') (demo_at True ''ABC-123'')" by code_simp+
  show ?thesis
    using fingerprint_decides_content [OF ref_lib_ok ok ok wr(1,2)]
      fingerprint_decides_content [OF ref_lib_ok ok ok wr(1,3)] usable same
    by (simp add: ref_lib_def)
qed

end
