(* ===== verification/Divergence.thy ===== *)
theory Divergence
  imports Fingerprint_Unique Postgres_Store
begin

text \<open>
  What the divergence flag of an ingest says: the database store answers a replay with
  \<open>Divergent\<close> set exactly when the replay's billable content is not that of the transaction it
  keeps.
\<close>

text \<open>C10: Divergence is exact: once a push has been acknowledged, whatever is pushed after it and
  whatever fails, an acknowledged replay under its key is a duplicate, and it is reported as
  divergent exactly when its billable content differs from what was first accepted, as long as
  the hash does not collide on the two texts.\<close>

theorem divergence_exact:
  assumes "decimal_ok L v" and "pg_ok L (fst s)"
    and "pg_admits L t" and "writable t" and "pg_step L calls s t = (Inr out, s1)" and "\<not> out_duplicate out"
    and "list_all (pg_admits L) ts" and "pg_run L calls s1 ts = (rs, s2)"
    and "pg_admits L u" and "writable u" and "key_of u = key_of t"
    and "pg_step L calls s2 u = (Inr out', s3)"
    and "sha256 L (fingerprint_encoding L u) = sha256 L (fingerprint_encoding L t) \<Longrightarrow>
      fingerprint_encoding L u = fingerprint_encoding L t"
  shows "out_duplicate out' \<and> (out_divergent out' \<longleftrightarrow> \<not> same_billable L u t)"
proof -
  have "out' = \<lparr>out_transaction = pg_view t, out_duplicate = True,
      out_divergent = (fingerprint L u \<noteq> fingerprint L t)\<rparr>"
    by (rule pg_laws(4) [OF assms(2,3,5-9,11,12)])
  moreover have "fingerprint_encoding L u = fingerprint_encoding L t \<longleftrightarrow> same_billable L u t"
    by (rule fingerprint_encoding_decides [OF assms(1) _ _ assms(10,4)])
       (use assms(3,9) in \<open>simp_all add: pg_admits_def\<close>)
  then have "fingerprint L u = fingerprint L t \<longleftrightarrow> same_billable L u t"
    using assms(13) by (auto simp: fingerprint_def hex_encode_inject)
  ultimately show ?thesis by simp
qed

definition demo_respelled :: "refdec transaction" where
  "demo_respelled = demo_tx\<lparr>tx_id := 8, tx_plate := Some (new_plate ''ABC 123'' ''TX'')\<rparr>"

lemma demo_respelled_key: "key_of demo_respelled = key_of demo_tx"
  by (simp add: demo_respelled_def key_of_eq_iff)

lemma demo_respelled_admits: "pg_admits ref_lib demo_respelled"
proof -
  have "canonicalize ''ABC 123'' \<noteq> []" by code_simp
  then have "tx_ok ref_lib demo_respelled"
    using demo_tx_ok
    by (auto simp: demo_respelled_def tx_ok_def has_plate_def has_transponder_def plate_is_empty_def
        new_plate_def)
  then show ?thesis using demo_tx_admits by (simp add: pg_admits_def demo_respelled_def)
qed

lemma demo_respelled_row: "row_error (row_of ref_lib demo_respelled (fingerprint ref_lib demo_respelled)) = None"
proof -
  have amount: "amt_value (tx_base_amount demo_respelled) = (1250, 2)" by code_simp
  then have "numeric_19_4 ref_lib (amt_value (tx_base_amount demo_respelled)) = 25 / 2"
    using numeric_exact [OF ref_lib_ok, of "(1250, 2)" 125000] by (simp add: ref_val_def)
  moreover have "row_texts_ok (row_of ref_lib demo_respelled [])"
    unfolding row_texts_ok_def row_of_def tx_row.select_convs by code_simp
  moreover have "tx_location demo_respelled = None" "tx_metadata demo_respelled = None"
      "plate_number_key demo_respelled = ''ABC123''" by code_simp+
  ultimately show ?thesis
    unfolding row_error_fingerprint by (simp add: row_error_def row_of_def pg_json_ok_def nullable_def)
qed

lemma demo_replay:
  "\<exists>d out. pg_step ref_lib demo_env (db_empty, 40) demo_tx = (answer_new demo_tx, d, 41)
    \<and> pg_step ref_lib demo_env (d, 41) demo_respelled = (Inr out, d, 42)"
proof -
  have times: "time_json_ok (time_utc (tx_occurred_at demo_tx))"
    "time_json_ok (time_utc (tx_received_at demo_tx))" by code_simp+
  then obtain d where push: "pg_ingest ref_lib (fst (demo_env 40)) db_empty demo_tx = (answer_new demo_tx, d)"
      and new: "holds_new ref_lib (fst (demo_env 40)) db_empty demo_tx d"
    using calm_ingest(2) [OF demo_calm db_holds_empty demo_row] by auto
  have holds: "db_holds ref_lib d [demo_tx]"
    using db_holds_recorded(1) [OF db_holds_empty demo_tx_admits new] by simp
  have "ob_event_id q = 40" if "q \<in> set (db_outbox d)" for q
    using new that
    by (auto simp: holds_new_def demo_env_def db_empty_def event_row_def new_transaction_received_def
        split: if_splits)
  then have "calm (fst (demo_env 41)) d" by (auto simp: calm_def demo_env_def)
  moreover have "key_of demo_respelled \<in> key_of ` set [demo_tx]" by (simp add: demo_respelled_key)
  ultimately obtain out where "pg_ingest ref_lib (fst (demo_env 41)) d demo_respelled = (Inr out, d)"
    using calm_ingest(1) [OF _ holds demo_respelled_row] by blast
  then show ?thesis using push by (auto simp: pg_step_def demo_env_def)
qed

theorem divergence_exact_witness:
  "\<exists>d out. pg_step ref_lib demo_env (db_empty, 40) demo_tx = (answer_new demo_tx, d, 41)
    \<and> pg_step ref_lib demo_env (d, 41) demo_respelled = (Inr out, d, 42)
    \<and> out_duplicate out \<and> out_divergent out"
proof -
  obtain d out where push: "pg_step ref_lib demo_env (db_empty, 40) demo_tx = (answer_new demo_tx, d, 41)"
    and replay: "pg_step ref_lib demo_env (d, 41) demo_respelled = (Inr out, d, 42)"
    using demo_replay by blast
  have "pg_ok ref_lib (fst (db_empty, 40 :: uuid))" using db_holds_empty by (auto simp: pg_ok_def)
  moreover have "writable demo_tx" "writable demo_respelled" by code_simp+
  moreover have "\<not> same_billable ref_lib demo_respelled demo_tx" by code_simp
  ultimately show ?thesis
    using divergence_exact [OF ref_lib_ok _ demo_tx_admits _ push [unfolded answer_new_def] _ _ _
        demo_respelled_admits _ demo_respelled_key replay, where ts = "[]" and rs = "[]"] push replay
    by (auto simp: ref_lib_def)
qed

end
