(* ===== verification/Concurrent_Pushes.thy ===== *)
theory Concurrent_Pushes
  imports Postgres_Store
begin

text \<open>
  Pushes that run at the same time against one database, from one server or several
  (\<open>internal/store/postgres/postgres.go\<close>), as a step relation over the statements of \<open>Ingest\<close>.
  A transaction sees the rows that are committed and its own; an insert whose unique key another
  open transaction has written waits for that transaction to end, which is what makes
  \<open>ON CONFLICT DO NOTHING\<close> and the read after it safe. A push may vanish at any time, and its
  statements and its commit may fail as the record \<open>ingest_env\<close> says.
\<close>

section \<open>The steps\<close>

datatype 'd stage =
    To_Insert
  | To_Queue
  | To_Read
  | To_End "string + 'd ingest_outcome"

text \<open>A push under way: what it has written and not committed, and how far it is.\<close>

record 'd push =
  pu_env :: ingest_env
  pu_tx :: "'d transaction"
  pu_rows :: "tx_row list"
  pu_events :: "outbox_row list"
  pu_stage :: "'d stage"

record 'd server =
  sv_db :: db
  sv_pushes :: "nat \<Rightarrow> 'd push option"
  sv_answers :: "('d transaction \<times> (string + 'd ingest_outcome)) list"

definition start_push :: "ingest_env \<Rightarrow> 'd transaction \<Rightarrow> 'd push" where
  "start_push env t =
    \<lparr>pu_env = env, pu_tx = t, pu_rows = [], pu_events = [], pu_stage = To_Insert\<rparr>"

lemma start_push_simps [simp]:
  "pu_env (start_push env t) = env" "pu_tx (start_push env t) = t" "pu_rows (start_push env t) = []"
  "pu_events (start_push env t) = []" "pu_stage (start_push env t) = To_Insert"
  by (simp_all add: start_push_def)

text \<open>The first statement of \<open>ingestInTx\<close>, on the committed rows.\<close>

definition insert_push :: "('d, 'a) lib_scheme \<Rightarrow> db \<Rightarrow> 'd push \<Rightarrow> 'd push" where
  "insert_push L d p =
    (let t = pu_tx p; row = row_of L t (fingerprint L t) in
     case env_insert (pu_env p) of
       Some e \<Rightarrow> p\<lparr>pu_stage := To_End (Inl (''insert transaction: '' @ e))\<rparr>
     | None \<Rightarrow>
         (case insert_transaction row (db_transactions d) of
            Inl e \<Rightarrow> p\<lparr>pu_stage := To_End (Inl (''insert transaction: '' @ env_wording (pu_env p) e))\<rparr>
          | Inr (Some rows) \<Rightarrow> p\<lparr>pu_rows := [row], pu_stage := To_Queue\<rparr>
          | Inr None \<Rightarrow> p\<lparr>pu_stage := To_Read\<rparr>))"

definition read_push :: "('d, 'a) lib_scheme \<Rightarrow> db \<Rightarrow> 'd push \<Rightarrow> 'd push" where
  "read_push L d p =
    (case get_by_key_tx L (env_select (pu_env p)) d (key_of (pu_tx p)) of
       Inl e \<Rightarrow> p\<lparr>pu_stage := To_End (Inl (''read existing transaction: '' @ e))\<rparr>
     | Inr (existing, stored) \<Rightarrow>
         p\<lparr>pu_stage := To_End (Inr \<lparr>out_transaction = existing, out_duplicate = True,
            out_divergent = (stored \<noteq> fingerprint L (pu_tx p))\<rparr>)\<rparr>)"

text \<open>The event: its row is the push's own until the commit, its number is drawn at once.\<close>

definition queue_push :: "('d, 'a) lib_scheme \<Rightarrow> db \<Rightarrow> 'd push \<Rightarrow> 'd push \<times> db" where
  "queue_push L d p =
    (case write_outbox_event L (pu_env p) d (pu_tx p) of
       (Some e, d1) \<Rightarrow> (p\<lparr>pu_stage := To_End (Inl e)\<rparr>, d\<lparr>db_seq := db_seq d1\<rparr>)
     | (None, d1) \<Rightarrow>
         (p\<lparr>pu_events := drop (length (db_outbox d)) (db_outbox d1),
            pu_stage := To_End (answer_new (pu_tx p))\<rparr>, d\<lparr>db_seq := db_seq d1\<rparr>))"

text \<open>The end of \<open>Ingest\<close>: a commit unless there is an error, and the answer.\<close>

definition publish_push :: "'d push \<Rightarrow> db \<Rightarrow> db" where
  "publish_push p d =
    d\<lparr>db_transactions := db_transactions d @ pu_rows p, db_outbox := db_outbox d @ pu_events p\<rparr>"

definition end_push :: "'d push \<Rightarrow> string + 'd ingest_outcome \<Rightarrow> db \<Rightarrow> (string + 'd ingest_outcome) \<times> db" where
  "end_push p r d =
    (case r of
       Inl e \<Rightarrow> (Inl e, d)
     | Inr out \<Rightarrow>
         (case env_commit (pu_env p) of
            Commit_Done \<Rightarrow> (Inr out, publish_push p d)
          | Commit_Refused e \<Rightarrow> (Inl (''commit transaction: '' @ e), d)
          | Commit_Unacknowledged e \<Rightarrow> (Inl (''commit transaction: '' @ e), publish_push p d)))"

text \<open>What makes a statement of push \<open>i\<close> wait: a unique value that another open push has written.\<close>

definition row_free :: "'d server \<Rightarrow> nat \<Rightarrow> 'd transaction \<Rightarrow> bool" where
  "row_free s i t \<longleftrightarrow>
    (\<forall>j q. j \<noteq> i \<longrightarrow> sv_pushes s j = Some q \<longrightarrow>
      (\<forall>r \<in> set (pu_rows q). row_key r \<noteq> key_of t \<and> row_id r \<noteq> tx_id t))"

definition event_free :: "'d server \<Rightarrow> nat \<Rightarrow> string + uuid \<Rightarrow> bool" where
  "event_free s i x \<longleftrightarrow>
    (\<forall>j q. j \<noteq> i \<longrightarrow> sv_pushes s j = Some q \<longrightarrow>
      (\<forall>r \<in> set (pu_events q). Inr (ob_event_id r) \<noteq> x))"

inductive push_step :: "('d, 'a) lib_scheme \<Rightarrow> 'd server \<Rightarrow> 'd server \<Rightarrow> bool"
  for L :: "('d, 'a) lib_scheme" where
  begin_step: "sv_pushes s i = None \<Longrightarrow> pg_admits L t \<Longrightarrow> env_begin env = None \<Longrightarrow>
    push_step L s (s\<lparr>sv_pushes := (sv_pushes s)(i \<mapsto> start_push env t)\<rparr>)"
| refuse_step: "env_begin (env :: ingest_env) = Some e \<Longrightarrow>
    push_step L s (s\<lparr>sv_answers := sv_answers s @ [(t, Inl (''begin transaction: '' @ e))]\<rparr>)"
| insert_step: "sv_pushes s i = Some p \<Longrightarrow> pu_stage p = To_Insert \<Longrightarrow> row_free s i (pu_tx p) \<Longrightarrow>
    push_step L s (s\<lparr>sv_pushes := (sv_pushes s)(i \<mapsto> insert_push L (sv_db s) p)\<rparr>)"
| read_step: "sv_pushes s i = Some p \<Longrightarrow> pu_stage p = To_Read \<Longrightarrow>
    push_step L s (s\<lparr>sv_pushes := (sv_pushes s)(i \<mapsto> read_push L (sv_db s) p)\<rparr>)"
| queue_step: "sv_pushes s i = Some p \<Longrightarrow> pu_stage p = To_Queue \<Longrightarrow>
    event_free s i (env_event_id (pu_env p)) \<Longrightarrow> queue_push L (sv_db s) p = (p', d') \<Longrightarrow>
    push_step L s (s\<lparr>sv_pushes := (sv_pushes s)(i \<mapsto> p'), sv_db := d'\<rparr>)"
| end_step: "sv_pushes s i = Some p \<Longrightarrow> pu_stage p = To_End r \<Longrightarrow>
    end_push p r (sv_db s) = (x, d') \<Longrightarrow>
    push_step L s (s\<lparr>sv_pushes := (sv_pushes s)(i := None), sv_db := d',
      sv_answers := sv_answers s @ [(pu_tx p, x)]\<rparr>)"
| vanish_step: "sv_pushes s i = Some p \<Longrightarrow>
    push_step L s (s\<lparr>sv_pushes := (sv_pushes s)(i := None)\<rparr>)"

definition start_server :: "db \<Rightarrow> 'd server" where
  "start_server d = \<lparr>sv_db = d, sv_pushes = (\<lambda>i. None), sv_answers = []\<rparr>"

inductive push_reach :: "('d, 'a) lib_scheme \<Rightarrow> 'd server \<Rightarrow> 'd server \<Rightarrow> bool"
  for L :: "('d, 'a) lib_scheme" and s0 :: "'d server" where
  push_reach_start: "push_reach L s0 s0"
| push_reach_step: "push_reach L s0 s \<Longrightarrow> push_step L s s' \<Longrightarrow> push_reach L s0 s'"

section \<open>What the statements do\<close>

text \<open>The committed tables hold the transactions \<open>ts\<close>, in the order of their commits.\<close>

definition keeps :: "('d, 'a) lib_scheme \<Rightarrow> db \<Rightarrow> 'd transaction list \<Rightarrow> bool" where
  "keeps L d ts \<longleftrightarrow>
    db_transactions d = map (\<lambda>t. row_of L t (fingerprint L t)) ts
    \<and> list_all (pg_admits L) ts \<and> distinct (map key_of ts) \<and> distinct (map tx_id ts)
    \<and> map ob_aggregate_id (db_outbox d) = map tx_id ts
    \<and> distinct (map ob_event_id (db_outbox d))"

definition answer_known :: "('d, 'a) lib_scheme \<Rightarrow> 'd transaction \<Rightarrow> 'd transaction \<Rightarrow> 'd ingest_outcome" where
  "answer_known L u t =
    \<lparr>out_transaction = pg_view u, out_duplicate = True,
     out_divergent = (fingerprint L u \<noteq> fingerprint L t)\<rparr>"

text \<open>An answer that is no error: of the transaction itself, or of the one kept under its key.\<close>

definition answer_ok ::
  "('d, 'a) lib_scheme \<Rightarrow> 'd transaction list \<Rightarrow> 'd transaction \<Rightarrow> string + 'd ingest_outcome \<Rightarrow> bool" where
  "answer_ok L ts t r \<longleftrightarrow>
    (case r of Inl e \<Rightarrow> True
     | Inr out \<Rightarrow> out_duplicate out \<longrightarrow> (\<exists>u \<in> set ts. key_of u = key_of t \<and> out = answer_known L u t))"

text \<open>A push: what it has written fits its stage, and it has written one event for its row.\<close>

definition push_ok :: "('d, 'a) lib_scheme \<Rightarrow> 'd transaction list \<Rightarrow> 'd push \<Rightarrow> bool" where
  "push_ok L ts p \<longleftrightarrow>
    pg_admits L (pu_tx p)
    \<and> (pu_rows p = [] \<or> pu_rows p = [row_of L (pu_tx p) (fingerprint L (pu_tx p))])
    \<and> (pu_rows p \<noteq> [] \<longrightarrow> key_of (pu_tx p) \<notin> key_of ` set ts \<and> tx_id (pu_tx p) \<notin> tx_id ` set ts)
    \<and> (case pu_stage p of
        To_Insert \<Rightarrow> pu_rows p = [] \<and> pu_events p = []
      | To_Queue \<Rightarrow> pu_rows p \<noteq> [] \<and> pu_events p = []
      | To_Read \<Rightarrow> pu_rows p = [] \<and> pu_events p = [] \<and> key_of (pu_tx p) \<in> key_of ` set ts
      | To_End (Inl e) \<Rightarrow> pu_events p = []
      | To_End (Inr out) \<Rightarrow>
          if out_duplicate out then pu_rows p = [] \<and> pu_events p = [] \<and> answer_ok L ts (pu_tx p) (Inr out)
          else Inr out = answer_new (pu_tx p) \<and> pu_rows p \<noteq> []
            \<and> map ob_aggregate_id (pu_events p) = [tx_id (pu_tx p)])"

text \<open>Two pushes have written nothing unique in common.\<close>

definition apart :: "'d push \<Rightarrow> 'd push \<Rightarrow> bool" where
  "apart p q \<longleftrightarrow>
    (\<forall>r \<in> set (pu_rows p). \<forall>r' \<in> set (pu_rows q). row_key r \<noteq> row_key r' \<and> row_id r \<noteq> row_id r')
    \<and> (\<forall>e \<in> set (pu_events p). \<forall>e' \<in> set (pu_events q). ob_event_id e \<noteq> ob_event_id e')"

definition events_apart :: "db \<Rightarrow> 'd push \<Rightarrow> bool" where
  "events_apart d p \<longleftrightarrow> distinct (map ob_event_id (pu_events p))
    \<and> set (map ob_event_id (pu_events p)) \<inter> set (map ob_event_id (db_outbox d)) = {}"

definition server_ok :: "('d, 'a) lib_scheme \<Rightarrow> 'd transaction list \<Rightarrow> 'd server \<Rightarrow> bool" where
  "server_ok L ts s \<longleftrightarrow>
    keeps L (sv_db s) ts
    \<and> (\<forall>i p. sv_pushes s i = Some p \<longrightarrow> push_ok L ts p \<and> events_apart (sv_db s) p)
    \<and> (\<forall>i j p q. i \<noteq> j \<longrightarrow> sv_pushes s i = Some p \<longrightarrow> sv_pushes s j = Some q \<longrightarrow> apart p q)"

lemma apart_sym: "apart p q \<Longrightarrow> apart q p"
  unfolding apart_def by metis

lemma insert_push_cases:
  assumes "keeps L d ts" and "push_ok L ts p" and "pu_stage p = To_Insert"
  shows "push_ok L ts (insert_push L d p) \<and> pu_tx (insert_push L d p) = pu_tx p
    \<and> pu_events (insert_push L d p) = [] \<and> set (pu_rows (insert_push L d p))
        \<subseteq> {row_of L (pu_tx p) (fingerprint L (pu_tx p))}"
proof -
  let ?t = "pu_tx p" and ?row = "row_of L (pu_tx p) (fingerprint L (pu_tx p))"
  have p: "pg_admits L ?t" "pu_rows p = []" "pu_events p = []"
    using assms(2,3) by (auto simp: push_ok_def)
  have rows: "db_transactions d = map (\<lambda>t. row_of L t (fingerprint L t)) ts"
    using assms(1) by (simp add: keeps_def)
  consider (failed) e where "insert_push L d p = p\<lparr>pu_stage := To_End (Inl e)\<rparr>"
    | (new) "insert_push L d p = p\<lparr>pu_rows := [?row], pu_stage := To_Queue\<rparr>"
        "\<forall>q \<in> set (db_transactions d). row_key q \<noteq> row_key ?row \<and> row_id q \<noteq> row_id ?row"
    | (known) "insert_push L d p = p\<lparr>pu_stage := To_Read\<rparr>"
        "\<exists>q \<in> set (db_transactions d). row_key q = row_key ?row"
  proof (cases "env_insert (pu_env p)")
    case None
    show ?thesis
    proof (cases "insert_transaction ?row (db_transactions d)")
      case (Inl e)
      then show ?thesis using None that(1) by (simp add: insert_push_def Let_def)
    next
      case (Inr x)
      show ?thesis
      proof (cases x)
        case None
        then have "\<exists>q \<in> set (db_transactions d). row_key q = row_key ?row"
          using Inr insert_transaction_known by blast
        then show ?thesis using None Inr \<open>env_insert (pu_env p) = None\<close> that(3)
          by (simp add: insert_push_def Let_def)
      next
        case (Some rows')
        then have "\<forall>q \<in> set (db_transactions d). row_key q \<noteq> row_key ?row \<and> row_id q \<noteq> row_id ?row"
          using Inr insert_transaction_new by blast
        then show ?thesis using Some Inr None that(2) by (simp add: insert_push_def Let_def)
      qed
    qed
  next
    case (Some e)
    then show ?thesis using that(1) by (simp add: insert_push_def Let_def)
  qed
  then show ?thesis
  proof cases
    case failed
    then show ?thesis using p by (simp add: push_ok_def)
  next
    case new
    then show ?thesis using p by (auto simp: push_ok_def rows)
  next
    case known
    then have "key_of (pu_tx p) \<in> key_of ` set ts" unfolding rows by (auto simp: image_iff) metis
    then show ?thesis using known(1) p by (simp add: push_ok_def)
  qed
qed

lemma read_push_cases:
  assumes "keeps L d ts" and "push_ok L ts p" and "pu_stage p = To_Read"
  shows "push_ok L ts (read_push L d p)" and "pu_tx (read_push L d p) = pu_tx p"
    and "pu_rows (read_push L d p) = []" and "pu_events (read_push L d p) = []"
proof -
  have p: "pg_admits L (pu_tx p)" "pu_rows p = []" "pu_events p = []" "key_of (pu_tx p) \<in> key_of ` set ts"
    using assms(2,3) by (auto simp: push_ok_def)
  show "pu_tx (read_push L d p) = pu_tx p" "pu_rows (read_push L d p) = []" "pu_events (read_push L d p) = []"
    using p by (auto simp: read_push_def split: sum.splits prod.splits)
  show "push_ok L ts (read_push L d p)"
  proof (cases "env_select (pu_env p)")
    case None
    obtain u where u: "find (\<lambda>t. key_of t = key_of (pu_tx p)) ts = Some u"
      using p(4) find_key_None [of "key_of (pu_tx p)" ts] by fastforce
    then have "u \<in> set ts" "key_of u = key_of (pu_tx p)" by (auto simp: find_Some_iff)
    moreover have "get_by_key_tx L None d (key_of (pu_tx p)) = Inr (pg_view u, fingerprint L u)"
      using get_by_key_rows [of d L ts "key_of (pu_tx p)"] assms(1) u by (simp add: keeps_def)
    ultimately show ?thesis
      using p None by (auto simp: read_push_def push_ok_def answer_ok_def answer_known_def)
  next
    case (Some e)
    then show ?thesis using p by (simp add: read_push_def get_by_key_tx_def push_ok_def)
  qed
qed

lemma queue_push_cases:
  assumes "push_ok L ts p" and "pu_stage p = To_Queue" and "queue_push L d p = (p', d')"
  shows "push_ok L ts p'" and "pu_tx p' = pu_tx p" and "pu_rows p' = pu_rows p"
    and "same_tables d d'" and "events_apart d p'"
    and "\<forall>e \<in> set (pu_events p'). Inr (ob_event_id e) = env_event_id (pu_env p)"
proof -
  have p: "pg_admits L (pu_tx p)" "pu_rows p \<noteq> []" "pu_events p = []"
    using assms(1,2) by (auto simp: push_ok_def)
  obtain r d1 where w: "write_outbox_event L (pu_env p) d (pu_tx p) = (r, d1)" by fastforce
  note cases1 = write_outbox_event_cases [OF w]
  have all: "push_ok L ts p' \<and> pu_tx p' = pu_tx p \<and> pu_rows p' = pu_rows p \<and> same_tables d d' \<and> events_apart d p'
    \<and> (\<forall>e \<in> set (pu_events p'). Inr (ob_event_id e) = env_event_id (pu_env p))"
  proof (cases r)
    case None
    then obtain i e where e: "env_event_id (pu_env p) = Inr i" "new_transaction_received L (pu_tx p) i = Inr e"
        "\<forall>q \<in> set (db_outbox d). ob_event_id q \<noteq> i"
        "d1 = d\<lparr>db_outbox := db_outbox d @ [event_row (env_now (pu_env p)) (db_seq d) e],
                db_seq := Suc (db_seq d)\<rparr>"
      using cases1 by blast
    have "ev_aggregate_id e = tx_id (pu_tx p)" "ev_id e = i"
      using new_transaction_received_Inr [OF e(2)] by simp_all
    then show ?thesis
      using assms(1,3) w None p e
      by (auto simp: queue_push_def push_ok_def answer_new_def event_row_def same_tables_def events_apart_def)
  next
    case (Some e)
    then have "same_tables d d1" using cases1 by simp
    then show ?thesis
      using assms(1,3) Some w p by (auto simp: queue_push_def push_ok_def same_tables_def events_apart_def)
  qed
  then show "push_ok L ts p'" "pu_tx p' = pu_tx p" "pu_rows p' = pu_rows p"
    "same_tables d d'" "events_apart d p'"
    "\<forall>e \<in> set (pu_events p'). Inr (ob_event_id e) = env_event_id (pu_env p)" by blast+
qed

section \<open>The invariant\<close>

lemma server_okD:
  assumes "server_ok L ts s"
  shows "keeps L (sv_db s) ts"
    and "sv_pushes s i = Some p \<Longrightarrow> push_ok L ts p"
    and "sv_pushes s i = Some p \<Longrightarrow> events_apart (sv_db s) p"
    and "i \<noteq> j \<Longrightarrow> sv_pushes s i = Some p \<Longrightarrow> sv_pushes s j = Some q \<Longrightarrow> apart p q"
  using assms unfolding server_ok_def by blast+

lemma same_tables_keeps: "same_tables d d' \<Longrightarrow> keeps L d' ts \<longleftrightarrow> keeps L d ts"
  by (simp add: keeps_def same_tables_def)

lemma same_tables_events: "same_tables d d' \<Longrightarrow> events_apart d' p \<longleftrightarrow> events_apart d p"
  by (simp add: events_apart_def same_tables_def)

text \<open>One push goes on: the others are as they were.\<close>

lemma server_ok_update:
  assumes "server_ok L ts s" and "push_ok L ts p" and "events_apart (sv_db s) p"
    and "\<And>j q. j \<noteq> i \<Longrightarrow> sv_pushes s j = Some q \<Longrightarrow> apart p q" and "same_tables (sv_db s) d"
  shows "server_ok L ts (s\<lparr>sv_pushes := (sv_pushes s)(i \<mapsto> p), sv_db := d\<rparr>)"
proof -
  note ok = server_okD [OF assms(1)]
  have "apart a b" if "k \<noteq> j" "((sv_pushes s)(i \<mapsto> p)) k = Some a" "((sv_pushes s)(i \<mapsto> p)) j = Some b" for k j a b
    using that assms(4) ok(4) apart_sym by (cases "k = i"; cases "j = i") (auto split: if_splits)
  moreover have "push_ok L ts q \<and> events_apart d q" if "((sv_pushes s)(i \<mapsto> p)) j = Some q" for j q
    using that assms(2,3) ok(2,3) [of j q] same_tables_events [OF assms(5), of q] by (cases "j = i") auto
  ultimately show ?thesis
    using ok(1) same_tables_keeps [OF assms(5), of L ts] by (simp add: server_ok_def)
qed

lemma server_ok_drop:
  assumes "server_ok L ts s"
  shows "server_ok L ts (s\<lparr>sv_pushes := (sv_pushes s)(i := None)\<rparr>)"
  using assms by (auto simp: server_ok_def split: if_splits)

lemma server_ok_answers: "server_ok L ts (s\<lparr>sv_answers := a\<rparr>) \<longleftrightarrow> server_ok L ts s"
  by (simp add: server_ok_def)

text \<open>A commit: the push's row and event join the tables, and nothing any other push relies on changes.\<close>

lemma push_ok_extend:
  assumes "push_ok L ts q" and "\<forall>r \<in> set (pu_rows q). row_key r \<noteq> key_of t \<and> row_id r \<noteq> tx_id t"
  shows "push_ok L (ts @ [t]) q"
proof -
  have "answer_ok L ts u r \<Longrightarrow> answer_ok L (ts @ [t]) u r" for u r
    by (auto simp: answer_ok_def split: sum.splits)
  moreover have "pu_rows q \<noteq> [] \<Longrightarrow> key_of (pu_tx q) \<noteq> key_of t \<and> tx_id (pu_tx q) \<noteq> tx_id t"
    using assms by (auto simp: push_ok_def)
  ultimately show ?thesis
    using assms(1) by (auto simp: push_ok_def split: stage.splits sum.splits if_splits)
qed

lemma server_ok_commit:
  assumes "server_ok L ts s" and "sv_pushes s i = Some p" and "pu_stage p = To_End (Inr out)"
    and "\<not> out_duplicate out"
  shows "server_ok L (ts @ [pu_tx p])
    (s\<lparr>sv_pushes := (sv_pushes s)(i := None), sv_db := publish_push p (sv_db s)\<rparr>)"
proof -
  note ok = server_okD [OF assms(1)]
  let ?t = "pu_tx p"
  have p: "pg_admits L ?t" "pu_rows p = [row_of L ?t (fingerprint L ?t)]"
    "key_of ?t \<notin> key_of ` set ts" "tx_id ?t \<notin> tx_id ` set ts"
    "map ob_aggregate_id (pu_events p) = [tx_id ?t]"
    using ok(2) [OF assms(2)] assms(3,4) by (auto simp: push_ok_def)
  have fresh: "distinct (map ob_event_id (pu_events p))"
    "set (map ob_event_id (pu_events p)) \<inter> set (map ob_event_id (db_outbox (sv_db s))) = {}"
    using ok(3) [OF assms(2)] by (simp_all add: events_apart_def)
  have "keeps L (publish_push p (sv_db s)) (ts @ [?t])"
    using ok(1) p fresh by (simp add: keeps_def publish_push_def) blast
  moreover have "push_ok L (ts @ [?t]) q \<and> events_apart (publish_push p (sv_db s)) q"
    if q: "((sv_pushes s)(i := None)) j = Some q" for j q
  proof -
    have j: "j \<noteq> i" "sv_pushes s j = Some q" using q by (auto split: if_splits)
    then have a: "apart q p" using ok(4) assms(2) by blast
    then have "\<forall>r \<in> set (pu_rows q). row_key r \<noteq> key_of ?t \<and> row_id r \<noteq> tx_id ?t"
      by (simp add: apart_def p(2))
    moreover have "events_apart (publish_push p (sv_db s)) q"
      using ok(3) [OF j(2)] a by (auto simp: events_apart_def publish_push_def apart_def)
    ultimately show ?thesis using push_ok_extend ok(2) [OF j(2)] by blast
  qed
  ultimately show ?thesis
    using ok(4) by (auto simp: server_ok_def split: if_splits)
qed

section \<open>The answers\<close>

definition answered ::
  "('d, 'a) lib_scheme \<Rightarrow> 'd transaction list \<Rightarrow> 'd transaction \<Rightarrow> string + 'd ingest_outcome \<Rightarrow> bool" where
  "answered L ts t r \<longleftrightarrow>
    (case r of Inl e \<Rightarrow> True
     | Inr out \<Rightarrow>
         if out_duplicate out then \<exists>u \<in> set ts. key_of u = key_of t \<and> out = answer_known L u t
         else t \<in> set ts \<and> r = answer_new t)"

definition new_keys :: "('d transaction \<times> (string + 'd ingest_outcome)) list \<Rightarrow> key list" where
  "new_keys as =
    map (key_of \<circ> fst) (filter (\<lambda>(t, r). case r of Inl e \<Rightarrow> False | Inr out \<Rightarrow> \<not> out_duplicate out) as)"

definition answers_ok :: "('d, 'a) lib_scheme \<Rightarrow> 'd transaction list \<Rightarrow> 'd server \<Rightarrow> bool" where
  "answers_ok L ts s \<longleftrightarrow> list_all (\<lambda>(t, r). answered L ts t r) (sv_answers s)
    \<and> distinct (new_keys (sv_answers s)) \<and> set (new_keys (sv_answers s)) \<subseteq> key_of ` set ts"

lemma new_keys_snoc:
  "new_keys (as @ [(t, r)]) = new_keys as
    @ (case r of Inl e \<Rightarrow> [] | Inr out \<Rightarrow> if out_duplicate out then [] else [key_of t])"
  by (cases r) (simp_all add: new_keys_def)

lemma answers_ok_same:
  "sv_answers s' = sv_answers s \<Longrightarrow> answers_ok L ts s' \<longleftrightarrow> answers_ok L ts s"
  by (simp add: answers_ok_def)

lemma answered_extend: "answered L ts t r \<Longrightarrow> answered L (ts @ us) t r"
  by (auto simp: answered_def split: sum.splits if_splits)

text \<open>One more answer: an error, a duplicate of what is kept, or the new transaction just kept.\<close>

lemma answers_ok_add:
  assumes "answers_ok L ts s" and "answered L (ts @ us) t r"
    and "case r of Inl e \<Rightarrow> True | Inr out \<Rightarrow> out_duplicate out \<or> key_of t \<notin> key_of ` set ts"
    and "sv_answers s' = sv_answers s @ [(t, r)]"
  shows "answers_ok L (ts @ us) s'"
proof -
  have "list_all (\<lambda>(t, r). answered L (ts @ us) t r) (sv_answers s)"
    using assms(1) answered_extend by (fastforce simp: answers_ok_def list_all_iff)
  moreover have "key_of t \<in> key_of ` set (ts @ us)" if "r = Inr out" "\<not> out_duplicate out" for out
    using assms(2) that by (simp add: answered_def)
  ultimately show ?thesis
    using assms by (cases r) (auto simp: answers_ok_def new_keys_snoc)
qed

lemma answers_ok_error:
  assumes "answers_ok L ts s" and "sv_answers s' = sv_answers s @ [(t, Inl e)]"
  shows "answers_ok L (ts @ us) s'"
  by (rule answers_ok_add [OF assms(1) _ _ assms(2)]) (simp_all add: answered_def)

lemma end_step_ok:
  assumes "server_ok L ts s" and "answers_ok L ts s" and "sv_pushes s i = Some p"
    and "pu_stage p = To_End r" and "end_push p r (sv_db s) = (x, d')"
  defines "s' \<equiv> s\<lparr>sv_pushes := (sv_pushes s)(i := None), sv_db := d',
    sv_answers := sv_answers s @ [(pu_tx p, x)]\<rparr>"
  shows "\<exists>us. server_ok L (ts @ us) s' \<and> answers_ok L (ts @ us) s'"
proof -
  let ?s = "\<lambda>d. s\<lparr>sv_pushes := (sv_pushes s)(i := None), sv_db := d\<rparr>"
  have ok: "push_ok L ts p" by (rule server_okD(2) [OF assms(1,3)])
  have s': "server_ok L us s' \<longleftrightarrow> server_ok L us (?s d')" for us
    by (simp add: s'_def server_ok_def)
  have same: "server_ok L ts (?s (sv_db s))" using server_ok_drop [OF assms(1), of i] by simp
  have log: "sv_answers s' = sv_answers s @ [(pu_tx p, x)]" by (simp add: s'_def)
  show ?thesis
  proof (cases r)
    case (Inl e)
    then have "x = Inl e" "d' = sv_db s" using assms(5) by (simp_all add: end_push_def)
    then show ?thesis
      using same answers_ok_error [OF assms(2), of s' "pu_tx p" e "[]"] log
      by (intro exI [of _ "[]"]) (simp add: s')
  next
    case (Inr out)
    show ?thesis
    proof (cases "out_duplicate out")
      case True
      then have p: "pu_rows p = []" "pu_events p = []" "answer_ok L ts (pu_tx p) (Inr out)"
        using ok assms(4) Inr by (simp_all add: push_ok_def)
      then have "d' = sv_db s" "x = Inr out \<or> (\<exists>e. x = Inl e)"
        using assms(5) Inr by (auto simp: end_push_def publish_push_def split: commit_result.splits)
      moreover have "answered L (ts @ []) (pu_tx p) (Inr out)"
        using p(3) True by (simp add: answer_ok_def answered_def)
      ultimately show ?thesis
        using same answers_ok_error [OF assms(2), of s' "pu_tx p" _ "[]"] log True
          answers_ok_add [OF assms(2), of "[]" "pu_tx p" x s']
        by (intro exI [of _ "[]"]) (auto simp: s')
    next
      case False
      have new: "Inr out = answer_new (pu_tx p)" "key_of (pu_tx p) \<notin> key_of ` set ts"
        using ok assms(4) Inr False by (auto simp: push_ok_def)
      have commit: "server_ok L (ts @ [pu_tx p]) (?s (publish_push p (sv_db s)))"
        by (rule server_ok_commit [OF assms(1,3) assms(4) [unfolded Inr] False])
      show ?thesis
      proof (cases "env_commit (pu_env p)")
        case Commit_Done
        then have "x = Inr out" "d' = publish_push p (sv_db s)"
          using assms(5) Inr by (simp_all add: end_push_def)
        moreover have "answered L (ts @ [pu_tx p]) (pu_tx p) (Inr out)"
          using new(1) False by (simp add: answered_def answer_new_def)
        ultimately have "answers_ok L (ts @ [pu_tx p]) s'"
          using answers_ok_add [OF assms(2), of "[pu_tx p]" "pu_tx p" x s'] log new(2) by simp
        then show ?thesis
          using commit \<open>d' = publish_push p (sv_db s)\<close> by (intro exI [of _ "[pu_tx p]"]) (simp add: s')
      next
        case (Commit_Refused e)
        then have "x = Inl (''commit transaction: '' @ e)" "d' = sv_db s"
          using assms(5) Inr by (simp_all add: end_push_def)
        then show ?thesis
          using same answers_ok_error [OF assms(2), of s' "pu_tx p" _ "[]"] log
          by (intro exI [of _ "[]"]) (simp add: s')
      next
        case (Commit_Unacknowledged e)
        then have "x = Inl (''commit transaction: '' @ e)" "d' = publish_push p (sv_db s)"
          using assms(5) Inr by (simp_all add: end_push_def)
        then show ?thesis
          using commit answers_ok_error [OF assms(2), of s' "pu_tx p" _ "[pu_tx p]"] log
          by (intro exI [of _ "[pu_tx p]"]) (simp add: s')
      qed
    qed
  qed
qed

lemma push_step_ok:
  assumes "push_step L s s'" and "server_ok L ts s" and "answers_ok L ts s"
  shows "\<exists>us. server_ok L (ts @ us) s' \<and> answers_ok L (ts @ us) s'"
  using assms(1)
proof cases
  case (begin_step i t env)
  have "server_ok L ts (s\<lparr>sv_pushes := (sv_pushes s)(i \<mapsto> start_push env t), sv_db := sv_db s\<rparr>)"
    by (rule server_ok_update [OF assms(2)])
       (use begin_step in \<open>simp_all add: start_push_def push_ok_def events_apart_def apart_def\<close>)
  then show ?thesis
    using assms(3) by (intro exI [of _ "[]"]) (simp add: begin_step(1) answers_ok_def)
next
  case (refuse_step env e t)
  then show ?thesis
    using assms(2) answers_ok_error [OF assms(3), of s' t _ "[]"]
    by (intro exI [of _ "[]"]) (simp add: server_ok_answers)
next
  case (insert_step i p)
  note ok = server_okD [OF assms(2)]
  note ins = insert_push_cases [OF ok(1) ok(2) [OF insert_step(2)] insert_step(3)]
  have "server_ok L ts (s\<lparr>sv_pushes := (sv_pushes s)(i \<mapsto> insert_push L (sv_db s) p), sv_db := sv_db s\<rparr>)"
  proof (rule server_ok_update [OF assms(2)])
    show "apart (insert_push L (sv_db s) p) q" if "j \<noteq> i" "sv_pushes s j = Some q" for j q
      using ins insert_step(4) that by (fastforce simp: apart_def row_free_def)
  qed (use ins in \<open>simp_all add: events_apart_def\<close>)
  then show ?thesis
    using assms(3) by (intro exI [of _ "[]"]) (simp add: insert_step(1) answers_ok_def)
next
  case (read_step i p)
  note ok = server_okD [OF assms(2)]
  note read = read_push_cases [OF ok(1) ok(2) [OF read_step(2)] read_step(3)]
  have "server_ok L ts (s\<lparr>sv_pushes := (sv_pushes s)(i \<mapsto> read_push L (sv_db s) p), sv_db := sv_db s\<rparr>)"
    by (rule server_ok_update [OF assms(2)])
       (use read in \<open>simp_all add: events_apart_def apart_def\<close>)
  then show ?thesis
    using assms(3) by (intro exI [of _ "[]"]) (simp add: read_step(1) answers_ok_def)
next
  case (queue_step i p p' d')
  note ok = server_okD [OF assms(2)]
  note q = queue_push_cases [OF ok(2) [OF queue_step(2)] queue_step(3,5)]
  have "server_ok L ts (s\<lparr>sv_pushes := (sv_pushes s)(i \<mapsto> p'), sv_db := d'\<rparr>)"
  proof (rule server_ok_update [OF assms(2) q(1,5) _ q(4)])
    show "apart p' r" if "j \<noteq> i" "sv_pushes s j = Some r" for j r
      using ok(4) [OF that(1)] that queue_step(2,4) q(3,6)
      by (fastforce simp: apart_def event_free_def)
  qed
  then show ?thesis
    using assms(3) by (intro exI [of _ "[]"]) (simp add: queue_step(1) answers_ok_def)
next
  case (end_step i p r x d')
  then show ?thesis using end_step_ok [OF assms(2,3)] by blast
next
  case (vanish_step i p)
  then show ?thesis
    using server_ok_drop [OF assms(2), of i] assms(3) by (intro exI [of _ "[]"]) (simp add: answers_ok_def)
qed

lemma push_reach_ok:
  assumes "push_reach L (start_server d) s" and "keeps L d ts"
  shows "\<exists>us. server_ok L (ts @ us) s \<and> answers_ok L (ts @ us) s"
  using assms(1)
proof induction
  case push_reach_start
  have "server_ok L ts (start_server d)" "answers_ok L ts (start_server d)"
    using assms(2) by (simp_all add: start_server_def server_ok_def answers_ok_def new_keys_def)
  then show ?case by (intro exI [of _ "[]"]) simp
next
  case (push_reach_step s s')
  then show ?case using push_step_ok by (metis append.assoc)
qed

text \<open>C9: First write wins among pushes that run at the same time: whatever the interleaving of their
  statements, whatever fails and whichever vanish, the tables hold the transactions they held and
  the ones committed since, under different keys and ids and each with exactly one outbox event;
  no two pushes of a key are answered as new, one that is was stored as it is, and every other
  answer is an error or the record of the transaction kept under the key, divergent exactly when
  the fingerprint is another.\<close>

theorem concurrent_pushes_first_write_wins:
  assumes "push_reach L (start_server d) s" and "keeps L d ts"
  shows "\<exists>us. keeps L (sv_db s) (ts @ us) \<and> distinct (new_keys (sv_answers s))
    \<and> list_all (\<lambda>(t, r). answered L (ts @ us) t r) (sv_answers s)"
  using push_reach_ok [OF assms] unfolding server_ok_def answers_ok_def by blast

text \<open>Two pushes of one key: the second inserts while the first has not committed, so it waits.\<close>

definition demo_again :: "refdec transaction" where
  "demo_again = demo_tx\<lparr>tx_id := 8\<rparr>"

definition call :: "nat \<Rightarrow> ingest_env" where
  "call n = fst (demo_env (of_nat n))"

definition inserted :: "refdec push" where
  "inserted = (start_push (call 40) demo_tx)
    \<lparr>pu_rows := [row_of ref_lib demo_tx (fingerprint ref_lib demo_tx)], pu_stage := To_Queue\<rparr>"

lemma demo_inserted: "insert_push ref_lib db_empty (start_push (call 40) demo_tx) = inserted"
  by (simp add: insert_push_def inserted_def start_push_def call_def demo_env_def Let_def
      insert_transaction_def demo_row db_empty_def)

lemma demo_queued:
  "\<exists>e. queue_push ref_lib db_empty inserted
    = (inserted\<lparr>pu_events := [e], pu_stage := To_End (answer_new demo_tx)\<rparr>, db_empty\<lparr>db_seq := 2\<rparr>)"
proof -
  have "time_json_ok (time_utc (tx_occurred_at demo_tx))"
    "time_json_ok (time_utc (tx_received_at demo_tx))" by code_simp+
  then obtain e where "new_transaction_received ref_lib demo_tx 40 = Inr e"
    by (simp add: new_transaction_received_def)
  then show ?thesis
    by (simp add: queue_push_def write_outbox_event_def inserted_def start_push_def call_def
        demo_env_def insert_outbox_event_def Let_def db_empty_def)
qed

lemma demo_again_row: "row_error (row_of ref_lib demo_again (fingerprint ref_lib demo_again)) = None"
proof -
  have "row_of ref_lib demo_again [] = (row_of ref_lib demo_tx [])\<lparr>row_id := 8\<rparr>"
    by (simp add: demo_again_def row_of_def plate_number_def plate_jurisdiction_def
        plate_number_key_def plate_jurisdiction_key_def transponder_number_def transponder_number_key_def)
  moreover have "row_error (row_of ref_lib demo_tx []) = None"
    using demo_row by (simp only: row_error_fingerprint)
  moreover have "row_error (r\<lparr>row_id := i\<rparr>) = row_error r" for r i
    by (simp add: row_error_def row_texts_ok_def)
  ultimately show ?thesis unfolding row_error_fingerprint by simp
qed

lemma demo_again_key: "key_of demo_again = key_of demo_tx"
  by (simp add: demo_again_def key_of_eq_iff)

lemma demo_known:
  assumes "db_transactions d = [row_of ref_lib demo_tx (fingerprint ref_lib demo_tx)]"
  defines "p \<equiv> start_push (call 41) demo_again"
  shows "insert_push ref_lib d p = p\<lparr>pu_stage := To_Read\<rparr>"
    and "read_push ref_lib d (p\<lparr>pu_stage := To_Read\<rparr>)
      = p\<lparr>pu_stage := To_End (Inr (answer_known ref_lib demo_tx demo_again))\<rparr>"
proof -
  show "insert_push ref_lib d p = p\<lparr>pu_stage := To_Read\<rparr>"
    using demo_again_row assms(1) demo_again_key
    by (simp add: p_def insert_push_def start_push_def call_def demo_env_def Let_def insert_transaction_def)
  have "get_by_key_tx ref_lib None d (key_of demo_again) = Inr (pg_view demo_tx, fingerprint ref_lib demo_tx)"
    using get_by_key_rows [of d ref_lib "[demo_tx]" "key_of demo_again"] assms(1) demo_tx_admits demo_again_key
    by simp
  then show "read_push ref_lib d (p\<lparr>pu_stage := To_Read\<rparr>)
      = p\<lparr>pu_stage := To_End (Inr (answer_known ref_lib demo_tx demo_again))\<rparr>"
    by (simp add: p_def read_push_def start_push_def call_def demo_env_def answer_known_def)
qed

definition two :: "db \<Rightarrow> refdec push option \<Rightarrow> refdec push option
    \<Rightarrow> (refdec transaction \<times> (string + refdec ingest_outcome)) list \<Rightarrow> refdec server" where
  "two d a b as =
    \<lparr>sv_db = d, sv_pushes = (\<lambda>i. if i = 0 then a else if i = 1 then b else None), sv_answers = as\<rparr>"

lemma two_simps [simp]:
  "sv_db (two d a b as) = d" "sv_answers (two d a b as) = as"
  "sv_pushes (two d a b as) 0 = a" "sv_pushes (two d a b as) (Suc 0) = b"
  by (simp_all add: two_def)

lemma two_steps [simp]:
  "two d a b as\<lparr>sv_pushes := (sv_pushes (two d a b as))(0 := x)\<rparr> = two d x b as"
  "two d a b as\<lparr>sv_pushes := (sv_pushes (two d a b as))(Suc 0 := x)\<rparr> = two d a x as"
  "two d a b as\<lparr>sv_db := d'\<rparr> = two d' a b as"
  "two d a b as\<lparr>sv_answers := as'\<rparr> = two d a b as'"
  by (auto simp: two_def fun_eq_iff)

lemma demo_again_admits: "pg_admits ref_lib demo_again"
  using demo_tx_admits by (simp add: pg_admits_def demo_again_def tx_ok_def has_plate_def has_transponder_def)

lemma call_simps [simp]: "env_begin (call n) = None" "env_commit (call n) = Commit_Done"
  by (simp_all add: call_def demo_env_def)

lemma demo_both_open:
  "push_reach ref_lib (start_server db_empty)
    (two db_empty (Some (start_push (call 40) demo_tx)) (Some (start_push (call 41) demo_again)) [])"
proof -
  let ?L = ref_lib and ?first = "start_push (call 40) demo_tx"
  have r0: "push_reach ?L (start_server db_empty) (two db_empty None None [])"
  proof -
    have "two db_empty None None [] = start_server db_empty" by (simp add: two_def start_server_def fun_eq_iff)
    then show ?thesis using push_reach_start by metis
  qed
  have r1: "push_reach ?L (start_server db_empty) (two db_empty (Some ?first) None [])"
    by (rule push_reach_step [OF r0])
       (use begin_step [of "two db_empty None None []" 0 ?L demo_tx "call 40"] demo_tx_admits
         in \<open>simp\<close>)
  show ?thesis
    by (rule push_reach_step [OF r1])
       (use begin_step [of "two db_empty (Some ?first) None []" "Suc 0" ?L demo_again "call 41"] demo_again_admits
         in \<open>simp\<close>)
qed

lemma demo_race:
  "\<exists>s. push_reach ref_lib (start_server db_empty) s
    \<and> sv_answers s = [(demo_tx, answer_new demo_tx), (demo_again, Inr (answer_known ref_lib demo_tx demo_again))]"
proof -
  let ?L = ref_lib and ?first = "start_push (call 40) demo_tx" and ?mid = "db_empty\<lparr>db_seq := 2\<rparr>"
  let ?one = "[(demo_tx, answer_new demo_tx)]" and ?k = "answer_known ref_lib demo_tx demo_again"
  obtain e where queued: "queue_push ?L db_empty inserted
      = (inserted\<lparr>pu_events := [e], pu_stage := To_End (answer_new demo_tx)\<rparr>, ?mid)"
    using demo_queued by blast
  define p where "p = start_push (call 41) demo_again"
  define q where "q = inserted\<lparr>pu_events := [e], pu_stage := To_End (answer_new demo_tx)\<rparr>"
  define d where "d = publish_push q ?mid"
  have "db_transactions d = [row_of ?L demo_tx (fingerprint ?L demo_tx)]"
    by (simp add: d_def q_def inserted_def publish_push_def db_empty_def)
  note known = demo_known [OF this, folded p_def]
  have free: "row_free (two x None b as) (Suc 0) t" "row_free (two x a (Some p) as) 0 t"
    "event_free (two x a (Some p) as) 0 y" for x a b as t y
    by (auto simp: row_free_def event_free_def two_def p_def)
  have r2: "push_reach ?L (start_server db_empty) (two db_empty (Some ?first) (Some p) [])"
    unfolding p_def by (rule demo_both_open)
  have r3: "push_reach ?L (start_server db_empty) (two db_empty (Some inserted) (Some p) [])"
    by (rule push_reach_step [OF r2])
       (use insert_step [of "two db_empty (Some ?first) (Some p) []" 0 ?first ?L] free(2)
         in \<open>simp add: demo_inserted\<close>)
  have r4: "push_reach ?L (start_server db_empty) (two ?mid (Some q) (Some p) [])"
    by (rule push_reach_step [OF r3])
       (use queue_step [of "two db_empty (Some inserted) (Some p) []" 0 inserted ?L q ?mid] free(3) queued
         in \<open>simp add: q_def inserted_def\<close>)
  have r5: "push_reach ?L (start_server db_empty) (two d None (Some p) ?one)"
    by (rule push_reach_step [OF r4])
       (use end_step [of "two ?mid (Some q) (Some p) []" 0 q "answer_new demo_tx" "answer_new demo_tx" d ?L]
         in \<open>simp add: q_def inserted_def end_push_def d_def answer_new_def\<close>)
  have r6: "push_reach ?L (start_server db_empty) (two d None (Some (p\<lparr>pu_stage := To_Read\<rparr>)) ?one)"
    by (rule push_reach_step [OF r5])
       (use insert_step [of "two d None (Some p) ?one" "Suc 0" p ?L] free(1) known(1)
         in \<open>simp add: p_def\<close>)
  have r7: "push_reach ?L (start_server db_empty) (two d None (Some (p\<lparr>pu_stage := To_End (Inr ?k)\<rparr>)) ?one)"
    by (rule push_reach_step [OF r6])
       (use read_step [of "two d None (Some (p\<lparr>pu_stage := To_Read\<rparr>)) ?one" "Suc 0" "p\<lparr>pu_stage := To_Read\<rparr>" ?L]
          known(2) in \<open>simp\<close>)
  let ?p = "p\<lparr>pu_stage := To_End (Inr ?k)\<rparr>"
  have "end_push ?p (Inr ?k) d = (Inr ?k, publish_push ?p d)"
    by (simp add: end_push_def p_def)
  then have "push_reach ?L (start_server db_empty) (two (publish_push ?p d) None None (?one @ [(demo_again, Inr ?k)]))"
    by (intro push_reach_step [OF r7])
       (use end_step [of "two d None (Some ?p) ?one" "Suc 0" ?p "Inr ?k" "Inr ?k" "publish_push ?p d" ?L]
         in \<open>simp add: p_def\<close>)
  then show ?thesis by (intro exI) (auto intro: exI)
qed

theorem concurrent_pushes_first_write_wins_witness:
  "\<exists>s us. push_reach ref_lib (start_server db_empty) s \<and> keeps ref_lib (sv_db s) us
    \<and> sv_answers s = [(demo_tx, answer_new demo_tx), (demo_again, Inr (answer_known ref_lib demo_tx demo_again))]
    \<and> distinct (new_keys (sv_answers s)) \<and> demo_tx \<in> set us"
proof -
  obtain s where s: "push_reach ref_lib (start_server db_empty) s"
    "sv_answers s = [(demo_tx, answer_new demo_tx), (demo_again, Inr (answer_known ref_lib demo_tx demo_again))]"
    using demo_race by blast
  have "keeps ref_lib db_empty []" by (simp add: keeps_def db_empty_def)
  then obtain us where us: "keeps ref_lib (sv_db s) ([] @ us)" "distinct (new_keys (sv_answers s))"
    "list_all (\<lambda>(t, r). answered ref_lib ([] @ us) t r) (sv_answers s)"
    using concurrent_pushes_first_write_wins [OF s(1)] by blast
  then have "demo_tx \<in> set us" by (simp add: s(2) answered_def answer_new_def)
  with us(1) have "keeps ref_lib (sv_db s) us \<and> demo_tx \<in> set us" by simp
  with s us(2) show ?thesis by blast
qed

end
