(* ===== verification/Push_Progress.thy ===== *)
theory Push_Progress
  imports Concurrent_Pushes
begin

text \<open>
  Concurrent pushes get done. A statement of \<open>Ingest\<close> may wait for the transaction that has written
  its unique value, and the waiting never closes a circle: the pushes that others wait for go on by
  themselves. A step of work is a step of a push under way that neither begins a push nor lets one
  vanish.
\<close>

section \<open>Work\<close>

definition work_step :: "('d, 'a) lib_scheme \<Rightarrow> 'd server \<Rightarrow> 'd server \<Rightarrow> bool" where
  "work_step L s s' \<longleftrightarrow> push_step L s s'
    \<and> length (sv_answers s') + card (dom (sv_pushes s')) = length (sv_answers s) + card (dom (sv_pushes s))"

text \<open>The statements a push has in front of it at most, its end included.\<close>

fun stage_left :: "'d stage \<Rightarrow> nat" where
  "stage_left To_Insert = 3"
| "stage_left To_Queue = 2"
| "stage_left To_Read = 2"
| "stage_left (To_End r) = 1"

definition push_of :: "'d server \<Rightarrow> nat \<Rightarrow> 'd push" where
  "push_of s i = the (sv_pushes s i)"

definition work_left :: "'d server \<Rightarrow> nat" where
  "work_left s = (\<Sum>i \<in> dom (sv_pushes s). stage_left (pu_stage (push_of s i)))"

text \<open>The transactions that have no answer yet.\<close>

definition open_txs :: "'d server \<Rightarrow> 'd transaction multiset" where
  "open_txs s = image_mset (\<lambda>i. pu_tx (push_of s i)) (mset_set (dom (sv_pushes s)))"

definition all_txs :: "'d server \<Rightarrow> 'd transaction multiset" where
  "all_txs s = mset (map fst (sv_answers s)) + open_txs s"

lemma stage_left_bounds: "1 \<le> stage_left st \<and> stage_left st \<le> 3"
  by (cases st) simp_all

lemma work_left_bound: "finite (dom (sv_pushes s)) \<Longrightarrow> work_left s \<le> 3 * card (dom (sv_pushes s))"
  unfolding work_left_def using stage_left_bounds sum_bounded_above [of "dom (sv_pushes s)" _ 3]
  by (metis mult.commute of_nat_id)

text \<open>What the statements do to the stage of a push; its transaction stays.\<close>

lemma insert_push_left:
  "pu_tx (insert_push L d p) = pu_tx p" "stage_left (pu_stage (insert_push L d p)) \<le> 2"
  by (auto simp: insert_push_def Let_def split: option.splits sum.splits)

lemma read_push_left:
  "pu_tx (read_push L d p) = pu_tx p" "stage_left (pu_stage (read_push L d p)) = 1"
  by (auto simp: read_push_def split: sum.splits)

lemma queue_push_left:
  "queue_push L d p = (p', d') \<Longrightarrow> pu_tx p' = pu_tx p \<and> stage_left (pu_stage p') = 1"
  by (auto simp: queue_push_def split: prod.splits option.splits)

section \<open>One step\<close>

lemma sum_less_at:
  assumes "finite A" and "i \<in> A" and "f i < (g i :: nat)" and "\<And>j. j \<in> A \<Longrightarrow> j \<noteq> i \<Longrightarrow> f j = g j"
  shows "sum f A < sum g A"
  using assms by (intro sum_strict_mono_ex1) (auto simp: le_less)

text \<open>A push goes on: the others are as they were, and there is less left to do.\<close>

lemma go_on:
  assumes "finite (dom (sv_pushes s))" and "sv_pushes s i = Some p" and "pu_tx q = pu_tx p"
    and "stage_left (pu_stage q) < stage_left (pu_stage p)"
    and "sv_pushes s' = (sv_pushes s)(i \<mapsto> q)" and "sv_answers s' = sv_answers s"
  shows "work_left s' < work_left s" and "all_txs s' = all_txs s" and "dom (sv_pushes s') = dom (sv_pushes s)"
proof -
  show dom: "dom (sv_pushes s') = dom (sv_pushes s)" using assms(2,5) by auto
  show "work_left s' < work_left s"
    unfolding work_left_def dom using assms
    by (intro sum_less_at [of _ i]) (auto simp: push_of_def)
  have "open_txs s' = open_txs s"
    unfolding open_txs_def dom using assms(1,2,3,5)
    by (intro image_mset_cong) (auto simp: push_of_def)
  then show "all_txs s' = all_txs s" by (simp add: all_txs_def assms(6))
qed

text \<open>A push ends: its transaction goes from the open ones to the answered ones.\<close>

lemma ends:
  assumes "finite (dom (sv_pushes s))" and "sv_pushes s i = Some p"
    and "sv_pushes s' = (sv_pushes s)(i := None)" and "sv_answers s' = sv_answers s @ [(pu_tx p, x)]"
  shows "work_left s' < work_left s" and "all_txs s' = all_txs s"
    and "card (dom (sv_pushes s)) = Suc (card (dom (sv_pushes s')))"
proof -
  let ?D = "dom (sv_pushes s)"
  have dom: "dom (sv_pushes s') = ?D - {i}" using assms(3) by simp
  have i: "i \<in> ?D" using assms(2) by auto
  show "card ?D = Suc (card (dom (sv_pushes s')))"
    unfolding dom by (rule card.remove [OF assms(1) i])
  have others: "push_of s' j = push_of s j" if "j \<in> ?D - {i}" for j
    using that assms(3) by (simp add: push_of_def)
  have "work_left s = stage_left (pu_stage (push_of s i)) + work_left s'"
    unfolding work_left_def dom using sum.remove [OF assms(1) i] others by simp
  then show "work_left s' < work_left s" using stage_left_bounds [of "pu_stage (push_of s i)"] by simp
  have "mset_set ?D = add_mset i (mset_set (?D - {i}))"
    using assms(1) i by (metis finite_Diff insert_Diff mset_set.insert Diff_iff singletonI)
  then have "open_txs s = add_mset (pu_tx p) (open_txs s')"
    unfolding open_txs_def dom using others assms(1,2)
    by (auto simp: push_of_def intro!: image_mset_cong)
  then show "all_txs s' = all_txs s" by (simp add: all_txs_def assms(4))
qed

lemma work_step_effect:
  assumes "work_step L s s'" and "finite (dom (sv_pushes s))"
  shows "finite (dom (sv_pushes s')) \<and> work_left s' < work_left s \<and> all_txs s' = all_txs s"
proof -
  from assms(1) have step: "push_step L s s'"
    and count: "length (sv_answers s') + card (dom (sv_pushes s')) = length (sv_answers s) + card (dom (sv_pushes s))"
    by (simp_all add: work_step_def)
  from step show ?thesis
  proof cases
    case (begin_step i t env)
    then have "dom (sv_pushes s') = insert i (dom (sv_pushes s))" "i \<notin> dom (sv_pushes s)" by auto
    then show ?thesis using count assms(2) begin_step by simp
  next
    case (refuse_step env e t)
    then show ?thesis using count by simp
  next
    case (insert_step i p)
    then show ?thesis
      using go_on [OF assms(2) insert_step(2) insert_push_left(1) [of L "sv_db s"], of s']
        insert_push_left(2) [of L "sv_db s" p] assms(2) by simp
  next
    case (read_step i p)
    then show ?thesis
      using go_on [OF assms(2) read_step(2) read_push_left(1) [of L "sv_db s"], of s']
        read_push_left(2) [of L "sv_db s" p] assms(2) by simp
  next
    case (queue_step i p p' d')
    then show ?thesis
      using go_on [OF assms(2) queue_step(2), of p' s'] queue_push_left [OF queue_step(5)] assms(2) by simp
  next
    case (end_step i p r x d')
    then show ?thesis using ends [OF assms(2) end_step(2)] assms(2) by simp
  next
    case (vanish_step i p)
    then have "i \<in> dom (sv_pushes s)" "dom (sv_pushes s') = dom (sv_pushes s) - {i}" by auto
    with card_Suc_Diff1 [OF assms(2)]
    have "Suc (card (dom (sv_pushes s'))) = card (dom (sv_pushes s))" by metis
    then show ?thesis using count vanish_step by simp
  qed
qed

section \<open>No deadlock\<close>

text \<open>
  Only a push that is about to end has written an event, so whoever queues one waits for nobody
  when no push is about to end; and a push that has not inserted has written nothing at all.
\<close>

lemma someone_goes_on:
  assumes "server_ok L ts s" and "finite (dom (sv_pushes s))" and "dom (sv_pushes s) \<noteq> {}"
  shows "\<exists>s'. work_step L s s'"
proof -
  note ok = server_okD(2) [OF assms(1)]
  have step: "work_step L s s'" if "push_step L s s'" "dom (sv_pushes s') = dom (sv_pushes s)"
    "sv_answers s' = sv_answers s" for s'
    using that by (simp add: work_step_def)
  consider (finish) i p r where "sv_pushes s i = Some p" "pu_stage p = To_End r"
    | (read) i p where "sv_pushes s i = Some p" "pu_stage p = To_Read"
    | (queue) i p where "sv_pushes s i = Some p" "pu_stage p = To_Queue"
        "\<forall>j q. sv_pushes s j = Some q \<longrightarrow> (\<forall>r. pu_stage q \<noteq> To_End r)"
    | (insert) i p where "sv_pushes s i = Some p" "pu_stage p = To_Insert"
        "\<forall>j q. sv_pushes s j = Some q \<longrightarrow> pu_stage q = To_Insert"
    using assms(3) by (metis domD ex_in_conv stage.exhaust)
  then show ?thesis
  proof cases
    case finish
    obtain x d' where e: "end_push p r (sv_db s) = (x, d')" by fastforce
    let ?s = "s\<lparr>sv_pushes := (sv_pushes s)(i := None), sv_db := d',
      sv_answers := sv_answers s @ [(pu_tx p, x)]\<rparr>"
    have "push_step L s ?s" by (rule end_step [OF finish e])
    moreover have "card (dom (sv_pushes s)) = Suc (card (dom (sv_pushes ?s)))"
      by (rule ends(3) [OF assms(2) finish(1), of _ x]) simp_all
    ultimately have "work_step L s ?s" by (simp add: work_step_def)
    then show ?thesis ..
  next
    case read
    then show ?thesis using step [OF read_step [OF read]] by auto
  next
    case queue
    obtain p' d' where q: "queue_push L (sv_db s) p = (p', d')" by fastforce
    have "pu_events r = []" if "sv_pushes s j = Some r" for j r
      using ok [OF that] queue(3) that by (cases "pu_stage r") (auto simp: push_ok_def)
    then have "event_free s i (env_event_id (pu_env p))" by (auto simp: event_free_def)
    then show ?thesis using step [OF queue_step [OF queue(1,2) _ q]] queue(1) by auto
  next
    case insert
    have "pu_rows r = []" if "sv_pushes s j = Some r" for j r
      using ok [OF that] insert(3) that by (auto simp: push_ok_def)
    then have "row_free s i (pu_tx p)" by (auto simp: row_free_def)
    then show ?thesis using step [OF insert_step [OF insert(1,2)]] insert(1) by auto
  qed
qed

lemma push_step_finite: "push_step L s s' \<Longrightarrow> finite (dom (sv_pushes s)) \<Longrightarrow> finite (dom (sv_pushes s'))"
  by (induction rule: push_step.induct) (auto simp: dom_fun_upd)

lemma push_reach_finite: "push_reach L (start_server d) s \<Longrightarrow> finite (dom (sv_pushes s))"
  by (induction rule: push_reach.induct) (auto simp: start_server_def intro: push_step_finite)

lemma work_run_effect:
  assumes "(work_step L ^^ n) s s'" and "finite (dom (sv_pushes s))" and "push_reach L s0 s"
  shows "push_reach L s0 s' \<and> n + work_left s' \<le> work_left s \<and> all_txs s' = all_txs s"
  using assms(1)
proof (induction n arbitrary: s')
  case (Suc n)
  then obtain m where m: "(work_step L ^^ n) s m" "work_step L m s'" by auto
  note before = Suc.IH [OF m(1)]
  have "finite (dom (sv_pushes m))"
    using m(1) assms(2)
  proof (induction n arbitrary: m)
    case (Suc k)
    then show ?case using work_step_effect by (metis relpowp_Suc_E)
  qed simp
  from work_step_effect [OF m(2) this] before m(2) show ?case
    by (auto simp: work_step_def intro: push_reach_step)
qed (use assms in simp)

text \<open>C26: Concurrent pushes never block each other for good. As long as a push is under way, some push
  can go on; whichever go on, after at most three statements a push nothing is left to do; and
  then every push that was under way has got exactly one answer.\<close>

theorem concurrent_pushes_finish:
  assumes "push_reach L (start_server d) s" and "keeps L d ts"
  shows "(dom (sv_pushes s) \<noteq> {} \<longrightarrow> (\<exists>s'. work_step L s s'))
    \<and> (\<forall>n s'. (work_step L ^^ n) s s' \<longrightarrow> n \<le> 3 * card (dom (sv_pushes s))
      \<and> ((\<nexists>s''. work_step L s' s'') \<longrightarrow> dom (sv_pushes s') = {}
        \<and> mset (map fst (sv_answers s')) = mset (map fst (sv_answers s)) + open_txs s))"
proof -
  have goes_on: "\<exists>s'. work_step L u s'"
    if reach: "push_reach L (start_server d) u" and busy: "dom (sv_pushes u) \<noteq> {}" for u
  proof -
    obtain us where "server_ok L (ts @ us) u" using push_reach_ok [OF reach assms(2)] by blast
    from someone_goes_on [OF this push_reach_finite [OF reach] busy] show ?thesis .
  qed
  note fin = push_reach_finite [OF assms(1)]
  have "n \<le> 3 * card (dom (sv_pushes s))
      \<and> ((\<nexists>s''. work_step L s' s'') \<longrightarrow> dom (sv_pushes s') = {}
        \<and> mset (map fst (sv_answers s')) = mset (map fst (sv_answers s)) + open_txs s)"
    if run: "(work_step L ^^ n) s s'" for n s'
  proof -
    note effect = work_run_effect [OF run fin assms(1)]
    have "n \<le> 3 * card (dom (sv_pushes s))" using effect work_left_bound [OF fin] by simp
    moreover have "dom (sv_pushes s') = {}" if "\<nexists>s''. work_step L s' s''"
      using goes_on effect that by blast
    moreover have "mset (map fst (sv_answers s')) = mset (map fst (sv_answers s)) + open_txs s"
      if "dom (sv_pushes s') = {}"
      using effect that by (simp add: all_txs_def open_txs_def [of s'])
    ultimately show ?thesis by blast
  qed
  with goes_on [OF assms(1)] show ?thesis by blast
qed

theorem concurrent_pushes_finish_witness:
  "\<exists>s. push_reach ref_lib (start_server db_empty) s \<and> card (dom (sv_pushes s)) = 2
    \<and> (\<exists>s'. work_step ref_lib s s') \<and> (\<forall>n s'. (work_step ref_lib ^^ n) s s' \<longrightarrow> n \<le> 6)"
proof -
  let ?s = "two db_empty (Some (start_push (call 40) demo_tx)) (Some (start_push (call 41) demo_again)) []"
  have open2: "dom (sv_pushes ?s) = {0, 1}" by (auto simp: two_def split: if_splits)
  have "keeps ref_lib db_empty []" by (simp add: keeps_def db_empty_def)
  from concurrent_pushes_finish [OF demo_both_open this] open2
  have "(\<exists>s'. work_step ref_lib ?s s') \<and> (\<forall>n s'. (work_step ref_lib ^^ n) ?s s' \<longrightarrow> n \<le> 6)" by simp
  with demo_both_open open2 show ?thesis by (intro exI [of _ ?s]) simp
qed

end
