(* ===== verification/Store_Refinement.thy ===== *)
theory Store_Refinement
  imports Memory_Store Postgres_Store
begin

text \<open>
  The two stores of the service against each other: \<open>internal/store/postgres\<close> refines
  \<open>internal/store/memory\<close>. The database may fail a push, with or without recording it, and shows a
  known transaction as its columns keep it; in everything else it answers and ends up as the
  store in memory does. The locale relates any two stores of the contract, of which the first
  keeps transactions whole and never fails.
\<close>

section \<open>Answers against a reference\<close>

definition seen_through ::
  "('d transaction \<Rightarrow> 'd transaction) \<Rightarrow> 'd ingest_outcome \<Rightarrow> 'd ingest_outcome" where
  "seen_through view out =
    (if out_duplicate out then out\<lparr>out_transaction := view (out_transaction out)\<rparr> else out)"

text \<open>
  The answers of a store that may fail, explained by a run of the reference: a push answered with
  an error is one the reference never got, or a new one it recorded; every other answer is the
  reference's own, seen through the representation.
\<close>

inductive mirrors ::
  "('s \<Rightarrow> 'd transaction \<Rightarrow> (string + 'd ingest_outcome) \<times> 's) \<Rightarrow> ('d transaction \<Rightarrow> 'd transaction)
    \<Rightarrow> 's \<Rightarrow> 'd transaction list \<Rightarrow> (string + 'd ingest_outcome) list \<Rightarrow> 's \<Rightarrow> bool"
  for ingest :: "'s \<Rightarrow> 'd transaction \<Rightarrow> (string + 'd ingest_outcome) \<times> 's"
    and view :: "'d transaction \<Rightarrow> 'd transaction" where
  mirrors_done: "mirrors ingest view m [] [] m"
| mirrors_missed: "mirrors ingest view m ts rs m' \<Longrightarrow> mirrors ingest view m (t # ts) (Inl e # rs) m'"
| mirrors_unheard: "ingest m t = (Inr out, m1) \<Longrightarrow> \<not> out_duplicate out \<Longrightarrow>
    mirrors ingest view m1 ts rs m' \<Longrightarrow> mirrors ingest view m (t # ts) (Inl e # rs) m'"
| mirrors_answered: "ingest m t = (Inr out, m1) \<Longrightarrow> mirrors ingest view m1 ts rs m' \<Longrightarrow>
    mirrors ingest view m (t # ts) (Inr (seen_through view out) # rs) m'"

text \<open>The same transactions and fingerprints under every key, up to the representation.\<close>

definition same_content ::
  "('d transaction \<Rightarrow> 'd transaction) \<Rightarrow> (key \<Rightarrow> 'd transaction option) \<Rightarrow> (key \<Rightarrow> string option)
    \<Rightarrow> (key \<Rightarrow> 'd transaction option) \<Rightarrow> (key \<Rightarrow> string option) \<Rightarrow> bool" where
  "same_content view found1 kept1 found2 kept2 \<longleftrightarrow> found2 = map_option view \<circ> found1 \<and> kept2 = kept1"

locale two_stores =
  ref: transaction_store ingest1 found1 kept1 valid1 admits1 print_of "\<lambda>t. t"
  + imp: transaction_store ingest2 found2 kept2 valid2 admits2 print_of view
  for ingest1 :: "'s \<Rightarrow> 'd transaction \<Rightarrow> (string + 'd ingest_outcome) \<times> 's"
    and found1 :: "'s \<Rightarrow> key \<Rightarrow> 'd transaction option"
    and kept1 :: "'s \<Rightarrow> key \<Rightarrow> string option"
    and valid1 :: "'s \<Rightarrow> bool" and admits1 :: "'d transaction \<Rightarrow> bool"
    and print_of :: "'d transaction \<Rightarrow> string"
    and ingest2 :: "'t \<Rightarrow> 'd transaction \<Rightarrow> (string + 'd ingest_outcome) \<times> 't"
    and found2 :: "'t \<Rightarrow> key \<Rightarrow> 'd transaction option"
    and kept2 :: "'t \<Rightarrow> key \<Rightarrow> string option"
    and valid2 :: "'t \<Rightarrow> bool" and admits2 :: "'d transaction \<Rightarrow> bool"
    and view :: "'d transaction \<Rightarrow> 'd transaction" +
  assumes admits_both: "admits2 t \<Longrightarrow> admits1 t"
    and ref_answers: "valid1 s \<Longrightarrow> admits1 t \<Longrightarrow> \<exists>out s'. ingest1 s t = (Inr out, s')"
begin

abbreviation alike :: "'s \<Rightarrow> 't \<Rightarrow> bool" where
  "alike m s \<equiv> same_content view (found1 m) (kept1 m) (found2 s) (kept2 s)"

lemma alike_new:
  assumes "alike m s" and "found1 m' = (found1 m)(k \<mapsto> t)" and "kept1 m' = (kept1 m)(k \<mapsto> f)"
    and "found2 s' = (found2 s)(k \<mapsto> view t)" and "kept2 s' = (kept2 s)(k \<mapsto> f)"
  shows "alike m' s'"
  using assms by (auto simp: same_content_def fun_eq_iff)

lemma alike_same:
  "alike m s \<Longrightarrow> found1 m' = found1 m \<Longrightarrow> kept1 m' = kept1 m \<Longrightarrow> found2 s' = found2 s \<Longrightarrow>
    kept2 s' = kept2 s \<Longrightarrow> alike m' s'"
  by (simp add: same_content_def)

text \<open>A step of the one is a step of the other, or one it did not see.\<close>

lemma step_alike:
  assumes "valid1 m" and "valid2 s" and "alike m s" and "admits2 t" and "ingest2 s t = (r, s')"
  shows "(\<exists>e. r = Inl e) \<and> alike m s'
    \<or> (\<exists>out m1. ingest1 m t = (Inr out, m1) \<and> alike m1 s' \<and>
        (r = Inr (seen_through view out) \<or> (\<exists>e. r = Inl e) \<and> \<not> out_duplicate out))"
proof -
  have t1: "admits1 t" by (rule admits_both [OF assms(4)])
  obtain out m1 where step: "ingest1 m t = (Inr out, m1)" using ref_answers [OF assms(1) t1] by blast
  show ?thesis
  proof (cases "found1 m (key_of t)")
    case None
    then have none: "found2 s (key_of t) = None" using assms(3) by (simp add: same_content_def)
    note one = ref.ingest_new [OF assms(1) t1 None step]
    show ?thesis
    proof (cases r)
      case (Inl e)
      then show ?thesis
        using imp.ingest_error [OF assms(2,4)] assms(3,5) step one
          alike_new [OF assms(3), of m1 "key_of t" t] alike_same [OF assms(3), of m s']
        by fastforce
    next
      case (Inr out2)
      note two = imp.ingest_new [OF assms(2,4) none assms(5) [unfolded Inr]]
      have "alike m1 s'" using one two alike_new [OF assms(3)] by blast
      then show ?thesis using step one two Inr by (auto simp: seen_through_def)
    qed
  next
    case (Some u)
    then have some: "found2 s (key_of t) = Some (view u)" using assms(3) by (simp add: same_content_def)
    note one = ref.ingest_known [OF assms(1) t1 Some step]
    show ?thesis
    proof (cases r)
      case (Inl e)
      then show ?thesis
        using imp.ingest_error [OF assms(2,4)] assms(5) some alike_same [OF assms(3), of m s'] by fastforce
    next
      case (Inr out2)
      note two = imp.ingest_known [OF assms(2,4) some assms(5) [unfolded Inr]]
      have "alike m1 s'" using one two alike_same [OF assms(3)] by blast
      moreover have "kept2 s = kept1 m" using assms(3) by (simp add: same_content_def)
      ultimately show ?thesis using step one two Inr by (auto simp: seen_through_def)
    qed
  qed
qed

lemma run_alike:
  "valid1 m \<Longrightarrow> valid2 s \<Longrightarrow> alike m s \<Longrightarrow> list_all admits2 ts \<Longrightarrow> imp.serve s ts = (rs, s') \<Longrightarrow>
    \<exists>m'. mirrors ingest1 view m ts rs m' \<and> alike m' s'"
proof (induction ts arbitrary: m s rs)
  case Nil
  then show ?case by (auto intro: mirrors_done)
next
  case (Cons t ts)
  obtain r s1 qs where step: "ingest2 s t = (r, s1)" and rest: "imp.serve s1 ts = (qs, s')"
      and rs: "rs = r # qs"
    by (rule imp.serve_ConsE [OF Cons.prems(5)])
  have t: "admits2 t" and ts: "list_all admits2 ts" using Cons.prems(4) by simp_all
  note valid2 = imp.ingest_valid [OF Cons.prems(2) t step]
  from step_alike [OF Cons.prems(1-3) t step] show ?case
  proof (elim disjE conjE exE)
    fix e assume "r = Inl e" "alike m s1"
    with Cons.IH [OF Cons.prems(1) valid2 _ ts rest] show ?thesis unfolding rs
      by (blast intro: mirrors_missed)
  next
    fix out m1 assume one: "ingest1 m t = (Inr out, m1)" "alike m1 s1" "r = Inr (seen_through view out)"
    note valid1 = ref.ingest_valid [OF Cons.prems(1) admits_both [OF t] one(1)]
    with Cons.IH [OF valid1 valid2 one(2) ts rest] one show ?thesis unfolding rs
      by (blast intro: mirrors_answered)
  next
    fix out m1 e assume one: "ingest1 m t = (Inr out, m1)" "alike m1 s1" "r = Inl e" "\<not> out_duplicate out"
    note valid1 = ref.ingest_valid [OF Cons.prems(1) admits_both [OF t] one(1)]
    with Cons.IH [OF valid1 valid2 one(2) ts rest] one show ?thesis unfolding rs
      by (blast intro: mirrors_unheard)
  qed
qed

end

interpretation stores: two_stores "mem_ingest L" mem_found mem_fingerprint "mem_ok L" "\<lambda>_. True"
  "fingerprint L" "pg_step L calls" "pg_found L" "pg_kept L" "\<lambda>s. pg_ok L (fst s)" "pg_admits L" pg_view
  for L :: "('d, 'a) lib_scheme" and calls :: "'w \<Rightarrow> ingest_env \<times> 'w"
  by unfold_locales (simp_all add: mem_ingest_never_fails)

text \<open>Without a failure the answers are those of the reference, one by one.\<close>

lemma mirrors_run:
  "mirrors (mem_ingest L) view m ts rs m' \<Longrightarrow> \<forall>r \<in> set rs. \<not> isl r \<Longrightarrow>
    rs = map (map_sum id (seen_through view)) (fst (mem_run L m ts)) \<and> m' = snd (mem_run L m ts)"
  by (induction rule: mirrors.induct) (auto split: prod.splits)

lemma pg_start_ok: "pg_ok L db_empty"
  using db_holds_empty by (auto simp: pg_ok_def)

lemma pg_start_same:
  "same_content pg_view (mem_found mem_new) (mem_fingerprint mem_new) (pg_found L (db_empty, w)) (pg_kept L (db_empty, w))"
  by (auto simp: same_content_def fun_eq_iff pg_found_holds [OF db_holds_empty] mem_fingerprint_def
      mem_new_def mem_found_def)

text \<open>C17: The database store refines the store in memory. Whatever fails on the way, there is a
  run of the memory store over the same pushes, of which it missed only some that were answered with
  an error, such that every other push got the answer of the memory store, with the times of a
  known transaction cut to the microsecond, and the two end up with the same transactions and
  fingerprints under every key. Without a failure the two answer every push alike.\<close>

theorem postgres_refines_memory:
  assumes "list_all (pg_admits L) ts" and "pg_run L calls (db_empty, w) ts = (rs, s)"
  shows "\<exists>m. mirrors (mem_ingest L) pg_view mem_new ts rs m
    \<and> pg_found L s = map_option pg_view \<circ> mem_found m \<and> pg_kept L s = mem_fingerprint m
    \<and> ((\<forall>r \<in> set rs. \<not> isl r) \<longrightarrow>
        rs = map (map_sum id (seen_through pg_view)) (fst (mem_run L mem_new ts)))"
proof -
  have "pg_ok L (fst (db_empty, w))" by (simp add: pg_start_ok)
  from stores.run_alike [OF mem_ok_new this pg_start_same assms(1) assms(2) [folded pg_run_serve]]
  show ?thesis using mirrors_run unfolding same_content_def by blast
qed

theorem postgres_refines_memory_witness:
  "\<exists>rs s m. pg_run ref_lib demo_env (db_empty, 40) [demo_tx, demo_tx] = (rs, s)
    \<and> mirrors (mem_ingest ref_lib) pg_view mem_new [demo_tx, demo_tx] rs m
    \<and> pg_found ref_lib s (key_of demo_tx) = map_option pg_view (mem_found m (key_of demo_tx))"
proof -
  obtain rs s where run: "pg_run ref_lib demo_env (db_empty, 40) [demo_tx, demo_tx] = (rs, s)"
    by (metis prod.collapse)
  have "list_all (pg_admits ref_lib) [demo_tx, demo_tx]" using demo_tx_admits by simp
  from postgres_refines_memory [OF this run] run show ?thesis by (metis comp_apply)
qed

end
