(* ===== verification/Schema.thy ===== *)
theory Schema
  imports Database
begin

text \<open>
  The two migrations of \<open>db/migrations\<close> as statements on a database that may lack the tables: what
  \<open>Up\<close> creates and \<open>Down\<close> drops. A table that exists cannot be created, and one that does not
  cannot be dropped; the sequence of the \<open>BIGSERIAL\<close> key lives and dies with its table. Indexes
  change no result and are left out. Which migration is run when is goose's part.
\<close>

record schema =
  sc_transactions :: "tx_row list option"
  sc_outbox :: "(outbox_row list \<times> nat) option"

definition no_tables :: schema where
  "no_tables = \<lparr>sc_transactions = None, sc_outbox = None\<rparr>"

datatype ddl_error = Already_Exists string | Does_Not_Exist string

definition create_transactions :: "schema \<Rightarrow> ddl_error + schema" where
  "create_transactions s =
    (if sc_transactions s \<noteq> None then Inl (Already_Exists ''transactions'')
     else Inr (s\<lparr>sc_transactions := Some []\<rparr>))"

definition drop_transactions :: "schema \<Rightarrow> ddl_error + schema" where
  "drop_transactions s =
    (if sc_transactions s = None then Inl (Does_Not_Exist ''transactions'')
     else Inr (s\<lparr>sc_transactions := None\<rparr>))"

definition create_outbox :: "schema \<Rightarrow> ddl_error + schema" where
  "create_outbox s =
    (if sc_outbox s \<noteq> None then Inl (Already_Exists ''outbox_events'')
     else Inr (s\<lparr>sc_outbox := Some ([], 1)\<rparr>))"

definition drop_outbox :: "schema \<Rightarrow> ddl_error + schema" where
  "drop_outbox s =
    (if sc_outbox s = None then Inl (Does_Not_Exist ''outbox_events'')
     else Inr (s\<lparr>sc_outbox := None\<rparr>))"

text \<open>The tables the statements of the store and the relay run on, when both are there.\<close>

definition tables_of :: "schema \<Rightarrow> db option" where
  "tables_of s =
    (case (sc_transactions s, sc_outbox s) of
       (Some rows, Some (events, n)) \<Rightarrow>
         Some \<lparr>db_transactions = rows, db_outbox = events, db_seq = n\<rparr>
     | _ \<Rightarrow> None)"

definition migrations :: "((schema \<Rightarrow> ddl_error + schema) \<times> (schema \<Rightarrow> ddl_error + schema)) list" where
  "migrations = [(create_transactions, drop_transactions), (create_outbox, drop_outbox)]"

fun run_all :: "('s \<Rightarrow> 'e + 's) list \<Rightarrow> 's \<Rightarrow> 'e + 's" where
  "run_all [] s = Inr s"
| "run_all (f # fs) s = (case f s of Inl e \<Rightarrow> Inl e | Inr s1 \<Rightarrow> run_all fs s1)"

lemmas schema_eval [model_defs] =
  no_tables_def create_transactions_def drop_transactions_def create_outbox_def drop_outbox_def
  tables_of_def migrations_def

text \<open>All migrations give the empty tables the development starts from; each is undone by its \<open>Down\<close>.\<close>

lemma migrated_tables:
  "\<exists>s. run_all (map fst migrations) no_tables = Inr s \<and> tables_of s = Some db_empty"
  by (simp add: schema_eval db_empty_def)

lemma down_undoes_up:
  "(up, down) \<in> set migrations \<Longrightarrow> up s = Inr s1 \<Longrightarrow> down s1 = Inr s"
  by (cases "sc_outbox s"; cases s) (auto simp: schema_eval split: if_splits)

lemma migrations_down:
  "run_all (map fst migrations) s = Inr s1 \<Longrightarrow> run_all (rev (map snd migrations)) s1 = Inr s"
  by (cases "sc_outbox s"; cases s) (auto simp: schema_eval split: if_splits)

text \<open>A second run of a migration is refused and changes nothing.\<close>

lemma migration_not_twice:
  "(up, down) \<in> set migrations \<Longrightarrow> up s = Inr s1 \<Longrightarrow> \<exists>t. up s1 = Inl (Already_Exists t)"
  by (auto simp: schema_eval split: if_splits)

end
