(* ===== verification/Unstorable.thy ===== *)
theory Unstorable
  imports Postgres_Store
begin

text \<open>
  The gap between the rules of \<open>internal/transaction/validate.go\<close> and the columns of
  \<open>db/migrations\<close>: transactions that are accepted and that the table cannot hold.
\<close>

lemma unstorable_ingest:
  assumes "row_error (row_of L t (fingerprint L t)) = Some x"
  shows "\<exists>e. fst (pg_ingest L env d t) = Inl e"
  using assms
  by (auto simp: pg_ingest_def ingest_in_tx_def insert_transaction_def Let_def split: option.splits)

text \<open>An accepted submission and what the schema says to its row.\<close>

definition accepted_but :: "submission \<Rightarrow> sql_error \<Rightarrow> bool" where
  "accepted_but s x \<longleftrightarrow>
    (\<exists>tx. accept ref_lib demo_runtime demo_rules s 6 = (Accepted tx, 7)
      \<and> row_error (row_of ref_lib tx (fingerprint ref_lib tx)) = Some x)"

lemma accepted_butI:
  assumes "rule_problems ref_lib demo_rules demo_now s = []"
    and "row_error (row_of ref_lib (accepted_tx ref_lib demo_rules demo_now s 7) []) = Some x"
  shows "accepted_but s x"
proof -
  have "rules_now demo_runtime demo_rules 6 = (demo_now, 6)"
    and "rules_new_id demo_runtime demo_rules 6 = (Inr 7, 7)" by code_simp+
  then have "accept ref_lib demo_runtime demo_rules s 6
      = (Accepted (accepted_tx ref_lib demo_rules demo_now s 7), 7)"
    using assms(1) by (simp add: accept_eq)
  then show ?thesis using assms(2) by (simp add: accepted_but_def row_error_fingerprint)
qed

definition nul_reference :: submission where
  "nul_reference = demo_submission\<lparr>sub_source_reference := [CHR ''a'', CHR 0x00]\<rparr>"

definition nul_metadata :: submission where
  "nul_metadata = demo_submission\<lparr>sub_metadata := Some [(''note'', JArr [JStr [CHR 0x00]])]\<rparr>"

definition wide_amount :: submission where
  "wide_amount = demo_submission\<lparr>sub_base_amount := ''1000000000000000.00''\<rparr>"

lemma nul_reference_accepted: "accepted_but nul_reference Encoding_Error"
proof (rule accepted_butI)
  show "rule_problems ref_lib demo_rules demo_now nul_reference = []" by code_simp
  have "\<not> row_texts_ok (row_of ref_lib (accepted_tx ref_lib demo_rules demo_now nul_reference 7) [])"
    unfolding row_texts_ok_def row_of_def tx_row.select_convs by code_simp
  then show "row_error (row_of ref_lib (accepted_tx ref_lib demo_rules demo_now nul_reference 7) [])
      = Some Encoding_Error"
    by (simp add: row_error_def)
qed

lemma nul_metadata_accepted: "accepted_but nul_metadata Jsonb_Error"
proof (rule accepted_butI)
  let ?t = "accepted_tx ref_lib demo_rules demo_now nul_metadata 7"
  show "rule_problems ref_lib demo_rules demo_now nul_metadata = []" by code_simp
  have "row_texts_ok (row_of ref_lib ?t [])"
    unfolding row_texts_ok_def row_of_def tx_row.select_convs by code_simp
  moreover have "\<not> pg_json_ok (tx_metadata ?t)" by code_simp
  ultimately show "row_error (row_of ref_lib ?t []) = Some Jsonb_Error"
    by (simp add: row_error_def row_of_def)
qed

lemma wide_amount_accepted: "accepted_but wide_amount Numeric_Overflow"
proof (rule accepted_butI)
  let ?t = "accepted_tx ref_lib demo_rules demo_now wide_amount 7"
  show "rule_problems ref_lib demo_rules demo_now wide_amount = []" by code_simp
  have "row_texts_ok (row_of ref_lib ?t [])"
    unfolding row_texts_ok_def row_of_def tx_row.select_convs by code_simp
  moreover have "tx_location ?t = None" "tx_metadata ?t = None"
    "amt_value (tx_base_amount ?t) = (100000000000000000, 2)" by code_simp+
  moreover have "numeric_19_4 ref_lib (100000000000000000, 2) = 10 ^ 15"
    using numeric_exact [OF ref_lib_ok, of "(100000000000000000, 2)" "10 ^ 19"]
    by (simp add: ref_val_def)
  ultimately show "row_error (row_of ref_lib ?t []) = Some Numeric_Overflow"
    by (simp add: row_error_def row_of_def pg_json_ok_def)
qed

text \<open>C39: What the schema refuses is never recorded: a transaction whose row fails a column or a
  constraint is answered with an error by every database, reachable or not, however often it is
  pushed. The rules let such transactions through, in three ways: a zero character in a text,
  one in the location or metadata, and an amount of more than fifteen integer digits.\<close>

theorem unstorable_push_always_fails:
  "(row_error (row_of L t (fingerprint L t)) = None \<or> (\<exists>e. fst (pg_ingest L env d t) = Inl e))
    \<and> (\<exists>s. accepted_but s Encoding_Error) \<and> (\<exists>s. accepted_but s Jsonb_Error)
    \<and> (\<exists>s. accepted_but s Numeric_Overflow)"
  using unstorable_ingest [of L t _ env d] nul_reference_accepted nul_metadata_accepted
    wide_amount_accepted
  by (cases "row_error (row_of L t (fingerprint L t))") blast+

end
