(* ===== verification/Json_Scan.thy ===== *)
theory Json_Scan
  imports Json_Unique
begin

text \<open>
  \<open>encoding/json\<close>, the other way: the scanner of a JSON text, as \<open>json.Decoder\<close> runs it over a
  body, and that the fuel it is given is enough for every text.
\<close>

section \<open>Scanning\<close>

text \<open>A scanned value: numbers and strings as they stand in the text, members in its order.\<close>

datatype jtree =
    TNull
  | TBool bool
  | TNum string
  | TStr string
  | TArr "jtree list"
  | TObj "(string \<times> jtree) list"

definition is_ws :: "char \<Rightarrow> bool" where
  "is_ws c \<longleftrightarrow> c \<in> {CHR '' '', CHR 0x09, CHR 0x0A, CHR 0x0D}"

definition skip_ws :: "string \<Rightarrow> string" where
  "skip_ws s = dropWhile is_ws s"

definition is_hex :: "char \<Rightarrow> bool" where
  "is_hex c \<longleftrightarrow> is_digit c \<or> 97 \<le> code c \<and> code c \<le> 102 \<or> 65 \<le> code c \<and> code c \<le> 70"

text \<open>A string after its opening quote: what stands before the closing one, and the rest.\<close>

fun scan_string :: "string \<Rightarrow> (string \<times> string) option" where
  "scan_string [] = None"
| "scan_string (c # s) =
    (if c = CHR 0x22 then Some ([], s)
     else if c = CHR 0x5C then
       (case s of
          [] \<Rightarrow> None
        | e # s1 \<Rightarrow>
            if e = CHR ''u'' then
              (case s1 of
                 h1 # h2 # h3 # h4 # s2 \<Rightarrow>
                   if list_all is_hex [h1, h2, h3, h4]
                   then map_option (apfst ((@) [c, e, h1, h2, h3, h4])) (scan_string s2) else None
               | _ \<Rightarrow> None)
            else if e \<in> set [CHR 0x22, CHR 0x5C, CHR ''/'', CHR ''b'', CHR ''f'', CHR ''n'', CHR ''r'', CHR ''t'']
            then map_option (apfst ((@) [c, e])) (scan_string s1) else None)
     else if code c < 32 then None
     else map_option (apfst ((#) c)) (scan_string s))"

definition scan_digits :: "string \<Rightarrow> (string \<times> string) option" where
  "scan_digits s = (if takeWhile is_digit s = [] then None else Some (takeWhile is_digit s, dropWhile is_digit s))"

definition scan_integer :: "string \<Rightarrow> (string \<times> string) option" where
  "scan_integer s =
    (case s of
       [] \<Rightarrow> None
     | c # t \<Rightarrow> if c = CHR ''0'' then Some ([c], t) else scan_digits s)"

definition scan_fraction :: "string \<Rightarrow> (string \<times> string) option" where
  "scan_fraction s =
    (case s of
       [] \<Rightarrow> Some ([], [])
     | c # t \<Rightarrow> if c = CHR ''.'' then map_option (apfst ((#) c)) (scan_digits t) else Some ([], s))"

definition scan_exponent :: "string \<Rightarrow> (string \<times> string) option" where
  "scan_exponent s =
    (case s of
       [] \<Rightarrow> Some ([], [])
     | c # t \<Rightarrow>
         if c = CHR ''e'' \<or> c = CHR ''E'' then
           (case t of
              [] \<Rightarrow> None
            | g # u \<Rightarrow>
                if g = CHR ''+'' \<or> g = CHR ''-'' then map_option (apfst ((@) [c, g])) (scan_digits u)
                else map_option (apfst ((#) c)) (scan_digits t))
         else Some ([], s))"

definition scan_unsigned :: "string \<Rightarrow> (string \<times> string) option" where
  "scan_unsigned s =
    (case scan_integer s of
       None \<Rightarrow> None
     | Some (i, s1) \<Rightarrow>
         (case scan_fraction s1 of
            None \<Rightarrow> None
          | Some (f, s2) \<Rightarrow>
              (case scan_exponent s2 of
                 None \<Rightarrow> None
               | Some (e, s3) \<Rightarrow> Some (i @ f @ e, s3))))"

definition scan_number :: "string \<Rightarrow> (string \<times> string) option" where
  "scan_number s =
    (case s of
       [] \<Rightarrow> None
     | c # t \<Rightarrow>
         if c = CHR ''-'' then map_option (apfst ((#) c)) (scan_unsigned t) else scan_unsigned s)"

definition scan_literal :: "string \<Rightarrow> jtree \<Rightarrow> string \<Rightarrow> (jtree \<times> string) option" where
  "scan_literal w v s = (if take (length w) s = w then Some (v, drop (length w) s) else None)"

text \<open>The scanner, with fuel: one unit for each value and each element it begins.\<close>

fun scan_value :: "nat \<Rightarrow> string \<Rightarrow> (jtree \<times> string) option"
  and scan_elements :: "nat \<Rightarrow> string \<Rightarrow> (jtree list \<times> string) option"
  and scan_members :: "nat \<Rightarrow> string \<Rightarrow> ((string \<times> jtree) list \<times> string) option" where
  "scan_value 0 s = None"
| "scan_value (Suc n) s =
    (case skip_ws s of
       [] \<Rightarrow> None
     | c # t \<Rightarrow>
         if c = CHR ''{'' then
           (if skip_ws t \<noteq> [] \<and> hd (skip_ws t) = CHR ''}'' then Some (TObj [], tl (skip_ws t))
            else map_option (apfst TObj) (scan_members n t))
         else if c = CHR ''['' then
           (if skip_ws t \<noteq> [] \<and> hd (skip_ws t) = CHR '']'' then Some (TArr [], tl (skip_ws t))
            else map_option (apfst TArr) (scan_elements n t))
         else if c = CHR 0x22 then map_option (apfst TStr) (scan_string t)
         else if c = CHR ''t'' then scan_literal ''rue'' (TBool True) t
         else if c = CHR ''f'' then scan_literal ''alse'' (TBool False) t
         else if c = CHR ''n'' then scan_literal ''ull'' TNull t
         else map_option (apfst TNum) (scan_number (c # t)))"
| "scan_elements 0 s = None"
| "scan_elements (Suc n) s =
    (case scan_value n s of
       None \<Rightarrow> None
     | Some (v, t) \<Rightarrow>
         (case skip_ws t of
            [] \<Rightarrow> None
          | d # u \<Rightarrow>
              if d = CHR '','' then map_option (apfst ((#) v)) (scan_elements n u)
              else if d = CHR '']'' then Some ([v], u) else None))"
| "scan_members 0 s = None"
| "scan_members (Suc n) s =
    (case skip_ws s of
       [] \<Rightarrow> None
     | q # t \<Rightarrow>
         if q \<noteq> CHR 0x22 then None
         else (case scan_string t of
            None \<Rightarrow> None
          | Some (k, u) \<Rightarrow>
              (case skip_ws u of
                 [] \<Rightarrow> None
               | d # w \<Rightarrow>
                   if d \<noteq> CHR '':'' then None
                   else (case scan_value n w of
                      None \<Rightarrow> None
                    | Some (v, x) \<Rightarrow>
                        (case skip_ws x of
                           [] \<Rightarrow> None
                         | e # y \<Rightarrow>
                             if e = CHR '','' then map_option (apfst ((#) (k, v))) (scan_members n y)
                             else if e = CHR ''}'' then Some ([(k, v)], y) else None)))))"

text \<open>The nesting of arrays and objects, which the scanner limits.\<close>

fun nests_within :: "nat \<Rightarrow> jtree \<Rightarrow> bool" where
  "nests_within n (TArr xs) \<longleftrightarrow> 0 < n \<and> list_all (nests_within (n - 1)) xs"
| "nests_within n (TObj kvs) \<longleftrightarrow> 0 < n \<and> list_all (\<lambda>(k, v). nests_within (n - 1) v) kvs"
| "nests_within n v \<longleftrightarrow> True"

definition max_nesting_depth :: nat where
  "max_nesting_depth = 10000"

definition scan_fuel :: "string \<Rightarrow> nat" where
  "scan_fuel s = 2 * length s + 2"

section \<open>Enough fuel\<close>

lemma length_skip_ws: "length (skip_ws s) \<le> length s"
  by (simp add: skip_ws_def length_dropWhile_le)

lemma scan_string_shorter: "scan_string s = Some (r, t) \<Longrightarrow> length t < length s"
  by (induction s arbitrary: r t rule: scan_string.induct)
     (fastforce split: if_splits list.splits)+

lemma scan_digits_shorter: "scan_digits s = Some (r, t) \<Longrightarrow> length t < length s"
  by (auto simp: scan_digits_def split: if_splits)
     (metis length_append length_greater_0_conv less_add_same_cancel2 takeWhile_dropWhile_id)

lemma scan_unsigned_parts:
  "scan_unsigned s = Some (r, t) \<longleftrightarrow>
    (\<exists>i s1 f s2 e. scan_integer s = Some (i, s1) \<and> scan_fraction s1 = Some (f, s2)
      \<and> scan_exponent s2 = Some (e, t) \<and> r = i @ f @ e)"
  by (auto simp: scan_unsigned_def split: option.splits)

lemma scan_unsigned_shorter:
  assumes "scan_unsigned s = Some (r, t)"
  shows "length t < length s"
proof -
  have int: "length b < length a" if "scan_integer a = Some (x, b)" for a b x
    using that by (auto simp: scan_integer_def dest: scan_digits_shorter split: list.splits if_splits)
  have frac: "length b \<le> length a" if "scan_fraction a = Some (x, b)" for a b x
    using that by (auto simp: scan_fraction_def dest!: scan_digits_shorter split: list.splits if_splits)
  have exp: "length b \<le> length a" if "scan_exponent a = Some (x, b)" for a b x
    using that by (auto simp: scan_exponent_def dest!: scan_digits_shorter split: list.splits if_splits)
  show ?thesis
    using assms int frac exp unfolding scan_unsigned_parts by (metis le_less_trans order_trans)
qed

lemma scan_number_shorter: "scan_number s = Some (r, t) \<Longrightarrow> length t < length s"
  by (cases s) (auto simp: scan_number_def dest: scan_unsigned_shorter split: if_splits)

lemma skip_ws_Cons: "skip_ws s = c # t \<Longrightarrow> length t < length s"
  using length_skip_ws [of s] by simp

lemma scan_literal_shorter: "scan_literal w v s = Some (r, t) \<Longrightarrow> length t \<le> length s"
  by (auto simp: scan_literal_def split: if_splits)

lemmas shorter =
  skip_ws_Cons scan_string_shorter scan_number_shorter scan_literal_shorter

lemma scan_shorter:
  "scan_value n s = Some (v, t) \<Longrightarrow> length t < length s"
  "scan_elements n s = Some (vs, t) \<Longrightarrow> length t < length s"
  "scan_members n s = Some (kvs, t) \<Longrightarrow> length t < length s"
proof (induction n s and n s and n s arbitrary: v t and vs t and kvs t
    rule: scan_value_scan_elements_scan_members.induct)
  case (2 n s)
  show ?case
  proof (cases "skip_ws s")
    case (Cons c u)
    have "length (tl (skip_ws u)) \<le> length u" using length_skip_ws [of u] by simp
    moreover have "length (c # u) \<le> length s" using length_skip_ws [of s] Cons by simp
    ultimately show ?thesis
      using 2 Cons by (fastforce dest: scan_string_shorter scan_number_shorter scan_literal_shorter
          split: if_splits)
  qed (use 2 in simp)
next
  case (4 n s)
  then show ?case
    by (fastforce dest!: skip_ws_Cons split: option.splits list.splits if_splits)
next
  case (6 n s)
  then show ?case
    by (fastforce dest!: skip_ws_Cons scan_string_shorter split: option.splits list.splits if_splits)
qed simp_all

text \<open>Two amounts of fuel that are enough for a text give the same result.\<close>

definition fuel_irrelevant :: "string \<Rightarrow> bool" where
  "fuel_irrelevant s \<longleftrightarrow>
    (\<forall>n m. 2 * length s + 1 \<le> n \<longrightarrow> 2 * length s + 1 \<le> m \<longrightarrow> scan_value n s = scan_value m s)
    \<and> (\<forall>n m. 2 * length s + 2 \<le> n \<longrightarrow> 2 * length s + 2 \<le> m \<longrightarrow>
        scan_elements n s = scan_elements m s \<and> scan_members n s = scan_members m s)"

lemma fuel_value:
  "fuel_irrelevant t \<Longrightarrow> 2 * length t + 1 \<le> n \<Longrightarrow> 2 * length t + 1 \<le> m \<Longrightarrow> scan_value n t = scan_value m t"
  unfolding fuel_irrelevant_def by blast

lemma fuel_containers:
  assumes "fuel_irrelevant t" and "2 * length t + 2 \<le> n" and "2 * length t + 2 \<le> m"
  shows "scan_elements n t = scan_elements m t" and "scan_members n t = scan_members m t"
  using assms unfolding fuel_irrelevant_def by blast+

lemma fuel_irrelevant_step:
  assumes shorter: "\<And>t. length t < length s \<Longrightarrow> fuel_irrelevant t"
  shows "fuel_irrelevant s"
proof -
  have val: "scan_value (Suc n) s = scan_value (Suc m) s"
    if "2 * length s \<le> n" "2 * length s \<le> m" for n m
  proof -

    have "scan_elements n t = scan_elements m t" "scan_members n t = scan_members m t"
      if "skip_ws s = c # t" for c t
      using fuel_containers [OF shorter, of t n m] skip_ws_Cons [OF that] \<open>2 * length s \<le> n\<close> \<open>2 * length s \<le> m\<close>
      by simp_all
    then show ?thesis by (simp split: list.splits)
  qed
  have elts: "scan_elements (Suc n) s = scan_elements (Suc m) s"
    if "2 * length s + 1 \<le> n" "2 * length s + 1 \<le> m" for n m
  proof -
    have "scan_value n s = scan_value m s"
      using val [of "n - 1" "m - 1"] that by simp
    moreover have "scan_elements n u = scan_elements m u"
      if "scan_value m s = Some (v, t)" "skip_ws t = d # u" for v t d u
      using fuel_containers(1) [OF shorter, of u n m] scan_shorter(1) [OF that(1)] skip_ws_Cons [OF that(2)]
        \<open>2 * length s + 1 \<le> n\<close> \<open>2 * length s + 1 \<le> m\<close> by simp
    ultimately show ?thesis by (simp split: option.splits list.splits)
  qed
  have mems: "scan_members (Suc n) s = scan_members (Suc m) s"
    if "2 * length s + 1 \<le> n" "2 * length s + 1 \<le> m" for n m
  proof -
    have "scan_value n w = scan_value m w" "\<And>v x e y. scan_value m w = Some (v, x) \<Longrightarrow>
        skip_ws x = e # y \<Longrightarrow> scan_members n y = scan_members m y"
      if "skip_ws s = q # t" "scan_string t = Some (k, u)" "skip_ws u = d # w" for q t k u d w
    proof -
      have w: "length w < length s"
        using skip_ws_Cons [OF that(1)] scan_string_shorter [OF that(2)] skip_ws_Cons [OF that(3)] by simp
      then show "scan_value n w = scan_value m w"
        using fuel_value [OF shorter, of w n m] \<open>2 * length s + 1 \<le> n\<close> \<open>2 * length s + 1 \<le> m\<close> by simp
      show "scan_members n y = scan_members m y"
        if "scan_value m w = Some (v, x)" "skip_ws x = e # y" for v x e y
        using fuel_containers(2) [OF shorter, of y n m] w scan_shorter(1) [OF that(1)]
          skip_ws_Cons [OF that(2)] \<open>2 * length s + 1 \<le> n\<close> \<open>2 * length s + 1 \<le> m\<close> by simp
    qed
    then show ?thesis by (simp split: option.splits list.splits)
  qed
  have suc: "\<exists>k. n = Suc k \<and> b \<le> k" if "b + 1 \<le> n" for n b :: nat
    using that by (intro exI [of _ "n - 1"]) simp
  show ?thesis
    unfolding fuel_irrelevant_def
  proof (intro conjI allI impI)
    fix n m assume "2 * length s + 1 \<le> n" "2 * length s + 1 \<le> m"
    then obtain i j where ij: "n = Suc i" "m = Suc j" "2 * length s \<le> i" "2 * length s \<le> j"
      using suc [of "2 * length s" n] suc [of "2 * length s" m] by auto
    show "scan_value n s = scan_value m s" unfolding ij(1,2) by (rule val [OF ij(3,4)])
  next
    fix n m assume "2 * length s + 2 \<le> n" "2 * length s + 2 \<le> m"
    then obtain i j where ij: "n = Suc i" "m = Suc j" "2 * length s + 1 \<le> i" "2 * length s + 1 \<le> j"
      using suc [of "2 * length s + 1" n] suc [of "2 * length s + 1" m] by auto
    show "scan_elements n s = scan_elements m s" "scan_members n s = scan_members m s"
      unfolding ij(1,2) by (rule elts [OF ij(3,4)], rule mems [OF ij(3,4)])
  qed
qed

theorem fuel_irrelevant: "fuel_irrelevant s"
  by (induction s rule: length_induct) (blast intro: fuel_irrelevant_step)

corollary scan_fuel_enough:
  "scan_fuel s \<le> n \<Longrightarrow> scan_value n s = scan_value (scan_fuel s) s"
  by (rule fuel_value [OF fuel_irrelevant]) (simp_all add: scan_fuel_def)

end
