(* ===== verification/Json_Text.thy ===== *)
theory Json_Text
  imports Json_Scan
begin

text \<open>
  The texts of a JSON document: \<open>unquoteBytes\<close>, which reads the escapes and replaces what is not
  valid UTF-8. What it gives is always valid UTF-8, and it reads back what \<open>json_string\<close> wrote.
\<close>

section \<open>Reading a text\<close>

definition hex_val :: "char \<Rightarrow> nat" where
  "hex_val c =
    (if is_digit c then code c - 48 else if 97 \<le> code c then code c - 87 else code c - 55)"

definition hexs_val :: "string \<Rightarrow> nat" where
  "hexs_val s = foldl (\<lambda>n c. 16 * n + hex_val c) 0 s"

text \<open>\<open>getu4\<close>: the number of an escape \<open>\uXXXX\<close> a text begins with.\<close>

definition getu4 :: "string \<Rightarrow> nat option" where
  "getu4 s =
    (if 6 \<le> length s \<and> take 2 s = [CHR 0x5C, CHR ''u''] \<and> list_all is_hex (take 4 (drop 2 s))
     then Some (hexs_val (take 4 (drop 2 s))) else None)"

definition is_surrogate :: "nat \<Rightarrow> bool" where
  "is_surrogate r \<longleftrightarrow> 55296 \<le> r \<and> r < 57344"

text \<open>\<open>utf16.DecodeRune\<close>, for a pair that is one.\<close>

definition surrogate_pair :: "nat \<Rightarrow> nat option \<Rightarrow> nat option" where
  "surrogate_pair r r1 =
    (case r1 of
       Some q \<Rightarrow>
         if 55296 \<le> r \<and> r < 56320 \<and> 56320 \<le> q \<and> q < 57344
         then Some ((r - 55296) * 1024 + (q - 56320) + 65536) else None
     | None \<Rightarrow> None)"

definition unescape :: "char \<Rightarrow> char option" where
  "unescape e =
    (if e = CHR 0x22 \<or> e = CHR 0x5C \<or> e = CHR ''/'' then Some e
     else if e = CHR ''b'' then Some (CHR 0x08) else if e = CHR ''f'' then Some (CHR 0x0C)
     else if e = CHR ''n'' then Some (CHR 0x0A) else if e = CHR ''r'' then Some (CHR 0x0D)
     else if e = CHR ''t'' then Some (CHR 0x09) else None)"

text \<open>
  What a text the scanner accepted stands for. A surrogate that is not half of a pair, and a byte
  that is not UTF-8, become the error rune. The scanner has refused a text with another escape.
\<close>

function unquote :: "string \<Rightarrow> string" where
  "unquote [] = []"
| "unquote (c # s) =
    (if c = CHR 0x5C then
       (case getu4 (c # s) of
          Some r \<Rightarrow>
            (if is_surrogate r then
               (case surrogate_pair r (getu4 (drop 5 s)) of
                  Some q \<Rightarrow> encode_rune q @ unquote (drop 11 s)
                | None \<Rightarrow> encode_rune rune_error @ unquote (drop 5 s))
             else encode_rune r @ unquote (drop 5 s))
        | None \<Rightarrow> 
            (case s of
               [] \<Rightarrow> []
             | e # t \<Rightarrow> (case unescape e of Some x \<Rightarrow> x # unquote t | None \<Rightarrow> [])))
     else (case decode_rune (c # s) of (r, w) \<Rightarrow> encode_rune r @ unquote (drop (w - 1) s)))"
  by pat_completeness auto
termination
  by (relation "measure length") auto

declare unquote.simps(2) [simp del]

section \<open>Runes written and read\<close>

lemma encode_rune_width:
  assumes "valid_rune r"
  shows "r < 128 \<Longrightarrow> encode_rune r = [char_of r]"
    and "128 \<le> r \<Longrightarrow> r < 2048 \<Longrightarrow> encode_rune r = [char_of (192 + r div 64), char_of (128 + r mod 64)]"
    and "2048 \<le> r \<Longrightarrow> r < 65536 \<Longrightarrow> encode_rune r =
      [char_of (224 + r div 4096), char_of (128 + r div 64 mod 64), char_of (128 + r mod 64)]"
    and "65536 \<le> r \<Longrightarrow> encode_rune r =
      [char_of (240 + r div 262144), char_of (128 + r div 4096 mod 64),
       char_of (128 + r div 64 mod 64), char_of (128 + r mod 64)]"
  using assms by (simp_all add: encode_rune_def)

lemma mod_of_sum:
  fixes a b m :: nat
  assumes "a mod m = 0" and "b < m"
  shows "(a + b) mod m = b"
  using assms by (metis mod_add_left_eq add_0 mod_less)

lemma decode_encode_two:
  assumes "128 \<le> r" "r < 2048"
  shows "decode_rune (char_of (192 + r div 64) # char_of (128 + r mod 64) # t) = (r, 2)"
proof -
  have b: "2 \<le> r div 64" "r div 64 < 32" "r mod 64 < 64"
    using assms div_le_mono [of 128 r 64] by (simp_all add: less_mult_imp_div_less)
  then have "(192 + r div 64) mod 32 = r div 64" "(128 + r mod 64) mod 64 = r mod 64"
    by (simp_all add: mod_of_sum)
  then show ?thesis
    using b decode_rune_cases(2) [of "char_of (192 + r div 64)" "char_of (128 + r mod 64) # t"]
    by (simp add: second_ok_def second_lo_def second_hi_def)
qed

lemma base64_of:
  fixes r :: nat
  shows "r div 4096 = r div 64 div 64" and "r div 262144 = r div 64 div 64 div 64"
  by (simp_all add: div_mult2_eq [symmetric])

lemma decode_encode_three:
  assumes "2048 \<le> r" "r < 65536" "valid_rune r"
  shows "decode_rune (char_of (224 + r div 4096) # char_of (128 + r div 64 mod 64)
      # char_of (128 + r mod 64) # t) = (r, 3)"
proof -
  define a b c where abc: "a = r div 64 div 64" "b = r div 64 mod 64" "c = r mod 64"
  define q where "q = r div 64"
  have "q = a * 64 + b" "r = q * 64 + c" by (simp_all add: abc q_def)
  then have r: "r = a * 4096 + b * 64 + c" by linarith
  have lt: "b < 64" "c < 64" by (simp_all add: abc)
  then have a: "a < 16" using assms(2) unfolding r by simp
  have "a = 0 \<longrightarrow> 32 \<le> b" "a = 13 \<longrightarrow> b < 32"
    using assms lt unfolding r valid_rune_def by auto
  then have "second_ok (224 + a) (char_of (128 + b))" "cont_byte (char_of (128 + c))"
    using lt a by (auto simp: second_ok_def second_lo_def second_hi_def cont_byte_def)
  moreover have "(224 + a) mod 16 = a" "(128 + b) mod 64 = b" "(128 + c) mod 64 = c"
    using a lt by (simp_all add: mod_of_sum)
  ultimately have "decode_rune (char_of (224 + a) # char_of (128 + b) # char_of (128 + c) # t)
      = (a * 4096 + b * 64 + c, 3)"
    using a lt by (subst decode_rune_cases(3)) simp_all
  then show ?thesis unfolding base64_of(1) by (simp only: abc [symmetric] r [symmetric])
qed

lemma decode_encode_four:
  assumes "65536 \<le> r" "r < 1114112"
  shows "decode_rune (char_of (240 + r div 262144) # char_of (128 + r div 4096 mod 64)
      # char_of (128 + r div 64 mod 64) # char_of (128 + r mod 64) # t) = (r, 4)"
proof -
  define a b c d where abcd: "a = r div 64 div 64 div 64" "b = r div 64 div 64 mod 64"
    "c = r div 64 mod 64" "d = r mod 64"
  define p where "p = r div 64"
  define q where "q = p div 64"
  have "q = a * 64 + b" "p = q * 64 + c" "r = p * 64 + d" by (simp_all add: abcd p_def q_def)
  then have r: "r = a * 262144 + b * 4096 + c * 64 + d" by linarith
  have lt: "b < 64" "c < 64" "d < 64" by (simp_all add: abcd)
  then have a: "a \<le> 4" using assms(2) unfolding r by simp
  have "a = 0 \<longrightarrow> 16 \<le> b" "a = 4 \<longrightarrow> b < 16"
    using assms lt unfolding r by auto
  then have "second_ok (240 + a) (char_of (128 + b))" "cont_byte (char_of (128 + c))"
    "cont_byte (char_of (128 + d))"
    using lt a by (auto simp: second_ok_def second_lo_def second_hi_def cont_byte_def)
  moreover have "(240 + a) mod 8 = a" "(128 + b) mod 64 = b" "(128 + c) mod 64 = c"
    "(128 + d) mod 64 = d"
    using a lt by (simp_all add: mod_of_sum)
  ultimately have "decode_rune (char_of (240 + a) # char_of (128 + b) # char_of (128 + c)
      # char_of (128 + d) # t) = (a * 262144 + b * 4096 + c * 64 + d, 4)"
    using a lt by (subst decode_rune_cases(4)) simp_all
  then show ?thesis unfolding base64_of(1,2) by (simp only: abcd [symmetric] r [symmetric])
qed

text \<open>What a valid rune is encoded as is read back as that rune, whatever follows.\<close>

lemma decode_encode_rune:
  assumes "valid_rune r"
  shows "decode_rune (encode_rune r @ t) = (r, length (encode_rune r))"
proof -
  consider "r < 128" | "128 \<le> r" "r < 2048" | "2048 \<le> r" "r < 65536" | "65536 \<le> r" by linarith
  then show ?thesis
  proof cases
    case 1
    then show ?thesis using encode_rune_width(1) [OF assms] by (simp add: is_ascii_def)
  next
    case 2
    then show ?thesis
      using encode_rune_width(2) [OF assms] decode_encode_two by simp
  next
    case 3
    then show ?thesis
      using encode_rune_width(3) [OF assms] decode_encode_three [OF 3 assms] by simp
  next
    case 4
    then show ?thesis
      using encode_rune_width(4) [OF assms] decode_encode_four assms by (simp add: valid_rune_def)
  qed
qed

lemma valid_rune_error [simp]: "valid_rune rune_error"
  by (simp add: valid_rune_def rune_error_def)

text \<open>Whatever rune is asked for, what is written is one valid rune.\<close>

lemma encode_rune_good:
  obtains r where "valid_rune r" and "encode_rune r0 = encode_rune r"
    and "good_pair (r, encode_rune r0)"
proof -
  define r where "r = (if valid_rune r0 then r0 else rune_error)"
  have v: "valid_rune r" by (simp add: r_def)
  moreover have e: "encode_rune r0 = encode_rune r"
    by (simp add: r_def encode_rune_def rune_error_def valid_rune_def)
  moreover have "good_pair (r, encode_rune r0)"
    unfolding e good_pair_def using decode_encode_rune [OF v] by simp
  ultimately show thesis using that by blast
qed

lemma runes_good_pair:
  assumes "good_pair (r, bs)"
  shows "runes (bs @ t) = (r, bs) # runes t"
proof -
  obtain c cs where bs: "bs = c # cs" using assms by (cases bs) (auto simp: good_pair_def)
  have "decode_rune (c # cs @ t) = (r, Suc (length cs))"
    using assms unfolding good_pair_def bs by simp
  then show ?thesis by (simp add: bs)
qed

lemma utf8_valid_good_pair:
  assumes "good_pair (r, bs)"
  shows "utf8_valid (bs @ t) \<longleftrightarrow> utf8_valid t"
proof -
  have "\<not> (r = rune_error \<and> length bs = 1)"
    using assms by (auto simp: good_pair_def encode_rune_def valid_rune_def rune_error_def)
  then show ?thesis by (auto simp: utf8_valid_def runes_good_pair [OF assms])
qed

lemma utf8_valid_encode_rune [simp]: "utf8_valid (encode_rune r @ t) \<longleftrightarrow> utf8_valid t"
  by (metis encode_rune_good utf8_valid_good_pair)

lemma utf8_valid_ascii_Cons: "is_ascii c \<Longrightarrow> utf8_valid (c # t) \<longleftrightarrow> utf8_valid t"
  by (auto simp: utf8_valid_def is_ascii_def rune_error_def)

lemma utf8_valid_Nil [simp]: "utf8_valid []"
  by (simp add: utf8_valid_def)

lemma is_ascii_unescape: "unescape e = Some x \<Longrightarrow> is_ascii x"
  by (auto simp: unescape_def is_ascii_def code_def split: if_splits)

text \<open>A text that was read is valid UTF-8, whatever the document held.\<close>

lemma utf8_valid_unquote [simp]: "utf8_valid (unquote s)"
proof (induction s rule: unquote.induct)
  case (2 c s)
  then show ?case
    by (auto simp: unquote.simps(2) utf8_valid_ascii_Cons is_ascii_unescape
        split: option.split prod.split list.split)
qed simp

section \<open>Reading what was written\<close>

lemma hex_char_props:
  assumes "n < 16"
  shows "is_hex (hex_char n)" and "hex_val (hex_char n) = n" and "code (hex_char n) < 128"
    and "32 \<le> code (hex_char n)"
proof -
  have "\<forall>n \<in> set [0..<16]. is_hex (hex_char n) \<and> hex_val (hex_char n) = n
      \<and> code (hex_char n) < 128 \<and> 32 \<le> code (hex_char n)"
    by code_simp
  moreover have "n \<in> set [0..<16]" using assms by simp
  ultimately show "is_hex (hex_char n)" "hex_val (hex_char n) = n" "code (hex_char n) < 128"
    "32 \<le> code (hex_char n)" by blast+
qed

lemma hexs_val_pad_hex: "hexs_val (pad_hex w n) = n mod 16 ^ w"
proof (induction w arbitrary: n)
  case (Suc w)
  have "hexs_val (pad_hex (Suc w) n) = 16 * (n div 16 mod 16 ^ w) + n mod 16"
    using Suc.IH [of "n div 16"] by (simp add: hexs_val_def hex_char_props(2))
  then show ?case by (simp add: mod_mult2_eq [of n 16 "16 ^ w"])
qed (simp add: hexs_val_def)

lemma pad_hex_is_hex: "list_all is_hex (pad_hex w n)"
  by (induction w arbitrary: n) (simp_all add: hex_char_props(1))

lemma unquote_u:
  assumes "r < 16 ^ 4" and "\<not> is_surrogate r"
  shows "unquote ([CHR 0x5C, CHR ''u''] @ pad_hex 4 r @ t) = encode_rune r @ unquote t"
proof -
  have "getu4 ([CHR 0x5C, CHR ''u''] @ pad_hex 4 r @ t) = Some r"
    using assms(1) by (simp add: getu4_def hexs_val_pad_hex pad_hex_is_hex del: pad_hex.simps)
  moreover have "drop 5 (CHR ''u'' # pad_hex 4 r @ t) = t"
    by (simp add: numeral_eq_Suc del: pad_hex.simps)
  ultimately show ?thesis using assms(2) by (simp add: unquote.simps(2) del: pad_hex.simps)
qed

lemma unquote_short:
  assumes "(r, c) \<in> set short_escapes"
  shows "unquote ([CHR 0x5C, c] @ t) = char_of r # unquote t"
proof -
  have "\<forall>p \<in> set short_escapes. snd p \<noteq> CHR ''u'' \<and> unescape (snd p) = Some (char_of (fst p))"
    by code_simp
  then have "c \<noteq> CHR ''u''" "unescape c = Some (char_of r)" using assms by fastforce+
  then show ?thesis by (simp add: unquote.simps(2) getu4_def)
qed

lemma unquote_same:
  assumes "good_pair p" and "hd (snd p) \<noteq> CHR 0x5C"
  shows "unquote (snd p @ t) = snd p @ unquote t"
proof -
  obtain c cs where c: "snd p = c # cs" using assms(1) by (cases "snd p") (auto simp: good_pair_def)
  have "decode_rune (c # cs @ t) = (fst p, Suc (length cs))" "encode_rune (fst p) = c # cs"
    using assms(1) c unfolding good_pair_def by (metis append_Cons length_Cons)+
  then show ?thesis using assms(2) c by (simp add: unquote.simps(2))
qed

lemma unquote_escape:
  assumes "good_pair p"
  shows "unquote (json_escape p @ t) = snd p @ unquote t"
  using assms
proof (cases rule: json_escape_cases)
  case (short c)
  then have "fst p < 128" by (auto simp: short_escapes_def)
  then show ?thesis
    using short unquote_short good_pair_head(1) [OF assms] by simp
next
  case long
  have "snd p = encode_rune (fst p)" using assms by (simp add: good_pair_def)
  moreover have "\<not> is_surrogate (fst p)"
  proof
    assume "is_surrogate (fst p)"
    then have "\<not> valid_rune (fst p)" by (auto simp: is_surrogate_def valid_rune_def)
    then show False
      using assms decode_encode_rune [of rune_error] unfolding good_pair_def
      by (metis encode_rune_good valid_rune_error fst_conv decode_encode_rune)
  qed
  ultimately show ?thesis
    using long unquote_u by (simp del: pad_hex.simps)
next
  case same
  then show ?thesis using unquote_same [OF assms] by simp
qed

lemma unquote_escapes:
  "list_all good_pair ps \<Longrightarrow> unquote (concat (map json_escape ps)) = concat (map snd ps)"
  by (induction ps) (simp_all add: unquote_escape)

text \<open>The scanner runs over what was written to its closing quote.\<close>

definition plain_char :: "char \<Rightarrow> bool" where
  "plain_char c \<longleftrightarrow> 32 \<le> code c \<and> c \<noteq> CHR 0x22 \<and> c \<noteq> CHR 0x5C"

lemma scan_plain:
  "list_all plain_char bs \<Longrightarrow> scan_string (bs @ s) = map_option (apfst ((@) bs)) (scan_string s)"
proof (induction bs)
  case Nil
  then show ?case by (cases "scan_string s") (auto simp: apfst_def map_prod_def)
next
  case (Cons b bs)
  then show ?case by (cases "scan_string s") (auto simp: plain_char_def)
qed

lemma scan_escaped:
  "e \<noteq> CHR ''u'' \<Longrightarrow>
    e \<in> set [CHR 0x22, CHR 0x5C, CHR ''/'', CHR ''b'', CHR ''f'', CHR ''n'', CHR ''r'', CHR ''t''] \<Longrightarrow>
    scan_string (CHR 0x5C # e # s) = map_option (apfst ((@) [CHR 0x5C, e])) (scan_string s)"
  "list_all is_hex [h1, h2, h3, h4] \<Longrightarrow>
    scan_string (CHR 0x5C # CHR ''u'' # h1 # h2 # h3 # h4 # s)
      = map_option (apfst ((@) [CHR 0x5C, CHR ''u'', h1, h2, h3, h4])) (scan_string s)"
  by (subst scan_string.simps; simp)+

lemma encode_rune_high: "128 \<le> r \<Longrightarrow> list_all (\<lambda>c. 128 \<le> code c) (encode_rune r)"
proof -
  have "(128 :: nat) + n mod 64 < 256" "valid_rune n \<Longrightarrow> 240 + n div 262144 < 256" for n :: nat
    by (auto simp: valid_rune_def)
  moreover have "192 + n div 64 < 256" if "n < 2048" for n :: nat using that by simp
  moreover have "224 + n div 4096 < 256" if "n < 65536" for n :: nat using that by simp
  ultimately show "128 \<le> r \<Longrightarrow> ?thesis"
    by (simp add: encode_rune_def Let_def rune_error_def)
qed

lemma plain_same:
  assumes "good_pair p" and "json_escape p = snd p" and "hd (snd p) \<noteq> CHR 0x5C" "hd (snd p) \<noteq> CHR 0x22"
  shows "list_all plain_char (snd p)"
proof (cases "fst p < 128")
  case True
  then have bs: "snd p = [char_of (fst p)]" using good_pair_head(1) [OF assms(1)] by blast
  have "\<not> fst p < 32"
  proof
    assume "fst p < 32"
    then have "hd (json_escape p) = CHR 0x5C" by (cases p) (auto simp: json_escape_def)
    then show False using assms(2,3) by simp
  qed
  then show ?thesis using assms(3,4) True by (simp add: plain_char_def bs)
next
  case False
  then have "list_all (\<lambda>c. 128 \<le> code c) (snd p)"
    using assms(1) encode_rune_high [of "fst p"] by (simp add: good_pair_def)
  then show ?thesis by (auto simp: plain_char_def list_all_iff code_def)
qed

lemma four_elements: "length xs = 4 \<Longrightarrow> \<exists>a b c d. xs = [a, b, c, d]"
  by (auto simp: numeral_eq_Suc length_Suc_conv)

lemma scan_escape:
  assumes "good_pair p"
  shows "scan_string (json_escape p @ s) = map_option (apfst ((@) (json_escape p))) (scan_string s)"
  using assms
proof (cases rule: json_escape_cases)
  case (short c)
  have "\<forall>q \<in> set short_escapes. snd q \<noteq> CHR ''u''
      \<and> snd q \<in> set [CHR 0x22, CHR 0x5C, CHR ''/'', CHR ''b'', CHR ''f'', CHR ''n'', CHR ''r'', CHR ''t'']"
    by code_simp
  then have "scan_string (CHR 0x5C # c # s) = map_option (apfst ((@) [CHR 0x5C, c])) (scan_string s)"
    using short(2) by (intro scan_escaped(1)) fastforce+
  then show ?thesis unfolding short(1) by (simp del: scan_string.simps)
next
  case long
  obtain a b c d where hex: "pad_hex 4 (fst p) = [a, b, c, d]"
    using four_elements [OF length_pad_hex] by blast
  then have "list_all is_hex [a, b, c, d]" by (metis pad_hex_is_hex)
  from scan_escaped(2) [OF this] show ?thesis unfolding long(1) hex by (simp del: scan_string.simps)
next
  case same
  then show ?thesis using scan_plain [OF plain_same [OF assms same]] by (simp only: same(1))
qed

lemma scan_escapes:
  "list_all good_pair ps \<Longrightarrow>
    scan_string (concat (map json_escape ps) @ CHR 0x22 # x) = Some (concat (map json_escape ps), x)"
  by (induction ps) (simp_all add: scan_escape)

definition json_body :: "string \<Rightarrow> string" where
  "json_body s = concat (map json_escape (runes s))"

lemma json_string_body: "json_string s @ x = CHR 0x22 # json_body s @ CHR 0x22 # x"
  by (simp add: json_string_def json_body_def)

theorem scan_json_string: "utf8_valid s \<Longrightarrow> scan_string (json_body s @ CHR 0x22 # x) = Some (json_body s, x)"
  unfolding json_body_def by (rule scan_escapes [OF runes_good])

theorem unquote_json_body: "utf8_valid s \<Longrightarrow> unquote (json_body s) = s"
  unfolding json_body_def by (simp add: unquote_escapes [OF runes_good] concat_runes)

end
