(* ===== verification/Json_Decode.thy ===== *)
theory Json_Decode
  imports Json_Text
begin

text \<open>
  The values \<open>map[string]any\<close> and \<open>any\<close> are filled with by \<open>json.Unmarshal\<close>, from a scanned text.
  A number becomes a \<open>float64\<close>: what the encoder writes for it, or that it is out of range, is
  the parameter \<open>num\<close>. What is decoded is well-formed, and the encoder's output is read back.
\<close>

section \<open>Values\<close>

definition object_of :: "(string \<times> 'v) list \<Rightarrow> (string \<times> 'v) list" where
  "object_of kvs = fold (\<lambda>(k, v). gm_set k v) kvs []"

text \<open>\<open>valueInterface\<close>: of the members with one name the last is kept; what is out of range is null.\<close>

fun any_of :: "(string \<Rightarrow> string option) \<Rightarrow> jtree \<Rightarrow> json" where
  "any_of num TNull = JNull"
| "any_of num (TBool b) = JBool b"
| "any_of num (TNum n) = (case num n of Some m \<Rightarrow> JNum m | None \<Rightarrow> JNull)"
| "any_of num (TStr s) = JStr (unquote s)"
| "any_of num (TArr xs) = JArr (map (any_of num) xs)"
| "any_of num (TObj kvs) = JObj (object_of (map (\<lambda>(k, v). (unquote k, any_of num v)) kvs))"

text \<open>Whether every number is in range; if not, the decoder reports it when it is done.\<close>

fun any_fits :: "(string \<Rightarrow> string option) \<Rightarrow> jtree \<Rightarrow> bool" where
  "any_fits num (TNum n) \<longleftrightarrow> num n \<noteq> None"
| "any_fits num (TArr xs) \<longleftrightarrow> list_all (any_fits num) xs"
| "any_fits num (TObj kvs) \<longleftrightarrow> list_all (\<lambda>(k, v). any_fits num v) kvs"
| "any_fits num v \<longleftrightarrow> True"

definition number_text :: "string \<Rightarrow> bool" where
  "number_text n \<longleftrightarrow> scan_number n = Some (n, [])"

text \<open>
  What is relied on of \<open>strconv\<close>: a \<open>float64\<close> is written as a JSON number, which is read as the
  same \<open>float64\<close>.
\<close>

definition floats_ok :: "(string \<Rightarrow> string option) \<Rightarrow> bool" where
  "floats_ok num \<longleftrightarrow> (\<forall>n m. num n = Some m \<longrightarrow> number_text m \<and> num m = Some m)"

section \<open>Numbers\<close>

definition num_stop :: "string \<Rightarrow> bool" where
  "num_stop x \<longleftrightarrow> x = [] \<or> \<not> num_text_char (hd x)"

lemma ends_value_num_stop: "ends_value x \<Longrightarrow> num_stop x"
  by (auto simp: ends_value_def num_stop_def num_text_char_def is_digit_def code_def)

lemma num_stop_Cons: "num_stop (c # x) \<Longrightarrow>
    \<not> is_digit c \<and> c \<noteq> CHR ''.'' \<and> c \<noteq> CHR ''e'' \<and> c \<noteq> CHR ''E'' \<and> c \<noteq> CHR ''+'' \<and> c \<noteq> CHR ''-''"
  by (auto simp: num_stop_def num_text_char_def)

lemma takeWhile_stop:
  assumes "x = [] \<or> \<not> P (hd x)"
  shows "takeWhile P (s @ x) = takeWhile P s" and "dropWhile P (s @ x) = dropWhile P s @ x"
proof -
  have "takeWhile P x = []" "dropWhile P x = x" using assms by (cases x; simp)+
  then show "takeWhile P (s @ x) = takeWhile P s" "dropWhile P (s @ x) = dropWhile P s @ x"
    by (induction s) simp_all
qed

lemma scan_digits_append:
  assumes "scan_digits s = Some (r, t)" and "num_stop x"
  shows "scan_digits (s @ x) = Some (r, t @ x)"
proof -
  have "x = [] \<or> \<not> is_digit (hd x)" using num_stop_Cons assms(2) by (cases x) auto
  from takeWhile_stop [where P = is_digit, OF this] show ?thesis
    using assms(1) by (simp add: scan_digits_def split: if_splits)
qed

lemma scan_parts_append:
  assumes "num_stop x"
  shows "scan_integer s = Some (r, t) \<Longrightarrow> scan_integer (s @ x) = Some (r, t @ x)"
    and "scan_fraction s = Some (r, t) \<Longrightarrow> scan_fraction (s @ x) = Some (r, t @ x)"
    and "scan_exponent s = Some (r, t) \<Longrightarrow> scan_exponent (s @ x) = Some (r, t @ x)"
proof -
  note app = scan_digits_append [OF _ assms] and stop = num_stop_Cons
  show "scan_integer s = Some (r, t) \<Longrightarrow> scan_integer (s @ x) = Some (r, t @ x)"
    using app [of s] by (auto simp: scan_integer_def split: list.splits if_splits)
  show "scan_fraction s = Some (r, t) \<Longrightarrow> scan_fraction (s @ x) = Some (r, t @ x)"
    using assms app [of "tl s"] stop by (cases x) (fastforce simp: scan_fraction_def split: list.splits if_splits)+
  show "scan_exponent s = Some (r, t) \<Longrightarrow> scan_exponent (s @ x) = Some (r, t @ x)"
    using assms app [of "tl s"] app [of "tl (tl s)"] stop
    by (cases x) (fastforce simp: scan_exponent_def split: list.splits if_splits)+
qed

lemma scan_unsigned_append:
  "scan_unsigned s = Some (r, t) \<Longrightarrow> num_stop x \<Longrightarrow> scan_unsigned (s @ x) = Some (r, t @ x)"
  unfolding scan_unsigned_parts using scan_parts_append by blast

lemma scan_number_append:
  "scan_number s = Some (r, t) \<Longrightarrow> num_stop x \<Longrightarrow> scan_number (s @ x) = Some (r, t @ x)"
  using scan_unsigned_append [of s r t x] scan_unsigned_append [of "tl s" "tl r" t x]
  by (cases s) (auto simp: scan_number_def split: if_splits)

lemma scan_digits_chars:
  "scan_digits s = Some (r, t) \<Longrightarrow> s = r @ t \<and> r \<noteq> [] \<and> list_all is_digit r"
  by (auto simp: scan_digits_def list_all_iff split: if_splits dest: set_takeWhileD)

lemma digits_num_text: "list_all is_digit r \<Longrightarrow> list_all num_text_char r"
  by (auto simp: list_all_iff num_text_char_def)

lemma scan_parts_chars:
  "scan_integer s = Some (r, t) \<Longrightarrow> r \<noteq> [] \<and> list_all is_digit r"
  "scan_fraction s = Some (r, t) \<Longrightarrow> list_all num_text_char r"
  "scan_exponent s = Some (r, t) \<Longrightarrow> list_all num_text_char r"
proof -
  show "scan_integer s = Some (r, t) \<Longrightarrow> r \<noteq> [] \<and> list_all is_digit r"
    using scan_digits_chars [of s r t]
    by (auto simp: scan_integer_def is_digit_def code_def split: list.splits if_splits)
  show "scan_fraction s = Some (r, t) \<Longrightarrow> list_all num_text_char r"
    using scan_digits_chars [of "tl s"] digits_num_text
    by (fastforce simp: scan_fraction_def num_text_char_def split: list.splits if_splits)
  show "scan_exponent s = Some (r, t) \<Longrightarrow> list_all num_text_char r"
    using scan_digits_chars [of "tl s"] scan_digits_chars [of "tl (tl s)"] digits_num_text
    by (fastforce simp: scan_exponent_def num_text_char_def split: list.splits if_splits)
qed

lemma scan_unsigned_chars:
  assumes "scan_unsigned s = Some (r, t)"
  shows "r \<noteq> []" and "list_all num_text_char r" and "is_digit (hd r)"
proof -
  obtain i s1 f s2 e where parts: "scan_integer s = Some (i, s1)" "scan_fraction s1 = Some (f, s2)"
      "scan_exponent s2 = Some (e, t)" "r = i @ f @ e"
    using assms unfolding scan_unsigned_parts by blast
  then have "i \<noteq> []" "list_all is_digit i" "list_all num_text_char f" "list_all num_text_char e"
    using scan_parts_chars by blast+
  then show "r \<noteq> []" "list_all num_text_char r" "is_digit (hd r)"
    using digits_num_text [of i] parts(4) by (cases i; simp)+
qed

lemma scan_number_chars:
  assumes "scan_number s = Some (r, t)"
  shows "r \<noteq> []" and "list_all num_text_char r" and "is_digit (hd r) \<or> hd r = CHR ''-''"
proof -
  consider "scan_unsigned s = Some (r, t)"
    | u where "scan_unsigned (tl s) = Some (u, t)" "r = CHR ''-'' # u"
    using assms by (cases s) (auto simp: scan_number_def split: if_splits)
  then show "r \<noteq> []" "list_all num_text_char r" "is_digit (hd r) \<or> hd r = CHR ''-''"
    by (cases; use scan_unsigned_chars in \<open>force simp: num_text_char_def\<close>)+
qed

lemma number_text_ok: "number_text n \<Longrightarrow> json_ok (JNum n)"
  using scan_number_chars [of n n "[]"] by (simp add: number_text_def)

section \<open>What is decoded is well-formed\<close>

lemma gm_wf_object_of: "gm_wf (object_of kvs)"
proof -
  have "gm_wf (fold (\<lambda>(k, v). gm_set k v) kvs m)" if "gm_wf m" for m :: "(string \<times> 'a) list"
    using that by (induction kvs arbitrary: m) auto
  then show ?thesis by (simp add: object_of_def)
qed

lemma gm_set_members: "set (gm_set k v m) \<subseteq> insert (k, v) (set m)"
  unfolding gm_set_def by (induction m) auto

lemma set_object_of: "set (object_of kvs) \<subseteq> set kvs"
proof -
  have "set (fold (\<lambda>(k, v). gm_set k v) kvs m) \<subseteq> set kvs \<union> set m" for m :: "(string \<times> 'a) list"
  proof (induction kvs arbitrary: m)
    case (Cons kv kvs)
    then show ?case using gm_set_members [of "fst kv" "snd kv" m] by (cases kv) fastforce
  qed simp
  then show ?thesis unfolding object_of_def by fastforce
qed

theorem any_of_ok: "floats_ok num \<Longrightarrow> json_ok (any_of num t)"
proof (induction t)
  case (TNum n)
  then show ?case by (auto simp: floats_ok_def simp del: json_ok.simps(3) intro: number_text_ok split: option.split)
next
  case (TObj kvs)
  then show ?case
    using set_object_of [of "map (\<lambda>(k, v). (unquote k, any_of num v)) kvs"]
    by (fastforce simp: gm_wf_object_of list_all_iff)
qed (auto simp: list_all_iff)

section \<open>What was encoded is read back\<close>

text \<open>The scanned form of an encoded value.\<close>

fun jtree_of :: "json \<Rightarrow> jtree" where
  "jtree_of JNull = TNull"
| "jtree_of (JBool b) = TBool b"
| "jtree_of (JNum n) = TNum n"
| "jtree_of (JStr s) = TStr (json_body s)"
| "jtree_of (JArr xs) = TArr (map jtree_of xs)"
| "jtree_of (JObj kvs) =
     TObj (map (apfst json_body) (sort_key fst (map (\<lambda>(k, v). (k, jtree_of v)) kvs)))"

text \<open>A value whose numbers are as the encoder writes them.\<close>

fun json_numbers :: "(string \<Rightarrow> string option) \<Rightarrow> json \<Rightarrow> bool" where
  "json_numbers num (JNum n) \<longleftrightarrow> number_text n \<and> num n = Some n"
| "json_numbers num (JArr xs) \<longleftrightarrow> list_all (json_numbers num) xs"
| "json_numbers num (JObj kvs) \<longleftrightarrow> list_all (\<lambda>(k, v). json_numbers num v) kvs"
| "json_numbers num v \<longleftrightarrow> True"

lemma jtree_of_obj:
  "jtree_of (JObj kvs) = TObj (map (\<lambda>(k, v). (json_body k, jtree_of v)) (sort_key fst kvs))"
  unfolding jtree_of.simps(6) sort_key_map_fst [of "\<lambda>k. jtree_of"]
  by (simp add: comp_def case_prod_unfold)

text \<open>The scanner reads \<open>t\<close> from the text \<open>e\<close>, whatever follows.\<close>

definition reads :: "string \<Rightarrow> jtree \<Rightarrow> bool" where
  "reads e t \<longleftrightarrow>
    (\<forall>n x. ends_value x \<longrightarrow> 2 * length (e @ x) + 1 \<le> n \<longrightarrow> scan_value n (e @ x) = Some (t, x))"

lemma readsD: "reads e t \<Longrightarrow> ends_value x \<Longrightarrow> 2 * length (e @ x) + 1 \<le> n \<Longrightarrow> scan_value n (e @ x) = Some (t, x)"
  unfolding reads_def by blast

lemma readsI:
  assumes "\<And>n x. ends_value x \<Longrightarrow> 2 * length (e @ x) \<le> n \<Longrightarrow> scan_value (Suc n) (e @ x) = Some (t, x)"
  shows "reads e t"
  unfolding reads_def
proof (intro allI impI)
  fix n x assume "ends_value x" "2 * length (e @ x) + 1 \<le> n"
  then show "scan_value n (e @ x) = Some (t, x)" using assms [of x "n - 1"] by simp
qed

lemma skip_ws_Cons_same: "\<not> is_ws c \<Longrightarrow> skip_ws (c # s) = c # s"
  by (simp add: skip_ws_def)

lemma is_ws_punct [simp]:
  "\<not> is_ws (CHR ''{'')" "\<not> is_ws (CHR ''}'')" "\<not> is_ws (CHR ''['')" "\<not> is_ws (CHR '']'')"
  "\<not> is_ws (CHR '','')" "\<not> is_ws (CHR '':'')" "\<not> is_ws (CHR 0x22)" "\<not> is_ws (CHR ''t'')"
  "\<not> is_ws (CHR ''f'')" "\<not> is_ws (CHR ''n'')" "\<not> is_ws (CHR ''-'')"
  by (simp_all add: is_ws_def)

lemma is_ws_digit [simp]: "is_digit c \<Longrightarrow> \<not> is_ws c"
  by (auto simp: is_ws_def is_digit_def code_def)

lemma reads_number:
  assumes "number_text n"
  shows "reads n (TNum n)"
proof (rule readsI)
  fix k x assume x: "ends_value x"
  obtain c cs where n: "n = c # cs" "is_digit c \<or> c = CHR ''-''"
    using scan_number_chars [of n n "[]"] assms by (cases n) (auto simp: number_text_def)
  have "scan_number (c # cs @ x) = Some (n, x)"
    using scan_number_append [of n n "[]" x] ends_value_num_stop [OF x] assms
    by (simp add: number_text_def n)
  moreover have "c \<notin> {CHR ''{'', CHR ''['', CHR 0x22, CHR ''t'', CHR ''f'', CHR ''n''}" "\<not> is_ws c"
    using n(2) by (auto simp: is_digit_def code_def)
  ultimately show "scan_value (Suc k) (n @ x) = Some (TNum n, x)"
    by (simp add: n skip_ws_Cons_same)
qed

lemma reads_string: "utf8_valid s \<Longrightarrow> reads (json_string s) (TStr (json_body s))"
  by (rule readsI) (simp add: json_string_body skip_ws_Cons_same scan_json_string)

lemma reads_literals: "reads ''null'' TNull" "reads ''true'' (TBool True)" "reads ''false'' (TBool False)"
  by (rule readsI; simp add: skip_ws_Cons_same scan_literal_def)+

text \<open>The elements of an array and the members of an object.\<close>

lemma scan_elements_join:
  assumes "\<And>u. u \<in> set us \<Longrightarrow> reads (f u) (g u)" and "us \<noteq> []"
    and "2 * length (join '','' (map f us) @ CHR '']'' # x) + 2 \<le> n"
  shows "scan_elements n (join '','' (map f us) @ CHR '']'' # x) = Some (map g us, x)"
  using assms
proof (induction us arbitrary: n)
  case (Cons u us)
  obtain m where n: "n = Suc m" using Cons.prems(3) by (cases n) auto
  have "scan_value m (f u @ rest_of f (CHR '']'') us x) = Some (g u, rest_of f (CHR '']'') us x)"
    using Cons.prems(1) [of u] Cons.prems(3) unfolding join_rest n
    by (intro readsD ends_value_rest) simp_all
  moreover have "scan_elements m (join '','' (map f us) @ CHR '']'' # x) = Some (map g us, x)" if "us \<noteq> []"
    using Cons.IH [of m] Cons.prems(1,3) that unfolding join_rest n by (simp add: rest_of_def)
  ultimately show ?case
    unfolding join_rest n by (simp add: rest_of_def skip_ws_Cons_same)
qed simp

lemma scan_members_join:
  assumes "\<And>k v. (k, v) \<in> set kvs \<Longrightarrow> utf8_valid k \<and> reads (f v) (g v)" and "kvs \<noteq> []"
    and "e = (\<lambda>(k, v). json_string k @ '':'' @ f v)"
    and "2 * length (join '','' (map e kvs) @ CHR ''}'' # x) + 2 \<le> n"
  shows "scan_members n (join '','' (map e kvs) @ CHR ''}'' # x)
    = Some (map (\<lambda>(k, v). (json_body k, g v)) kvs, x)"
  using assms(1,2,4)
proof (induction kvs arbitrary: n)
  case (Cons kv kvs)
  obtain k v where kv: "kv = (k, v)" by fastforce
  obtain m where n: "n = Suc m" using Cons.prems(3) by (cases n) auto
  have ok: "utf8_valid k" "reads (f v) (g v)" using Cons.prems(1) [of k v] by (simp_all add: kv)
  let ?rest = "rest_of e (CHR ''}'') kvs x"
  have "scan_value m (f v @ ?rest) = Some (g v, ?rest)"
    using Cons.prems(3) unfolding join_rest n kv
    by (intro readsD [OF ok(2)] ends_value_rest) (simp_all add: assms(3))
  moreover have "scan_members m (join '','' (map e kvs) @ CHR ''}'' # x)
      = Some (map (\<lambda>(k, v). (json_body k, g v)) kvs, x)" if "kvs \<noteq> []"
  proof (rule Cons.IH)
    show "utf8_valid k \<and> reads (f v) (g v)" if "(k, v) \<in> set kvs" for k v
      by (rule Cons.prems(1)) (use that in simp)
    show "2 * length (join '','' (map e kvs) @ CHR ''}'' # x) + 2 \<le> m"
      using Cons.prems(3) that unfolding join_rest n by (simp add: rest_of_def)
  qed (rule that)
  moreover have "e kv @ ?rest = CHR 0x22 # json_body k @ CHR 0x22 # CHR '':'' # f v @ ?rest"
    by (simp add: assms(3) kv json_string_body)
  ultimately show ?case
    unfolding join_rest n
    by (simp add: skip_ws_Cons_same scan_json_string [OF ok(1)]) (simp add: rest_of_def skip_ws_Cons_same kv)
qed simp

lemma json_encode_first:
  assumes "json_ok v"
  shows "\<exists>c cs. json_encode v = c # cs \<and> \<not> is_ws c \<and> c \<noteq> CHR '']''"
proof -
  have digit: "is_digit c \<Longrightarrow> c \<noteq> CHR '']''" for c by (auto simp: is_digit_def code_def)
  obtain c cs where c: "json_encode v = c # cs"
      "case v of JNull \<Rightarrow> c = CHR ''n'' | JBool b \<Rightarrow> c = (if b then CHR ''t'' else CHR ''f'')
       | JNum n \<Rightarrow> is_digit c \<or> c = CHR ''-'' | JStr s \<Rightarrow> c = CHR 0x22 | JArr xs \<Rightarrow> c = CHR ''[''
       | JObj kvs \<Rightarrow> c = CHR ''{''"
    using json_encode_head [OF assms] by blast
  have "\<not> is_ws c \<and> c \<noteq> CHR '']''" using c(2) digit by (cases v) (auto split: if_splits)
  then show ?thesis using c(1) by blast
qed

theorem reads_encoded: "json_ok v \<Longrightarrow> json_numbers num v \<Longrightarrow> reads (json_encode v) (jtree_of v)"
proof (induction v)
  case (JArr xs)
  have elts: "reads (json_encode u) (jtree_of u)" if "u \<in> set xs" for u
    using JArr that by (simp add: list_all_iff)
  show ?case
  proof (rule readsI)
    fix n x assume x: "ends_value x" and n: "2 * length (json_encode (JArr xs) @ x) \<le> n"
    show "scan_value (Suc n) (json_encode (JArr xs) @ x) = Some (jtree_of (JArr xs), x)"
    proof (cases xs)
      case Nil
      then show ?thesis by (simp add: skip_ws_Cons_same)
    next
      case (Cons y ys)
      let ?t = "join '','' (map json_encode xs) @ CHR '']'' # x"
      have enc: "json_encode (JArr xs) @ x = CHR ''['' # ?t" by simp
      have "scan_elements n ?t = Some (map jtree_of xs, x)"
      proof (rule scan_elements_join [OF elts])
        show "2 * length ?t + 2 \<le> n" using n unfolding enc by simp
      qed (simp_all add: Cons)
      moreover have "hd (skip_ws ?t) \<noteq> CHR '']''"
      proof -
        obtain c cs where "json_encode y = c # cs" "\<not> is_ws c" "c \<noteq> CHR '']''"
          using json_encode_first [of y] JArr.prems(1) Cons by auto
        then show ?thesis unfolding Cons join_rest by (simp add: skip_ws_Cons_same)
      qed
      ultimately show ?thesis unfolding enc by (simp add: skip_ws_Cons_same)
    qed
  qed
next
  case (JObj kvs)
  let ?e = "\<lambda>(k, v). json_string k @ '':'' @ json_encode v"
  have mems: "utf8_valid k \<and> reads (json_encode v) (jtree_of v)" if "(k, v) \<in> set (sort_key fst kvs)" for k v
    using JObj that by (fastforce simp: list_all_iff)
  show ?case
  proof (rule readsI)
    fix n x assume x: "ends_value x" and n: "2 * length (json_encode (JObj kvs) @ x) \<le> n"
    let ?t = "join '','' (map ?e (sort_key fst kvs)) @ CHR ''}'' # x"
    have enc: "json_encode (JObj kvs) @ x = CHR ''{'' # ?t" unfolding json_encode_obj by simp
    show "scan_value (Suc n) (json_encode (JObj kvs) @ x) = Some (jtree_of (JObj kvs), x)"
    proof (cases "sort_key fst kvs")
      case Nil
      then show ?thesis unfolding enc jtree_of_obj by (simp add: skip_ws_Cons_same)
    next
      case (Cons kv rest)
      have "scan_members n ?t = Some (map (\<lambda>(k, v). (json_body k, jtree_of v)) (sort_key fst kvs), x)"
      proof (rule scan_members_join [OF mems _ refl])
        show "2 * length ?t + 2 \<le> n" using n unfolding enc by simp
      qed (simp_all add: Cons)
      moreover have "hd (skip_ws ?t) \<noteq> CHR ''}''"
        unfolding Cons join_rest by (cases kv) (simp add: json_string_def skip_ws_Cons_same)
      ultimately show ?thesis unfolding enc jtree_of_obj by (simp add: skip_ws_Cons_same)
    qed
  qed
qed (simp_all add: reads_literals reads_number reads_string)

lemma object_of_distinct: "gm_wf kvs \<Longrightarrow> object_of kvs = kvs"
proof -
  have "fold (\<lambda>(k, v). gm_set k v) kvs m = m @ kvs" if "gm_wf (m @ kvs)" for m :: "(string \<times> 'a) list"
    using that
  proof (induction kvs arbitrary: m)
    case (Cons kv kvs)
    then have "map_of m (fst kv) = None" by (auto simp: gm_wf_def map_of_eq_None_iff)
    then show ?case using Cons by (cases kv) (simp add: gm_set_fresh)
  qed simp
  then show "gm_wf kvs \<Longrightarrow> ?thesis" by (simp add: object_of_def)
qed

lemma distinct_sort_fst: "distinct (map fst (sort_key f kvs)) \<longleftrightarrow> distinct (map fst kvs)"
  by (rule mset_eq_imp_distinct_iff) simp

theorem any_of_encoded:
  "json_ok v \<Longrightarrow> json_numbers num v \<Longrightarrow> any_of num (jtree_of v) = json_canon v \<and> any_fits num (jtree_of v)"
proof (induction v)
  case (JObj kvs)
  have each: "unquote (json_body k) = k \<and> any_of num (jtree_of v) = json_canon v \<and> any_fits num (jtree_of v)"
    if "(k, v) \<in> set (sort_key fst kvs)" for k v
    using JObj that by (fastforce simp: list_all_iff unquote_json_body)
  let ?kvs = "map (\<lambda>(k, v). (json_body k, jtree_of v)) (sort_key fst kvs)"
  have members: "map (\<lambda>(k, v). (unquote k, any_of num v)) ?kvs
      = map (\<lambda>(k, v). (k, json_canon v)) (sort_key fst kvs)"
    using each by auto
  have "gm_wf (map (\<lambda>(k, v). (k, json_canon v)) (sort_key fst kvs))"
    using JObj.prems(1) by (simp add: gm_wf_def comp_def case_prod_unfold distinct_sort_fst)
  then have "any_of num (jtree_of (JObj kvs)) = json_canon (JObj kvs)"
    unfolding jtree_of_obj json_canon_obj any_of.simps members by (simp only: object_of_distinct)
  moreover have "any_fits num (jtree_of (JObj kvs))"
    using each unfolding jtree_of_obj by (auto simp: list_all_iff)
  ultimately show ?case by blast
qed (auto simp: list_all_iff unquote_json_body)

text \<open>The nesting of a value is that of its encoding.\<close>

fun json_within :: "nat \<Rightarrow> json \<Rightarrow> bool" where
  "json_within n (JArr xs) \<longleftrightarrow> 0 < n \<and> list_all (json_within (n - 1)) xs"
| "json_within n (JObj kvs) \<longleftrightarrow> 0 < n \<and> list_all (\<lambda>(k, v). json_within (n - 1) v) kvs"
| "json_within n v \<longleftrightarrow> True"

lemma nests_within_encoded: "nests_within n (jtree_of v) \<longleftrightarrow> json_within n v"
proof (induction v arbitrary: n)
  case (JObj kvs)
  then have "nests_within m (jtree_of v) \<longleftrightarrow> json_within m v" if "(k, v) \<in> set kvs" for k v m
    using that by fastforce
  then show ?case unfolding jtree_of_obj by (auto simp: list_all_iff)
qed (auto simp: list_all_iff)

end
