(* ===== verification/Go_Time_Parse.thy ===== *)
theory Go_Time_Parse
  imports Go_Time_Unique "HOL-Library.Monad_Syntax"
begin

text \<open>
  Reading a time: \<open>Time.UnmarshalJSON\<close> takes what \<open>time.Parse\<close> takes for the layout RFC3339, which
  is a little more than RFC 3339 allows (an hour of one digit, a comma before the fraction, an
  offset of up to 24:60). What \<open>time_rfc3339\<close> writes is read back as the same instant in UTC.
\<close>

section \<open>The days of a month\<close>

definition leap_year :: "int \<Rightarrow> bool" where
  "leap_year y \<longleftrightarrow> y mod 4 = 0 \<and> (y mod 100 \<noteq> 0 \<or> y mod 400 = 0)"

definition days_in :: "int \<Rightarrow> int \<Rightarrow> int" where
  "days_in m y =
    (if m = 2 then (if leap_year y then 29 else 28)
     else if m \<in> {4, 6, 9, 11} then 30 else 31)"

lemma leap_day_year:
  fixes era c q :: int
  assumes "0 \<le> c" "c \<le> 3" "0 \<le> q" "q \<le> 24" and "q < 24 \<or> c = 3"
  shows "leap_year (400 * era + 100 * c + 4 * q + 4)"
proof -
  have four: "400 * era + 100 * c + 4 * q + 4 = 4 * (100 * era + 25 * c + q + 1)" by simp
  have "(400 * era + 100 * c + 4 * q + 4) mod 4 = 0" unfolding four by (rule mod_mult_self1_is_0)
  moreover have "(400 * era + 100 * c + 4 * q + 4) mod 100 \<noteq> 0" if "q < 24"
    using int_div_mod_eq(2) [of "400 * era + 100 * c + 4 * q + 4" 100 "4 * era + c" "4 * q + 4"]
      that assms(3) by simp
  moreover have "(400 * era + 100 * c + 4 * q + 4) mod 400 = 0" if "\<not> q < 24"
    using int_div_mod_eq(2) [of "400 * era + 100 * c + 4 * q + 4" 400 "era + 1" 0]
      that assms(4,5) by simp
  ultimately show ?thesis unfolding leap_year_def by metis
qed

text \<open>The last day of a year that starts in March is its 366th only when February has 29 days.\<close>

lemma civil_days_in: "cv_day (civil_of_days n) \<le> days_in (cv_month (civil_of_days n)) (cv_year (civil_of_days n))"
proof -
  obtain era c q y doy where parts: "civil_of_days n = civil_from_parts era c q y doy"
    and c: "0 \<le> c" "c \<le> 3" and q: "0 \<le> q" "q \<le> 24" and y: "0 \<le> y" "y \<le> 3"
    and doy: "0 \<le> doy" "doy \<le> 365" and leap: "doy = 365 \<longrightarrow> y = 3 \<and> (q < 24 \<or> c = 3)"
    by (rule civil_of_days_parts)
  define mp where "mp = (5 * doy + 2) div 153"
  have mp: "0 \<le> mp" "mp \<le> 11" "153 * mp \<le> 5 * doy + 2" "5 * doy + 2 < 153 * mp + 153"
    using doy unfolding mp_def by linarith+
  show ?thesis
  proof (cases "doy = 365")
    case True
    then have "leap_year (400 * era + 100 * c + 4 * q + 4)" using leap_day_year c q leap by blast
    moreover have "mp = 11" using mp True by simp
    ultimately show ?thesis
      using leap True unfolding parts civil_from_parts_def Let_def mp_def [symmetric]
      by (simp add: days_in_def add.commute add.left_commute)
  next
    case False
    have "mp = 0 \<or> mp = 1 \<or> mp = 2 \<or> mp = 3 \<or> mp = 4 \<or> mp = 5 \<or> mp = 6 \<or> mp = 7 \<or> mp = 8
        \<or> mp = 9 \<or> mp = 10 \<or> mp = 11" using mp(1,2) by presburger
    then show ?thesis
      unfolding parts civil_from_parts_def Let_def mp_def [symmetric]
      using mp(3,4) doy False by (elim disjE) (simp_all add: days_in_def)
  qed
qed

section \<open>Parsing\<close>

definition expect :: "char \<Rightarrow> string \<Rightarrow> string option" where
  "expect c s = (case s of [] \<Rightarrow> None | d # t \<Rightarrow> if d = c then Some t else None)"

definition take_digits :: "nat \<Rightarrow> string \<Rightarrow> (nat \<times> string) option" where
  "take_digits n s =
    (if n \<le> length s \<and> list_all is_digit (take n s) then Some (digits_val (take n s), drop n s) else None)"

definition loose_digits :: "string \<Rightarrow> (nat \<times> string) option" where
  "loose_digits s = (case take_digits 2 s of Some r \<Rightarrow> Some r | None \<Rightarrow> take_digits 1 s)"

text \<open>A fraction is read whether or not the layout has one; digits after the ninth are dropped.\<close>

definition parse_fraction :: "string \<Rightarrow> nat \<times> string" where
  "parse_fraction s =
    (case s of
       c # t \<Rightarrow>
         let ds = takeWhile is_digit t; f = take 9 ds in
         if (c = CHR ''.'' \<or> c = CHR '','') \<and> ds \<noteq> []
         then (digits_val f * 10 ^ (9 - length f), dropWhile is_digit t) else (0, s)
     | [] \<Rightarrow> (0, s))"

definition parse_offset :: "string \<Rightarrow> (int \<times> string) option" where
  "parse_offset s =
    (case s of
       [] \<Rightarrow> None
     | c # t \<Rightarrow>
         if c = CHR ''Z'' then Some (0, t)
         else if c = CHR ''+'' \<or> c = CHR ''-'' then
           do {
             (h, s1) \<leftarrow> take_digits 2 t;
             s2 \<leftarrow> expect (CHR '':'') s1;
             (m, s3) \<leftarrow> take_digits 2 s2;
             if h \<le> 24 \<and> m \<le> 60
             then Some ((if c = CHR ''-'' then - 1 else 1) * ((int h * 60 + int m) * 60), s3)
             else None
           }
         else None)"

definition time_of_parts :: "nat \<Rightarrow> nat \<Rightarrow> nat \<Rightarrow> nat \<Rightarrow> nat \<Rightarrow> nat \<Rightarrow> nat \<Rightarrow> int \<Rightarrow> gotime" where
  "time_of_parts y mo d h mi s ns off =
    \<lparr>t_ns = days_of_civil \<lparr>cv_year = int y, cv_month = int mo, cv_day = int d\<rparr> * day_ns
        + ((int h * 60 + int mi) * 60 + int s) * 1000000000 + int ns - off * 1000000000,
     t_off = off\<rparr>"

definition parse_rfc3339 :: "string \<Rightarrow> gotime option" where
  "parse_rfc3339 v =
    do {
      (y, s1) \<leftarrow> take_digits 4 v;
      s2 \<leftarrow> expect (CHR ''-'') s1;
      (mo, s3) \<leftarrow> take_digits 2 s2;
      s4 \<leftarrow> expect (CHR ''-'') s3;
      (d, s5) \<leftarrow> take_digits 2 s4;
      s6 \<leftarrow> expect (CHR ''T'') s5;
      (h, s7) \<leftarrow> loose_digits s6;
      s8 \<leftarrow> expect (CHR '':'') s7;
      (mi, s9) \<leftarrow> take_digits 2 s8;
      s10 \<leftarrow> expect (CHR '':'') s9;
      (s, s11) \<leftarrow> take_digits 2 s10;
      let (ns, s12) = parse_fraction s11;
      (off, s13) \<leftarrow> parse_offset s12;
      if s13 = [] \<and> 1 \<le> mo \<and> mo \<le> 12 \<and> 1 \<le> d \<and> int d \<le> days_in (int mo) (int y)
         \<and> h < 24 \<and> mi < 60 \<and> s < 60
      then Some (time_of_parts y mo d h mi s ns off) else None
    }"

section \<open>What was written is read back\<close>

lemma take_digits_pad: "take_digits w (pad_nat w n @ t) = Some (n mod 10 ^ w, t)"
  by (simp add: take_digits_def digits_val_pad_nat del: pad_nat.simps)

lemma expect_same: "expect c (c # t) = Some t"
  by (simp add: expect_def)

lemma digits_val_zeros: "digits_val (s @ replicate n (CHR ''0'')) = digits_val s * 10 ^ n"
proof (induction n)
  case (Suc n)
  have "digits_val (s @ replicate (Suc n) (CHR ''0'')) = digits_val ((s @ replicate n (CHR ''0'')) @ [CHR ''0''])"
    by (simp add: replicate_append_same)
  also have "\<dots> = digits_val s * 10 ^ Suc n"
    unfolding digits_val_snoc Suc.IH by (simp add: digit_val_def code_def)
  finally show ?case .
qed simp

lemma parse_fraction_written: "parse_fraction (frac_string n 9 @ ''Z'') = (n mod 10 ^ 9, ''Z'')"
proof -
  define p where "p = pad_nat 9 (n mod 10 ^ 9)"
  obtain k where k: "p = strip_zeros p @ replicate k (CHR ''0'')" using strip_zeros_split by blast
  have len: "length p = 9" and val: "digits_val p = n mod 10 ^ 9" and digits: "list_all is_digit p"
    unfolding p_def by (simp_all add: digits_val_pad_nat del: pad_nat.simps)
  have f: "length (strip_zeros p) + k = 9" using len k by (metis length_append length_replicate)
  have val_f: "digits_val (strip_zeros p) * 10 ^ (9 - length (strip_zeros p)) = n mod 10 ^ 9"
    using digits_val_zeros [of "strip_zeros p" k] k f val by (metis add_diff_cancel_left')
  have digits_f: "list_all is_digit (strip_zeros p)" using digits k by (metis list_all_append)
  have "\<not> is_digit (CHR ''Z'')" by (simp add: is_digit_def code_def)
  then have span: "takeWhile is_digit (strip_zeros p @ ''Z'') = strip_zeros p"
    "dropWhile is_digit (strip_zeros p @ ''Z'') = ''Z''"
    using digits_f by (simp_all add: list_all_iff takeWhile_append2 dropWhile_append2)
  have frac: "frac_string n 9 = (if strip_zeros p = [] then [] else CHR ''.'' # strip_zeros p)"
    by (simp only: frac_string_def p_def Let_def)
  show ?thesis
  proof (cases "strip_zeros p = []")
    case True
    then have "n mod 10 ^ 9 = 0" using val_f by simp
    then show ?thesis using True unfolding frac by (simp add: parse_fraction_def)
  next
    case False
    have "take 9 (strip_zeros p) = strip_zeros p" using f by simp
    then show ?thesis
      using False val_f span unfolding frac by (simp add: parse_fraction_def Let_def)
  qed
qed

lemma seconds_of_day:
  fixes s :: nat
  assumes "s < 86400"
  shows "s div 3600 < 24" and "s div 60 mod 60 < 60" and "s mod 60 < 60"
    and "(s div 3600 * 60 + s div 60 mod 60) * 60 + s mod 60 = s"
proof -
  show "s div 3600 < 24" using assms by (simp add: less_mult_imp_div_less)
  show "s div 60 mod 60 < 60" "s mod 60 < 60" by simp_all
  have "s div 3600 = s div 60 div 60" by (simp add: div_mult2_eq [symmetric])
  then show "(s div 3600 * 60 + s div 60 mod 60) * 60 + s mod 60 = s" by simp
qed

theorem parse_time_rfc3339:
  assumes "time_json_ok t"
  shows "parse_rfc3339 (time_rfc3339 t) = Some (time_utc t)"
proof -
  define c where "c = civil_of_days (t_ns t div day_ns)"
  define ns where "ns = nat (t_ns t mod day_ns)"
  define s where "s = ns div 10 ^ 9"
  have year: "0 \<le> cv_year c" "cv_year c < 10 ^ 4"
    using assms by (auto simp: time_json_ok_def Let_def c_def)
  have month: "1 \<le> cv_month c" "cv_month c \<le> 12" and day: "1 \<le> cv_day c" "cv_day c \<le> 31"
    and days: "cv_day c \<le> days_in (cv_month c) (cv_year c)"
    using civil_of_days_ranges civil_days_in unfolding c_def by blast+
  have ns: "ns < 86400 * 10 ^ 9" unfolding ns_def day_ns_def by (simp add: nat_less_iff)
  then have "s < 86400" unfolding s_def by (simp add: less_mult_imp_div_less)
  note time = seconds_of_day [OF this]
  have small: "nat (cv_year c) mod 10000 = nat (cv_year c)" "nat (cv_month c) mod 100 = nat (cv_month c)"
    "nat (cv_day c) mod 100 = nat (cv_day c)" "s div 3600 mod 100 = s div 3600"
    "s div 60 mod 60 mod 100 = s div 60 mod 60" "s mod 60 mod 100 = s mod 60"
    using year month day time by (simp_all add: nat_less_iff)
  have nats: "nat (cv_month c) \<le> 12" "Suc 0 \<le> nat (cv_month c)" "Suc 0 \<le> nat (cv_day c)"
    using month day by linarith+
  have "parse_rfc3339 (time_rfc3339 t)
      = Some (time_of_parts (nat (cv_year c)) (nat (cv_month c)) (nat (cv_day c)) (s div 3600)
          (s div 60 mod 60) (s mod 60) (ns mod 10 ^ 9) 0)"
    using nats days time(1-3) year(1) month(1) day(1)
    unfolding time_rfc3339_def Let_def c_def [symmetric] ns_def [symmetric] s_def [symmetric]
    by (simp add: parse_rfc3339_def take_digits_pad expect_same loose_digits_def parse_fraction_written
        parse_offset_def small nat_le_eq_zle del: pad_nat.simps)
  also have "time_of_parts (nat (cv_year c)) (nat (cv_month c)) (nat (cv_day c)) (s div 3600)
          (s div 60 mod 60) (s mod 60) (ns mod 10 ^ 9) 0 = time_utc t"
  proof -
    have civ: "\<lparr>cv_year = int (nat (cv_year c)), cv_month = int (nat (cv_month c)), cv_day = int (nat (cv_day c))\<rparr> = c"
      using year month day by simp
    have secs: "((int (s div 3600) * 60 + int (s div 60 mod 60)) * 60 + int (s mod 60)) = int s"
      using arg_cong [OF time(4), of int] by (simp only: of_nat_add of_nat_mult of_nat_numeral)
    have "s * 10 ^ 9 + ns mod 10 ^ 9 = ns" unfolding s_def by (rule div_mult_mod_eq)
    then have "int (s * 10 ^ 9 + ns mod 10 ^ 9) = t_ns t mod day_ns" by (simp add: ns_def day_ns_def)
    then have "int s * 1000000000 + int (ns mod 10 ^ 9) = t_ns t mod day_ns"
      by (simp only: of_nat_add of_nat_mult of_nat_power of_nat_numeral) simp
    then have "t_ns t div day_ns * day_ns + int s * 1000000000 + int (ns mod 10 ^ 9) - 0 * 1000000000 = t_ns t"
      using div_mult_mod_eq [of "t_ns t" day_ns] by linarith
    then show ?thesis
      unfolding time_of_parts_def civ secs unfolding c_def days_of_civil_of_days time_utc_def
      by (cases t) (simp only: gotime.simps gotime.update_convs)
  qed
  finally show ?thesis .
qed

lemmas go_time_parse_eval [model_defs] =
  leap_year_def days_in_def expect_def take_digits_def loose_digits_def parse_fraction_def
  parse_offset_def time_of_parts_def parse_rfc3339_def

end
