(* ===== verification/Request_Decode.thy ===== *)
theory Request_Decode
  imports Json_Decode Go_Time_Parse Ingest_Handler
begin

text \<open>
  The first step of \<open>IngestTransaction\<close>: \<open>json.NewDecoder(r.Body).Decode(&body)\<close> into the generated
  \<open>IngestRequest\<close> of \<open>gen/api.gen.go\<close>, whose field tags name the members. \<open>encoding/json\<close> takes a
  member for a field when the names agree, or else when they agree up to case; a member that comes
  again overwrites a text and is merged into an object; a value of the wrong type is reported when
  the document has been read, a time that cannot be parsed at once. The \<open>float64\<close> a number becomes
  and the wording of the errors are parameters.
\<close>

section \<open>What can go wrong\<close>

text \<open>The reader's limit, a text that is no JSON, a value of another type, a time.\<close>

datatype decode_failure =
    Body_Limit int
  | Bad_Text string
  | Wrong_Type string
  | Bad_Time string

record json_lib =
  jl_number :: "string \<Rightarrow> string option"
  jl_error :: "decode_failure \<Rightarrow> string"

section \<open>Names\<close>

text \<open>
  \<open>foldName\<close>, as far as it can match an ASCII name: the letters of other alphabets fold to none of
  its letters, but for the long s and the Kelvin sign.
\<close>

definition fold_rune :: "nat \<Rightarrow> nat" where
  "fold_rune r =
    (if r < 128 then code (ascii_upper (char_of r))
     else if r = 383 then 83 else if r = 8490 then 75 else r)"

definition fold_name :: "string \<Rightarrow> nat list" where
  "fold_name s = map (fold_rune \<circ> fst) (runes s)"

definition field_named :: "string list \<Rightarrow> string \<Rightarrow> string option" where
  "field_named names k =
    (if k \<in> set names then Some k else List.find (\<lambda>f. fold_name f = fold_name k) names)"

section \<open>Fields\<close>

text \<open>Each gives what it saves to report, and the field's new value.\<close>

definition set_text :: "string \<Rightarrow> jtree \<Rightarrow> string \<Rightarrow> decode_failure option \<times> string" where
  "set_text name t old =
    (case t of
       TStr s \<Rightarrow> (None, unquote s)
     | TNull \<Rightarrow> (None, old)
     | _ \<Rightarrow> (Some (Wrong_Type name), old))"

definition set_text_pointer ::
  "string \<Rightarrow> jtree \<Rightarrow> string option \<Rightarrow> decode_failure option \<times> string option" where
  "set_text_pointer name t old =
    (if t = TNull then (None, None)
     else apsnd Some (set_text name t (case old of Some s \<Rightarrow> s | None \<Rightarrow> [])))"

definition set_map ::
  "(string \<Rightarrow> string option) \<Rightarrow> string \<Rightarrow> jtree \<Rightarrow> json_obj option
    \<Rightarrow> decode_failure option \<times> json_obj option" where
  "set_map num name t old =
    (let m = (case old of Some m \<Rightarrow> m | None \<Rightarrow> []) in
     case t of
       TNull \<Rightarrow> (None, None)
     | TObj kvs \<Rightarrow>
         (if any_fits num t then None else Some (Wrong_Type name),
          Some (fold (\<lambda>(k, v). gm_set (unquote k) (any_of num v)) kvs m))
     | _ \<Rightarrow> (Some (Wrong_Type name), Some m))"

text \<open>The first failure is the one that is kept.\<close>

definition keep_first :: "'a option \<Rightarrow> 'a option \<Rightarrow> 'a option" where
  "keep_first saved e = (case saved of Some x \<Rightarrow> Some x | None \<Rightarrow> e)"

definition plate_names :: "string list" where
  "plate_names = [''jurisdiction'', ''number'']"

fun set_plate_members ::
  "(string \<times> jtree) list \<Rightarrow> plate_ref \<Rightarrow> decode_failure option \<times> plate_ref" where
  "set_plate_members [] p = (None, p)"
| "set_plate_members ((k, v) # ms) p =
    (case field_named plate_names (unquote k) of
       None \<Rightarrow> set_plate_members ms p
     | Some f \<Rightarrow>
         (if f = ''jurisdiction''
          then let (e, s) = set_text f v (prf_jurisdiction p)
               in apfst (keep_first e) (set_plate_members ms (p\<lparr>prf_jurisdiction := s\<rparr>))
          else let (e, s) = set_text f v (prf_number p)
               in apfst (keep_first e) (set_plate_members ms (p\<lparr>prf_number := s\<rparr>))))"

definition zero_plate :: plate_ref where
  "zero_plate = \<lparr>prf_jurisdiction = [], prf_number = []\<rparr>"

definition set_plate ::
  "jtree \<Rightarrow> plate_ref option \<Rightarrow> decode_failure option \<times> plate_ref option" where
  "set_plate t old =
    (let p = (case old of Some p \<Rightarrow> p | None \<Rightarrow> zero_plate) in
     case t of
       TNull \<Rightarrow> (None, None)
     | TObj ms \<Rightarrow> apsnd Some (set_plate_members ms p)
     | _ \<Rightarrow> (Some (Wrong_Type ''plate''), Some p))"

text \<open>\<open>Time.UnmarshalJSON\<close>: null leaves the time as it is; the escapes of a string are not read.\<close>

definition set_time :: "jtree \<Rightarrow> gotime \<Rightarrow> decode_failure + gotime" where
  "set_time t old =
    (case t of
       TNull \<Rightarrow> Inr old
     | TStr s \<Rightarrow> (case parse_rfc3339 s of Some tm \<Rightarrow> Inr tm | None \<Rightarrow> Inl (Bad_Time s))
     | _ \<Rightarrow> Inl (Bad_Time []))"

section \<open>The request\<close>

definition request_names :: "string list" where
  "request_names =
    [''base_amount'', ''currency'', ''location'', ''metadata'', ''plate'', ''source'', ''source_reference'',
     ''transaction_time_utc'', ''transaction_type'', ''transponder_number'']"

definition zero_request :: ingest_request where
  "zero_request =
    \<lparr>ir_base_amount = [], ir_currency = None, ir_location = None, ir_metadata = None, ir_plate = None,
     ir_source = [], ir_source_reference = [], ir_transaction_time_utc = zero_time,
     ir_transaction_type = [], ir_transponder_number = None\<rparr>"

text \<open>One member, for the field it was taken for.\<close>

definition set_field ::
  "(string \<Rightarrow> string option) \<Rightarrow> string \<Rightarrow> jtree \<Rightarrow> ingest_request
    \<Rightarrow> decode_failure + decode_failure option \<times> ingest_request" where
  "set_field num f t q =
    (if f = ''base_amount'' then
       (let (e, s) = set_text f t (ir_base_amount q) in Inr (e, q\<lparr>ir_base_amount := s\<rparr>))
     else if f = ''currency'' then
       (let (e, s) = set_text_pointer f t (ir_currency q) in Inr (e, q\<lparr>ir_currency := s\<rparr>))
     else if f = ''location'' then
       (let (e, m) = set_map num f t (ir_location q) in Inr (e, q\<lparr>ir_location := m\<rparr>))
     else if f = ''metadata'' then
       (let (e, m) = set_map num f t (ir_metadata q) in Inr (e, q\<lparr>ir_metadata := m\<rparr>))
     else if f = ''plate'' then
       (let (e, p) = set_plate t (ir_plate q) in Inr (e, q\<lparr>ir_plate := p\<rparr>))
     else if f = ''source'' then
       (let (e, s) = set_text f t (ir_source q) in Inr (e, q\<lparr>ir_source := s\<rparr>))
     else if f = ''source_reference'' then
       (let (e, s) = set_text f t (ir_source_reference q) in Inr (e, q\<lparr>ir_source_reference := s\<rparr>))
     else if f = ''transaction_time_utc'' then
       (case set_time t (ir_transaction_time_utc q) of
          Inl e \<Rightarrow> Inl e
        | Inr tm \<Rightarrow> Inr (None, q\<lparr>ir_transaction_time_utc := tm\<rparr>))
     else if f = ''transaction_type'' then
       (let (e, s) = set_text f t (ir_transaction_type q) in Inr (e, q\<lparr>ir_transaction_type := s\<rparr>))
     else
       (let (e, s) = set_text_pointer f t (ir_transponder_number q)
        in Inr (e, q\<lparr>ir_transponder_number := s\<rparr>)))"

fun set_members ::
  "(string \<Rightarrow> string option) \<Rightarrow> (string \<times> jtree) list \<Rightarrow> decode_failure option \<Rightarrow> ingest_request
    \<Rightarrow> decode_failure + ingest_request" where
  "set_members num [] saved q = (case saved of Some e \<Rightarrow> Inl e | None \<Rightarrow> Inr q)"
| "set_members num ((k, v) # ms) saved q =
    (case field_named request_names (unquote k) of
       None \<Rightarrow> set_members num ms saved q
     | Some f \<Rightarrow>
         (case set_field num f v q of
            Inl e \<Rightarrow> Inl e
          | Inr (e, q1) \<Rightarrow> set_members num ms (keep_first saved e) q1))"

definition request_of_tree ::
  "(string \<Rightarrow> string option) \<Rightarrow> jtree \<Rightarrow> decode_failure + ingest_request" where
  "request_of_tree num t =
    (case t of
       TObj ms \<Rightarrow> set_members num ms None zero_request
     | TNull \<Rightarrow> Inr zero_request
     | _ \<Rightarrow> Inl (Wrong_Type []))"

section \<open>The body\<close>

text \<open>
  The bytes the decoder can read, and the limit the reader reports after them. The decoder stops
  after the first value; one that is not an object or an array must be followed by white space or
  by the end of the body.
\<close>

definition readable :: "request \<Rightarrow> string \<times> int option" where
  "readable r =
    (let b = (case rq_body r of Some b \<Rightarrow> b | None \<Rightarrow> []) in
     case read_body r of Inl n \<Rightarrow> (take (nat n) b, Some n) | Inr s \<Rightarrow> (s, None))"

definition is_container :: "jtree \<Rightarrow> bool" where
  "is_container t = (case t of TArr _ \<Rightarrow> True | TObj _ \<Rightarrow> True | _ \<Rightarrow> False)"

definition first_value :: "bool \<Rightarrow> string \<Rightarrow> jtree option" where
  "first_value whole s =
    (case scan_value (scan_fuel s) s of
       None \<Rightarrow> None
     | Some (t, rest) \<Rightarrow>
         if nests_within max_nesting_depth t
            \<and> (is_container t \<or> (if rest = [] then whole else is_ws (hd rest)))
         then Some t else None)"

definition decode_body ::
  "(string \<Rightarrow> string option) \<Rightarrow> string \<times> int option \<Rightarrow> decode_failure + ingest_request" where
  "decode_body num b =
    (case first_value (snd b = None) (fst b) of
       Some t \<Rightarrow> request_of_tree num t
     | None \<Rightarrow> Inl (case snd b of Some n \<Rightarrow> Body_Limit n | None \<Rightarrow> Bad_Text (fst b)))"

definition decode_request :: "json_lib \<Rightarrow> request \<Rightarrow> string + ingest_request" where
  "decode_request J r =
    (case decode_body (jl_number J) (readable r) of
       Inl e \<Rightarrow> Inl (jl_error J e)
     | Inr q \<Rightarrow> Inr q)"

section \<open>What is decoded is well-formed\<close>

text \<open>Texts that are valid UTF-8, objects with distinct names and numbers as the encoder writes them.\<close>

definition text_pointer_ok :: "string option \<Rightarrow> bool" where
  "text_pointer_ok s = (case s of None \<Rightarrow> True | Some t \<Rightarrow> utf8_valid t)"

definition map_pointer_ok :: "json_obj option \<Rightarrow> bool" where
  "map_pointer_ok m = (case m of None \<Rightarrow> True | Some kvs \<Rightarrow> json_ok (JObj kvs))"

definition plate_pointer_ok :: "plate_ref option \<Rightarrow> bool" where
  "plate_pointer_ok p =
    (case p of None \<Rightarrow> True | Some q \<Rightarrow> utf8_valid (prf_jurisdiction q) \<and> utf8_valid (prf_number q))"

definition request_ok :: "ingest_request \<Rightarrow> bool" where
  "request_ok q \<longleftrightarrow>
    list_all utf8_valid
      [ir_base_amount q, ir_source q, ir_source_reference q, ir_transaction_type q]
    \<and> text_pointer_ok (ir_currency q) \<and> text_pointer_ok (ir_transponder_number q)
    \<and> plate_pointer_ok (ir_plate q) \<and> map_pointer_ok (ir_location q) \<and> map_pointer_ok (ir_metadata q)"

lemma set_text_ok: "set_text f t old = (e, s) \<Longrightarrow> utf8_valid old \<Longrightarrow> utf8_valid s"
  by (auto simp: set_text_def split: jtree.splits)

lemma set_text_pointer_ok: "set_text_pointer f t old = (e, s) \<Longrightarrow> text_pointer_ok old \<Longrightarrow> text_pointer_ok s"
  by (auto simp: set_text_pointer_def text_pointer_ok_def apsnd_def map_prod_def
      split: if_splits option.splits prod.splits dest: set_text_ok)

lemma json_ok_gm_set:
  "json_ok (JObj m) \<Longrightarrow> utf8_valid k \<Longrightarrow> json_ok v \<Longrightarrow> json_ok (JObj (gm_set k v m))"
  using gm_set_members [of k v m] by (auto simp: list_all_iff)

lemma set_map_ok:
  assumes "floats_ok num" and "set_map num f t old = (e, m)" and "map_pointer_ok old"
  shows "map_pointer_ok m"
proof -
  have "json_ok (JObj (fold (\<lambda>(k, v). gm_set (unquote k) (any_of num v)) kvs m))"
    if "json_ok (JObj m)" for kvs m
    using that
  proof (induction kvs arbitrary: m)
    case (Cons kv kvs)
    have "json_ok (JObj (gm_set (unquote (fst kv)) (any_of num (snd kv)) m))"
      by (rule json_ok_gm_set [OF Cons.prems utf8_valid_unquote any_of_ok [OF assms(1)]])
    then show ?case using Cons.IH by (simp add: case_prod_unfold del: json_ok.simps)
  qed simp
  moreover have "json_ok (JObj (case old of Some m \<Rightarrow> m | None \<Rightarrow> []))"
    using assms(3) by (simp add: map_pointer_ok_def split: option.splits)
  ultimately show ?thesis
    using assms(2) by (auto simp: set_map_def map_pointer_ok_def Let_def simp del: json_ok.simps
        split: jtree.splits)
qed

lemma set_plate_members_ok:
  "set_plate_members ms p = (e, q) \<Longrightarrow> plate_pointer_ok (Some p) \<Longrightarrow> plate_pointer_ok (Some q)"
proof (induction ms p arbitrary: e q rule: set_plate_members.induct)
  case (2 k v ms p)
  show ?case
  proof (cases "field_named plate_names (unquote k)")
    case (Some f)
    obtain x a y b where texts: "set_text f v (prf_jurisdiction p) = (x, a)"
        "set_text f v (prf_number p) = (y, b)" by fastforce
    have ok: "utf8_valid a" "utf8_valid b"
      using set_text_ok [OF texts(1)] set_text_ok [OF texts(2)] 2(5) by (simp_all add: plate_pointer_ok_def)
    show ?thesis
      using 2(2,3) [OF Some] 2(4,5) ok texts Some
      by (cases "set_plate_members ms (p\<lparr>prf_jurisdiction := a\<rparr>)";
          cases "set_plate_members ms (p\<lparr>prf_number := b\<rparr>)")
         (auto simp: plate_pointer_ok_def split: if_splits)
  qed (use 2 in simp)
qed simp

lemma set_plate_ok: "set_plate t old = (e, p) \<Longrightarrow> plate_pointer_ok old \<Longrightarrow> plate_pointer_ok p"
proof -
  assume set: "set_plate t old = (e, p)" and old: "plate_pointer_ok old"
  define q where "q = (case old of Some p \<Rightarrow> p | None \<Rightarrow> zero_plate)"
  have q: "plate_pointer_ok (Some q)"
    using old by (auto simp: q_def plate_pointer_ok_def zero_plate_def split: option.splits)
  show ?thesis
    using set q set_plate_members_ok
    by (auto simp: set_plate_def q_def [symmetric] Let_def apsnd_def map_prod_def plate_pointer_ok_def
        split: jtree.splits prod.splits)
qed

lemma set_field_ok:
  assumes "floats_ok num" and "set_field num f t q = Inr (e, q1)" and "request_ok q"
  shows "request_ok q1"
proof -
  note ok = set_text_ok set_text_pointer_ok set_map_ok [OF assms(1)] set_plate_ok
  show ?thesis
    using assms(2,3) unfolding set_field_def request_ok_def
    by (auto split: if_splits prod.splits sum.splits dest: ok)
qed

lemma set_members_ok:
  assumes "floats_ok num"
  shows "set_members num ms saved q = Inr q1 \<Longrightarrow> request_ok q \<Longrightarrow> request_ok q1"
proof (induction ms arbitrary: saved q)
  case (Cons kv ms)
  then show ?case
    by (cases kv) (auto split: option.splits sum.splits dest: set_field_ok [OF assms])
qed (simp split: option.splits)

lemma zero_request_ok: "request_ok zero_request"
  by (simp add: request_ok_def zero_request_def text_pointer_ok_def map_pointer_ok_def plate_pointer_ok_def)

section \<open>The request on the wire\<close>

text \<open>The members \<open>json.Marshal\<close> writes for a request, in the order of the fields.\<close>

definition text_member :: "string \<Rightarrow> string option \<Rightarrow> (string \<times> json) list" where
  "text_member k s = (case s of None \<Rightarrow> [] | Some t \<Rightarrow> [(k, JStr t)])"

definition map_member :: "string \<Rightarrow> json_obj option \<Rightarrow> (string \<times> json) list" where
  "map_member k m = (case m of None \<Rightarrow> [] | Some kvs \<Rightarrow> [(k, JObj kvs)])"

definition plate_member :: "plate_ref option \<Rightarrow> (string \<times> json) list" where
  "plate_member p =
    (case p of
       None \<Rightarrow> []
     | Some q \<Rightarrow>
         [(''plate'', JObj [(''jurisdiction'', JStr (prf_jurisdiction q)), (''number'', JStr (prf_number q))])])"

definition request_members :: "ingest_request \<Rightarrow> (string \<times> json) list" where
  "request_members q =
    [(''base_amount'', JStr (ir_base_amount q))] @ text_member ''currency'' (ir_currency q)
    @ map_member ''location'' (ir_location q) @ map_member ''metadata'' (ir_metadata q)
    @ plate_member (ir_plate q)
    @ [(''source'', JStr (ir_source q)), (''source_reference'', JStr (ir_source_reference q)),
       (''transaction_time_utc'', JStr (time_rfc3339 (ir_transaction_time_utc q))),
       (''transaction_type'', JStr (ir_transaction_type q))]
    @ text_member ''transponder_number'' (ir_transponder_number q)"

definition ingest_request_json :: "ingest_request \<Rightarrow> string" where
  "ingest_request_json q = json_members (map (\<lambda>(k, v). (k, json_encode v)) (request_members q))"

end
