(* ===== verification/Request_Wire.thy ===== *)
theory Request_Wire
  imports Request_Decode
begin

text \<open>
  Bodies whose members have the names of the contract, each once: what the decoder fills in is
  then a lookup by name, the same whatever the order of the members, and a request that was
  encoded is read back.
\<close>

section \<open>Names that are written as the contract has them\<close>

definition exact_names :: "string list \<Rightarrow> (string \<times> jtree) list \<Rightarrow> bool" where
  "exact_names names ms \<longleftrightarrow>
    distinct (map (unquote \<circ> fst) ms)
    \<and> list_all (\<lambda>(k, v). case field_named names (unquote k) of None \<Rightarrow> True | Some f \<Rightarrow> f = unquote k) ms"

definition by_name :: "(string \<times> jtree) list \<Rightarrow> (string \<times> jtree) list" where
  "by_name ms = map (\<lambda>(k, v). (unquote k, v)) ms"

lemma exact_names_snoc:
  "exact_names names (ms @ [(k, v)]) \<longleftrightarrow>
    exact_names names ms \<and> map_of (by_name ms) (unquote k) = None
    \<and> (field_named names (unquote k) = None \<or> field_named names (unquote k) = Some (unquote k))"
  by (auto simp: exact_names_def by_name_def map_of_eq_None_iff image_image case_prod_unfold
      split: option.splits)

lemma field_named_same: "field_named names k = Some k \<Longrightarrow> k \<in> set names"
  by (auto simp: field_named_def find_Some_iff split: if_splits)

lemma field_named_None: "field_named names k = None \<Longrightarrow> k \<notin> set names"
  by (auto simp: field_named_def)

lemma map_of_by_name_snoc:
  "map_of (by_name ms) k = None \<Longrightarrow>
    map_of (by_name ms @ [(k, v)]) j = (if k = j then Some v else map_of (by_name ms) j)"
  by (auto simp: map_add_def split: option.splits)

section \<open>Lookup\<close>

definition text_at :: "(string \<times> jtree) list \<Rightarrow> string \<Rightarrow> string" where
  "text_at m k = (case map_of m k of Some (TStr s) \<Rightarrow> unquote s | _ \<Rightarrow> [])"

definition text_pointer_at :: "(string \<times> jtree) list \<Rightarrow> string \<Rightarrow> string option" where
  "text_pointer_at m k = (case map_of m k of Some (TStr s) \<Rightarrow> Some (unquote s) | _ \<Rightarrow> None)"

definition map_at ::
  "(string \<Rightarrow> string option) \<Rightarrow> (string \<times> jtree) list \<Rightarrow> string \<Rightarrow> json_obj option" where
  "map_at num m k =
    (case map_of m k of
       Some (TObj kvs) \<Rightarrow> Some (object_of (map (\<lambda>(k, v). (unquote k, any_of num v)) kvs))
     | _ \<Rightarrow> None)"

definition plate_from :: "(string \<times> jtree) list \<Rightarrow> plate_ref" where
  "plate_from m = \<lparr>prf_jurisdiction = text_at m ''jurisdiction'', prf_number = text_at m ''number''\<rparr>"

definition plate_at :: "(string \<times> jtree) list \<Rightarrow> string \<Rightarrow> plate_ref option" where
  "plate_at m k = (case map_of m k of Some (TObj ms) \<Rightarrow> Some (plate_from (by_name ms)) | _ \<Rightarrow> None)"

definition time_at :: "(string \<times> jtree) list \<Rightarrow> string \<Rightarrow> gotime" where
  "time_at m k =
    (case map_of m k of
       Some (TStr s) \<Rightarrow> (case parse_rfc3339 s of Some t \<Rightarrow> t | None \<Rightarrow> zero_time)
     | _ \<Rightarrow> zero_time)"

definition request_from ::
  "(string \<Rightarrow> string option) \<Rightarrow> (string \<times> jtree) list \<Rightarrow> ingest_request" where
  "request_from num m =
    \<lparr>ir_base_amount = text_at m ''base_amount'', ir_currency = text_pointer_at m ''currency'',
     ir_location = map_at num m ''location'', ir_metadata = map_at num m ''metadata'',
     ir_plate = plate_at m ''plate'', ir_source = text_at m ''source'',
     ir_source_reference = text_at m ''source_reference'',
     ir_transaction_time_utc = time_at m ''transaction_time_utc'',
     ir_transaction_type = text_at m ''transaction_type'',
     ir_transponder_number = text_pointer_at m ''transponder_number''\<rparr>"

section \<open>Members of the right type\<close>

definition is_text :: "jtree \<Rightarrow> bool" where
  "is_text t = (case t of TStr _ \<Rightarrow> True | _ \<Rightarrow> False)"

definition plate_typed :: "jtree \<Rightarrow> bool" where
  "plate_typed t =
    (case t of
       TObj ms \<Rightarrow> exact_names plate_names ms \<and>
         list_all (\<lambda>(k, v). unquote k \<in> set plate_names \<longrightarrow> is_text v) ms
     | _ \<Rightarrow> False)"

definition map_typed :: "(string \<Rightarrow> string option) \<Rightarrow> jtree \<Rightarrow> bool" where
  "map_typed num t = (case t of TObj kvs \<Rightarrow> any_fits num t | _ \<Rightarrow> False)"

definition time_typed :: "jtree \<Rightarrow> bool" where
  "time_typed t = (case t of TStr s \<Rightarrow> parse_rfc3339 s \<noteq> None | _ \<Rightarrow> False)"

definition member_typed :: "(string \<Rightarrow> string option) \<Rightarrow> string \<Rightarrow> jtree \<Rightarrow> bool" where
  "member_typed num f t =
    (if f \<in> set [''base_amount'', ''source'', ''source_reference'', ''transaction_type''] then is_text t
     else if f \<in> set [''currency'', ''transponder_number''] then is_text t \<or> t = TNull
     else if f \<in> set [''location'', ''metadata''] then map_typed num t
     else if f = ''plate'' then plate_typed t
     else if f = ''transaction_time_utc'' then time_typed t
     else True)"

section \<open>The decoder looks up\<close>

text \<open>A lookup in a list that was extended by a fresh name.\<close>

lemma lookup_snoc:
  assumes "map_of m k = None"
  shows "text_at (m @ [(k, t)]) j = (if k = j then text_at [(k, t)] k else text_at m j)"
    and "text_pointer_at (m @ [(k, t)]) j = (if k = j then text_pointer_at [(k, t)] k else text_pointer_at m j)"
    and "map_at num (m @ [(k, t)]) j = (if k = j then map_at num [(k, t)] k else map_at num m j)"
    and "plate_at (m @ [(k, t)]) j = (if k = j then plate_at [(k, t)] k else plate_at m j)"
    and "time_at (m @ [(k, t)]) j = (if k = j then time_at [(k, t)] k else time_at m j)"
proof -
  have "map_of (m @ [(k, t)]) j = (if k = j then Some t else map_of m j)"
    using assms by (auto simp: map_add_def split: option.splits)
  then show "text_at (m @ [(k, t)]) j = (if k = j then text_at [(k, t)] k else text_at m j)"
    and "text_pointer_at (m @ [(k, t)]) j = (if k = j then text_pointer_at [(k, t)] k else text_pointer_at m j)"
    and "map_at num (m @ [(k, t)]) j = (if k = j then map_at num [(k, t)] k else map_at num m j)"
    and "plate_at (m @ [(k, t)]) j = (if k = j then plate_at [(k, t)] k else plate_at m j)"
    and "time_at (m @ [(k, t)]) j = (if k = j then time_at [(k, t)] k else time_at m j)"
    by (simp_all only: text_at_def text_pointer_at_def map_at_def plate_at_def time_at_def map_of.simps fun_upd_same fst_conv snd_conv split: if_split) simp_all
qed

lemma text_at_single: "text_at [(k, TStr s)] k = unquote s"
  by (simp add: text_at_def)

lemma set_plate_members_append:
  "set_plate_members (xs @ ys) p =
    (let (e, q) = set_plate_members xs p; (e', r) = set_plate_members ys q in (keep_first e e', r))"
  by (induction xs p rule: set_plate_members.induct)
     (auto simp: keep_first_def Let_def split: option.splits prod.splits if_splits)

lemma set_plate_members_typed:
  assumes "exact_names plate_names ms"
    and "list_all (\<lambda>(k, v). unquote k \<in> set plate_names \<longrightarrow> is_text v) ms"
  shows "set_plate_members ms zero_plate = (None, plate_from (by_name ms))"
  using assms
proof (induction ms rule: rev_induct)
  case Nil
  then show ?case by (simp add: zero_plate_def plate_from_def text_at_def by_name_def)
next
  case (snoc kv ms)
  obtain k v where kv: "kv = (k, v)" by fastforce
  have ms: "set_plate_members ms zero_plate = (None, plate_from (by_name ms))"
    and fresh: "map_of (by_name ms) (unquote k) = None"
    and named: "field_named plate_names (unquote k) = None \<or> field_named plate_names (unquote k) = Some (unquote k)"
    using snoc by (simp_all add: kv exact_names_snoc)
  have typed: "unquote k \<in> set plate_names \<Longrightarrow> is_text v" using snoc.prems(2) by (simp add: kv)
  have snoc_by_name: "by_name (ms @ [(k, v)]) = by_name ms @ [(unquote k, v)]" by (simp add: by_name_def kv)
  show ?case
  proof (cases "field_named plate_names (unquote k)")
    case None
    then have "unquote k \<noteq> ''jurisdiction''" "unquote k \<noteq> ''number''"
      using field_named_None [OF None] by (auto simp: plate_names_def)
    then show ?thesis
      using None ms unfolding kv snoc_by_name set_plate_members_append
      by (simp add: keep_first_def plate_from_def lookup_snoc [OF fresh])
  next
    case (Some f)
    then have f: "field_named plate_names (unquote k) = Some (unquote k)" using named by simp
    have k: "unquote k = ''jurisdiction'' \<or> unquote k = ''number''"
      using field_named_same [OF f] by (auto simp: plate_names_def)
    obtain s where "v = TStr s" using typed field_named_same [OF f] by (cases v) (auto simp: is_text_def)
    then show ?thesis
      using k f ms unfolding kv snoc_by_name set_plate_members_append plate_from_def lookup_snoc(1) [OF fresh]
      by (elim disjE) (simp_all add: keep_first_def set_text_def text_at_single)
  qed
qed

lemma set_plate_typed: "plate_typed t \<Longrightarrow> set_plate t None = (None, plate_at [(k, t)] k)"
  by (auto simp: plate_typed_def set_plate_def plate_at_def set_plate_members_typed split: jtree.splits)

lemma set_map_typed: "map_typed num t \<Longrightarrow> set_map num f t None = (None, map_at num [(k, t)] k)"
  by (auto simp: map_typed_def set_map_def map_at_def object_of_def fold_map comp_def case_prod_unfold
      split: jtree.splits)

lemma set_text_typed: "is_text t \<Longrightarrow> set_text f t old = (None, text_at [(k, t)] k)"
  by (auto simp: is_text_def set_text_def text_at_def split: jtree.splits)

lemma set_text_pointer_typed:
  "is_text t \<or> t = TNull \<Longrightarrow> set_text_pointer f t None = (None, text_pointer_at [(k, t)] k)"
  by (auto simp: is_text_def set_text_pointer_def set_text_def text_pointer_at_def split: jtree.splits)

lemma set_time_typed: "time_typed t \<Longrightarrow> set_time t old = Inr (time_at [(k, t)] k)"
  by (auto simp: time_typed_def set_time_def time_at_def split: jtree.splits option.splits)

lemma set_members_append:
  "set_members num xs saved q = Inr q1 \<Longrightarrow>
    set_members num (xs @ ys) saved q = set_members num ys None q1"
  by (induction xs arbitrary: saved q) (auto split: option.splits sum.splits prod.splits)

lemma set_field_typed:
  assumes "f \<in> set request_names" and "member_typed num f t" and "map_of m f = None"
  shows "set_field num f t (request_from num m) = Inr (None, request_from num (m @ [(f, t)]))"
proof -
  have none: "map_at num m f = None" "plate_at m f = None" "text_pointer_at m f = None"
    using assms(3) by (simp_all add: map_at_def plate_at_def text_pointer_at_def)
  have "f = ''base_amount'' \<or> f = ''currency'' \<or> f = ''location'' \<or> f = ''metadata'' \<or> f = ''plate''
      \<or> f = ''source'' \<or> f = ''source_reference'' \<or> f = ''transaction_time_utc'' \<or> f = ''transaction_type''
      \<or> f = ''transponder_number''"
    using assms(1) by (simp add: request_names_def)
  then show ?thesis
    unfolding request_from_def lookup_snoc [OF assms(3)]
    using assms(2) none
    by (elim disjE)
       (simp_all add: set_field_def member_typed_def set_text_typed [where k = f] set_text_pointer_typed [where k = f]
         set_map_typed [where k = f] set_plate_typed [where k = f] set_time_typed [where k = f])
qed

theorem set_members_typed:
  assumes "exact_names request_names ms" and "list_all (\<lambda>(k, v). member_typed num (unquote k) v) ms"
  shows "set_members num ms None zero_request = Inr (request_from num (by_name ms))"
  using assms
proof (induction ms rule: rev_induct)
  case Nil
  then show ?case
    by (simp add: zero_request_def request_from_def by_name_def text_at_def text_pointer_at_def map_at_def
        plate_at_def time_at_def)
next
  case (snoc kv ms)
  obtain k v where kv: "kv = (k, v)" by fastforce
  have ms: "set_members num ms None zero_request = Inr (request_from num (by_name ms))"
    and fresh: "map_of (by_name ms) (unquote k) = None"
    and named: "field_named request_names (unquote k) = None
      \<or> field_named request_names (unquote k) = Some (unquote k)"
    and typed: "member_typed num (unquote k) v"
    using snoc by (simp_all add: kv exact_names_snoc)
  have snoc_by_name: "by_name (ms @ [(k, v)]) = by_name ms @ [(unquote k, v)]" by (simp add: by_name_def)
  show ?case
  proof (cases "field_named request_names (unquote k)")
    case None
    then have "unquote k \<notin> set request_names" by (rule field_named_None)
    then have "request_from num (by_name ms @ [(unquote k, v)]) = request_from num (by_name ms)"
      unfolding request_from_def lookup_snoc [OF fresh] by (simp add: request_names_def)
    then show ?thesis
      using None unfolding kv snoc_by_name set_members_append [OF ms] by simp
  next
    case (Some f)
    then have f: "field_named request_names (unquote k) = Some (unquote k)" using named by simp
    then show ?thesis
      using set_field_typed [OF field_named_same [OF f] typed fresh]
      unfolding kv snoc_by_name set_members_append [OF ms] by (simp add: keep_first_def)
  qed
qed

section \<open>A request that was written is read back\<close>

text \<open>The members of location and metadata come in the order they are written.\<close>

definition canon_map :: "json_obj \<Rightarrow> json_obj" where
  "canon_map m = map (\<lambda>(k, v). (k, json_canon v)) (sort_key fst m)"

definition canon_request :: "ingest_request \<Rightarrow> ingest_request" where
  "canon_request q =
    q\<lparr>ir_location := map_option canon_map (ir_location q),
      ir_metadata := map_option canon_map (ir_metadata q)\<rparr>"

text \<open>
  Requests that have an encoding: the time is in UTC and its year can be written, the numbers are
  as the encoder writes them, and the nesting stays within the scanner's limit.
\<close>

definition map_writable :: "(string \<Rightarrow> string option) \<Rightarrow> json_obj option \<Rightarrow> bool" where
  "map_writable num m =
    (case m of
       None \<Rightarrow> True
     | Some kvs \<Rightarrow> json_numbers num (JObj kvs) \<and> json_within (max_nesting_depth - 1) (JObj kvs))"

definition request_writable :: "(string \<Rightarrow> string option) \<Rightarrow> ingest_request \<Rightarrow> bool" where
  "request_writable num q \<longleftrightarrow>
    request_ok q \<and> t_off (ir_transaction_time_utc q) = 0 \<and> time_json_ok (ir_transaction_time_utc q)
    \<and> map_writable num (ir_location q) \<and> map_writable num (ir_metadata q)"

lemma list_all_request_members:
  "list_all P (request_members q) \<longleftrightarrow>
    P (''base_amount'', JStr (ir_base_amount q)) \<and> list_all P (text_member ''currency'' (ir_currency q))
    \<and> list_all P (map_member ''location'' (ir_location q))
    \<and> list_all P (map_member ''metadata'' (ir_metadata q)) \<and> list_all P (plate_member (ir_plate q))
    \<and> P (''source'', JStr (ir_source q)) \<and> P (''source_reference'', JStr (ir_source_reference q))
    \<and> P (''transaction_time_utc'', JStr (time_rfc3339 (ir_transaction_time_utc q)))
    \<and> P (''transaction_type'', JStr (ir_transaction_type q))
    \<and> list_all P (text_member ''transponder_number'' (ir_transponder_number q))"
  by (simp add: request_members_def)

lemma list_all_optional_member:
  "list_all P (text_member k s) \<longleftrightarrow> (\<forall>t. s = Some t \<longrightarrow> P (k, JStr t))"
  "list_all P (map_member k m) \<longleftrightarrow> (\<forall>kvs. m = Some kvs \<longrightarrow> P (k, JObj kvs))"
  "list_all P (plate_member p) \<longleftrightarrow> (\<forall>r. p = Some r \<longrightarrow> P (''plate'',
      JObj [(''jurisdiction'', JStr (prf_jurisdiction r)), (''number'', JStr (prf_number r))]))"
  by (simp_all add: text_member_def map_member_def plate_member_def split: option.splits)

lemmas request_members_all = list_all_request_members list_all_optional_member

text \<open>Every member is written with a text that is read back.\<close>

definition member_wire_ok :: "(string \<Rightarrow> string option) \<Rightarrow> string \<times> json \<Rightarrow> bool" where
  "member_wire_ok num m \<longleftrightarrow>
    utf8_valid (fst m) \<and> json_ok (snd m) \<and> json_numbers num (snd m)
    \<and> json_within (max_nesting_depth - 1) (snd m)"

lemma names_valid:
  "list_all utf8_valid
    [''base_amount'', ''currency'', ''location'', ''metadata'', ''plate'', ''source'', ''source_reference'',
     ''transaction_time_utc'', ''transaction_type'', ''transponder_number'', ''jurisdiction'', ''number'']"
  by code_simp

lemma text_wire_ok: "utf8_valid k \<Longrightarrow> utf8_valid s \<Longrightarrow> member_wire_ok num (k, JStr s)"
  by (simp add: member_wire_ok_def)

lemma map_wire_ok:
  "utf8_valid k \<Longrightarrow> map_pointer_ok (Some m) \<Longrightarrow> map_writable num (Some m) \<Longrightarrow> member_wire_ok num (k, JObj m)"
  by (simp add: member_wire_ok_def map_pointer_ok_def map_writable_def del: json_ok.simps json_numbers.simps json_within.simps)

lemma plate_wire_ok:
  assumes "plate_pointer_ok (Some p)"
  shows "member_wire_ok num (''plate'',
    JObj [(''jurisdiction'', JStr (prf_jurisdiction p)), (''number'', JStr (prf_number p))])"
  using assms names_valid
  by (simp add: member_wire_ok_def plate_pointer_ok_def gm_wf_def max_nesting_depth_def)

lemma request_members_wire_ok:
  assumes "request_writable num q"
  shows "list_all (member_wire_ok num) (request_members q)"
proof -
  have ok: "request_ok q" "map_writable num (ir_location q)" "map_writable num (ir_metadata q)"
    using assms by (simp_all add: request_writable_def)
  have texts: "utf8_valid (ir_base_amount q)" "utf8_valid (ir_source q)" "utf8_valid (ir_source_reference q)"
    "utf8_valid (ir_transaction_type q)" "\<And>s. ir_currency q = Some s \<Longrightarrow> utf8_valid s"
    "\<And>s. ir_transponder_number q = Some s \<Longrightarrow> utf8_valid s"
    using ok(1) by (auto simp: request_ok_def text_pointer_ok_def)
  have others: "\<And>p. ir_plate q = Some p \<Longrightarrow> plate_pointer_ok (Some p)"
    "\<And>m. ir_location q = Some m \<Longrightarrow> map_pointer_ok (Some m) \<and> map_writable num (Some m)"
    "\<And>m. ir_metadata q = Some m \<Longrightarrow> map_pointer_ok (Some m) \<and> map_writable num (Some m)"
    using ok by (auto simp: request_ok_def)
  note names = names_valid [unfolded list.pred_inject(2)]
  show ?thesis
    unfolding request_members_all
    using names texts others time_text_valid text_wire_ok map_wire_ok plate_wire_ok by simp
qed

definition request_tree :: "ingest_request \<Rightarrow> (string \<times> jtree) list" where
  "request_tree q = map (\<lambda>(k, v). (json_body k, jtree_of v)) (request_members q)"

lemma ingest_request_json_join:
  "ingest_request_json q @ x
    = CHR ''{'' # join '','' (map (\<lambda>(k, v). json_string k @ '':'' @ json_encode v) (request_members q)) @ CHR ''}'' # x"
  by (simp add: ingest_request_json_def json_members_def comp_def case_prod_unfold)

lemma scan_request:
  assumes "request_writable num q" and "2 * length (ingest_request_json q @ x) + 1 \<le> n"
  shows "scan_value n (ingest_request_json q @ x) = Some (TObj (request_tree q), x)"
proof -
  let ?e = "\<lambda>(k, v). json_string k @ '':'' @ json_encode v"
  let ?t = "join '','' (map ?e (request_members q)) @ CHR ''}'' # x"
  obtain m where n: "n = Suc m" using assms(2) by (cases n) simp_all
  have each: "utf8_valid k \<and> reads (json_encode v) (jtree_of v)" if "(k, v) \<in> set (request_members q)" for k v
    using request_members_wire_ok [OF assms(1)] that reads_encoded [of v num]
    by (fastforce simp: list_all_iff member_wire_ok_def)
  obtain ms where ms: "request_members q = (''base_amount'', JStr (ir_base_amount q)) # ms"
    by (simp add: request_members_def)
  have "scan_members m ?t = Some (request_tree q, x)"
    unfolding request_tree_def
  proof (rule scan_members_join [OF each _ refl])
    show "request_members q \<noteq> []" by (simp add: ms)
    show "2 * length ?t + 2 \<le> m" using assms(2) unfolding ingest_request_json_join n by simp
  qed
  moreover have "skip_ws ?t = ?t" "hd ?t = CHR 0x22"
  proof -
    have "?t = json_string ''base_amount'' @ '':'' @ json_encode (JStr (ir_base_amount q)) @ rest_of ?e (CHR ''}'') ms x"
      unfolding ms join_rest by simp
    then obtain u where "?t = CHR 0x22 # u" by (simp add: json_string_def)
    then show "skip_ws ?t = ?t" "hd ?t = CHR 0x22" by (simp_all add: skip_ws_Cons_same)
  qed
  ultimately show ?thesis unfolding ingest_request_json_join n by (simp add: skip_ws_Cons_same)
qed

lemma first_value_request:
  assumes "request_writable num q"
  shows "first_value whole (ingest_request_json q @ x) = Some (TObj (request_tree q))"
proof -
  let ?s = "ingest_request_json q @ x"
  have "scan_value (scan_fuel ?s) ?s = Some (TObj (request_tree q), x)"
    by (rule scan_request [OF assms]) (simp add: scan_fuel_def)
  moreover have "nests_within max_nesting_depth (TObj (request_tree q))"
    using request_members_wire_ok [OF assms]
    by (auto simp: request_tree_def list_all_iff member_wire_ok_def nests_within_encoded max_nesting_depth_def)
  ultimately show ?thesis by (simp add: first_value_def is_container_def)
qed

lemma by_name_tree:
  assumes "request_writable num q"
  shows "by_name (request_tree q) = map (\<lambda>(k, v). (k, jtree_of v)) (request_members q)"
  using request_members_wire_ok [OF assms]
  by (auto simp: by_name_def request_tree_def list_all_iff member_wire_ok_def unquote_json_body)

lemma request_member_names:
  "distinct (map fst (request_members q))" "list_all (\<lambda>(k, v). k \<in> set request_names) (request_members q)"
proof -
  show "distinct (map fst (request_members q))"
    by (auto simp: request_members_def text_member_def map_member_def plate_member_def split: option.splits)
  show "list_all (\<lambda>(k, v). k \<in> set request_names) (request_members q)"
    unfolding request_members_all by (simp add: request_names_def)
qed

lemma exact_request_tree:
  assumes "request_writable num q"
  shows "exact_names request_names (request_tree q)"
proof -
  have "map (unquote \<circ> fst) (request_tree q) = map fst (by_name (request_tree q))"
    by (simp add: by_name_def comp_def case_prod_unfold)
  then have "map (unquote \<circ> fst) (request_tree q) = map fst (request_members q)"
    unfolding by_name_tree [OF assms] by (simp add: comp_def case_prod_unfold)
  moreover have "field_named request_names (unquote k) = Some (unquote k)" if "(k, v) \<in> set (request_tree q)" for k v
  proof -
    have "(unquote k, v) \<in> set (by_name (request_tree q))" using that by (force simp: by_name_def)
    then show ?thesis
      using request_member_names(2) [of q] unfolding by_name_tree [OF assms]
      by (auto simp: list_all_iff field_named_def)
  qed
  ultimately show ?thesis
    using request_member_names(1) [of q] by (auto simp: exact_names_def list_all_iff)
qed

lemma json_body_time: "json_body (time_rfc3339 t) = time_rfc3339 t"
  using json_string_time [of t] json_string_body [of "time_rfc3339 t" "[]"] by simp

lemma member_typed_written:
  assumes "request_writable num q"
  shows "list_all (\<lambda>(k, v). member_typed num k (jtree_of v)) (request_members q)"
proof -
  have fits: "any_fits num (jtree_of (JObj m))" if "map_pointer_ok (Some m)" "map_writable num (Some m)" for m
    using any_of_encoded [of "JObj m" num] that by (simp add: map_pointer_ok_def map_writable_def)
  have maps: "member_typed num k (jtree_of (JObj m))"
    if "map_pointer_ok (Some m)" "map_writable num (Some m)" "k = ''location'' \<or> k = ''metadata''" for k m
    using fits [OF that(1,2)] that(3) by (auto simp: member_typed_def map_typed_def split: jtree.splits)
  have exact: "field_named plate_names ''jurisdiction'' = Some ''jurisdiction''"
    "field_named plate_names ''number'' = Some ''number''" by (simp_all add: field_named_def plate_names_def)
  have plate: "member_typed num ''plate'' (jtree_of (JObj [(''jurisdiction'', JStr a), (''number'', JStr b)]))"
    for a b
    using names_valid exact
    by (simp add: member_typed_def plate_typed_def exact_names_def unquote_json_body is_text_def)
  have time: "member_typed num ''transaction_time_utc'' (jtree_of (JStr (time_rfc3339 t)))" if "time_json_ok t" for t
    using that by (simp add: member_typed_def time_typed_def json_body_time parse_time_rfc3339)
  have texts: "member_typed num k (jtree_of (JStr s))"
    if "k \<in> {''base_amount'', ''source'', ''source_reference'', ''transaction_type'', ''currency'', ''transponder_number''}"
    for k s
    using that by (auto simp: member_typed_def is_text_def)
  have ok: "request_ok q" "map_writable num (ir_location q)" "map_writable num (ir_metadata q)"
      "time_json_ok (ir_transaction_time_utc q)"
    using assms by (simp_all add: request_writable_def)
  have loc: "ir_location q = Some m \<Longrightarrow> member_typed num ''location'' (jtree_of (JObj m))"
    and meta: "ir_metadata q = Some m \<Longrightarrow> member_typed num ''metadata'' (jtree_of (JObj m))" for m
    using ok(1-3) maps [of m] by (simp_all add: request_ok_def del: jtree_of.simps(6))
  show ?thesis
    unfolding request_members_all
    using loc meta plate time [OF ok(4)] texts by (simp del: jtree_of.simps)
qed

text \<open>What each name is written with.\<close>

lemma request_lookup:
  "map_of (request_members q) ''base_amount'' = Some (JStr (ir_base_amount q))"
  "map_of (request_members q) ''currency'' = map_option JStr (ir_currency q)"
  "map_of (request_members q) ''location'' = map_option JObj (ir_location q)"
  "map_of (request_members q) ''metadata'' = map_option JObj (ir_metadata q)"
  "map_of (request_members q) ''plate'' = map_option (\<lambda>p. JObj [(''jurisdiction'', JStr (prf_jurisdiction p)),
      (''number'', JStr (prf_number p))]) (ir_plate q)"
  "map_of (request_members q) ''source'' = Some (JStr (ir_source q))"
  "map_of (request_members q) ''source_reference'' = Some (JStr (ir_source_reference q))"
  "map_of (request_members q) ''transaction_time_utc'' = Some (JStr (time_rfc3339 (ir_transaction_time_utc q)))"
  "map_of (request_members q) ''transaction_type'' = Some (JStr (ir_transaction_type q))"
  "map_of (request_members q) ''transponder_number'' = map_option JStr (ir_transponder_number q)"
  by (simp_all add: request_members_def text_member_def map_member_def plate_member_def map_add_def
      split: option.splits)

lemma map_at_encoded:
  assumes "map_of m k = map_option (\<lambda>x. jtree_of (JObj x)) o1"
    and "\<And>x. o1 = Some x \<Longrightarrow> map_pointer_ok (Some x) \<and> map_writable num (Some x)"
  shows "map_at num m k = map_option canon_map o1"
proof (cases o1)
  case (Some x)
  have "any_of num (jtree_of (JObj x)) = JObj (canon_map x)"
    using any_of_encoded [of "JObj x" num] assms(2) [OF Some]
    by (simp add: map_pointer_ok_def map_writable_def canon_map_def json_canon_obj del: jtree_of.simps any_of.simps
        json_canon.simps)
  then show ?thesis using assms(1) Some by (simp add: map_at_def)
qed (use assms(1) in \<open>simp add: map_at_def\<close>)

lemma text_at_encoded:
  "map_of m k = Some (jtree_of (JStr s)) \<Longrightarrow> utf8_valid s \<Longrightarrow> text_at m k = s"
  "map_of m k = map_option (\<lambda>s. jtree_of (JStr s)) o1 \<Longrightarrow> text_pointer_ok o1 \<Longrightarrow> text_pointer_at m k = o1"
  by (auto simp: text_at_def text_pointer_at_def text_pointer_ok_def unquote_json_body split: option.splits)

lemma plate_at_encoded:
  assumes "map_of m k = map_option (\<lambda>p. jtree_of (JObj [(''jurisdiction'', JStr (prf_jurisdiction p)),
      (''number'', JStr (prf_number p))])) o1"
    and "plate_pointer_ok o1"
  shows "plate_at m k = o1"
proof (cases o1)
  case (Some p)
  have "utf8_valid ''jurisdiction''" "utf8_valid ''number''" using names_valid by simp_all
  then show ?thesis
    using assms Some
    by (cases p) (simp add: plate_at_def plate_from_def by_name_def text_at_def unquote_json_body plate_pointer_ok_def)
qed (use assms in \<open>simp add: plate_at_def\<close>)

lemma request_from_written:
  assumes "request_writable num q"
  shows "request_from num (by_name (request_tree q)) = canon_request q"
proof -
  let ?m = "map (\<lambda>(k, v). (k, jtree_of v)) (request_members q)"
  have look: "map_of ?m k = map_option jtree_of (map_of (request_members q) k)" for k
    by (simp add: map_of_map)
  have ok: "request_ok q" "map_writable num (ir_location q)" "map_writable num (ir_metadata q)"
      "time_json_ok (ir_transaction_time_utc q)" "t_off (ir_transaction_time_utc q) = 0"
    using assms by (simp_all add: request_writable_def)
  have texts: "text_at ?m ''base_amount'' = ir_base_amount q" "text_at ?m ''source'' = ir_source q"
    "text_at ?m ''source_reference'' = ir_source_reference q"
    "text_at ?m ''transaction_type'' = ir_transaction_type q"
    using ok(1) by (auto simp: look request_lookup request_ok_def simp del: jtree_of.simps intro!: text_at_encoded(1))
  have pointers: "text_pointer_at ?m ''currency'' = ir_currency q"
    "text_pointer_at ?m ''transponder_number'' = ir_transponder_number q"
    using ok(1) by (auto simp: look request_lookup request_ok_def option.map_comp comp_def simp del: jtree_of.simps
        intro!: text_at_encoded(2))
  have maps: "map_at num ?m ''location'' = map_option canon_map (ir_location q)"
    "map_at num ?m ''metadata'' = map_option canon_map (ir_metadata q)"
    using ok(1-3) by (auto simp: look request_lookup request_ok_def option.map_comp comp_def simp del: jtree_of.simps
        intro!: map_at_encoded)
  have plate: "plate_at ?m ''plate'' = ir_plate q"
    using ok(1) by (auto simp: look request_lookup request_ok_def option.map_comp comp_def simp del: jtree_of.simps
        intro!: plate_at_encoded)
  have "time_utc (ir_transaction_time_utc q) = ir_transaction_time_utc q"
    using ok(5) by (cases "ir_transaction_time_utc q") (simp add: time_utc_def)
  then have time: "time_at ?m ''transaction_time_utc'' = ir_transaction_time_utc q"
    using parse_time_rfc3339 [OF ok(4)] by (simp add: time_at_def look request_lookup json_body_time)
  show ?thesis
    unfolding by_name_tree [OF assms] request_from_def texts pointers maps plate time
    by (cases q) (simp add: canon_request_def)
qed

lemma decode_written:
  assumes "request_writable num q"
  shows "decode_body num (ingest_request_json q @ x, e) = Inr (canon_request q)"
proof -
  have "list_all (\<lambda>(k, v). member_typed num (unquote k) v) (request_tree q)"
    using member_typed_written [OF assms] request_members_wire_ok [OF assms]
    by (fastforce simp: request_tree_def list_all_iff member_wire_ok_def unquote_json_body)
  from set_members_typed [OF exact_request_tree [OF assms] this] show ?thesis
    by (simp add: decode_body_def first_value_request [OF assms] request_of_tree_def
        request_from_written [OF assms])
qed

text \<open>A producer for the witnesses.\<close>

definition demo_number :: "string \<Rightarrow> string option" where
  "demo_number n = (if number_text n then Some n else None)"

definition demo_json :: json_lib where
  "demo_json = \<lparr>jl_number = demo_number, jl_error = (\<lambda>_. ''cannot decode'')\<rparr>"

lemma demo_floats_ok: "floats_ok (jl_number demo_json)"
  by (simp add: floats_ok_def demo_json_def demo_number_def)

definition demo_wire :: ingest_request where
  "demo_wire =
    \<lparr>ir_base_amount = ''12.50'', ir_currency = Some ''usd'',
     ir_location = Some [(''plaza'', JStr ''12''), (''lane'', JNum ''3'')], ir_metadata = None,
     ir_plate = Some \<lparr>prf_jurisdiction = ''TX'', prf_number = ''abc-123''\<rparr>,
     ir_source = ''lane-7'', ir_source_reference = ''0001'',
     ir_transaction_time_utc = \<lparr>t_ns = 739616 * day_ns + 500000000, t_off = 0\<rparr>,
     ir_transaction_type = ''toll'', ir_transponder_number = None\<rparr>"

definition wire_request :: "string \<Rightarrow> request" where
  "wire_request b = \<lparr>rq_method = ''POST'', rq_path = ''/ingest/v1/transactions'', rq_header = [],
     rq_body = Some b, rq_limit = None, rq_id = None, rq_remote_addr = []\<rparr>"

lemma wire_request_body [simp]: "read_body (wire_request b) = Inr b"
  by (simp add: wire_request_def read_body_def)

lemma demo_wire_writable: "request_writable (jl_number demo_json) demo_wire"
proof -
  have "request_ok demo_wire" by code_simp
  moreover have "t_off (ir_transaction_time_utc demo_wire) = 0" "time_json_ok (ir_transaction_time_utc demo_wire)"
    by code_simp+
  moreover have "map_writable (jl_number demo_json) (ir_location demo_wire)"
    "map_writable (jl_number demo_json) (ir_metadata demo_wire)"
    by (simp_all add: demo_wire_def map_writable_def demo_json_def max_nesting_depth_def demo_number_def)
       code_simp
  ultimately show ?thesis by (simp add: request_writable_def)
qed

section \<open>Properties\<close>

text \<open>C5: A producer that serialises the generated request type is understood: the body it sends, whatever
  follows it, is decoded to the same request, with the members of location and metadata in the
  order they were written, when the texts are valid UTF-8, the time is in UTC with a year of four
  digits, the numbers are written as Go writes them, and the nesting is within the limit of the
  decoder.\<close>

theorem request_wire_roundtrip:
  assumes "request_writable (jl_number J) q" and "read_body r = Inr (ingest_request_json q @ x)"
  shows "decode_request J r = Inr (canon_request q)"
  using decode_written [OF assms(1)] assms(2)
  by (simp add: decode_request_def readable_def)

theorem request_wire_roundtrip_witness:
  "decode_request demo_json (wire_request (ingest_request_json demo_wire)) = Inr (canon_request demo_wire)
    \<and> ir_location (canon_request demo_wire) = Some [(''lane'', JNum ''3''), (''plaza'', JStr ''12'')]"
proof -
  have "ir_location (canon_request demo_wire) = Some [(''lane'', JNum ''3''), (''plaza'', JStr ''12'')]"
    by code_simp
  then show ?thesis
    using request_wire_roundtrip [OF demo_wire_writable, of "wire_request (ingest_request_json demo_wire)" "[]"]
    by simp
qed

end
