(* ===== verification/Wire_Props.thy ===== *)
theory Wire_Props
  imports Request_Wire Fingerprint_Unique Ingest_Props
begin

text \<open>
  What the decoder means for the service: a transaction that was accepted from a body has texts and
  values that can be written, so that its fingerprint is its content; and a body the contract
  allows and the decoder refuses is answered by the branch of the handler that calls itself
  practically unreachable.
\<close>

section \<open>Accepted transactions of decoded bodies\<close>

text \<open>A configuration whose types are valid UTF-8 and whose default currency, if any, is known.\<close>

definition rules_texts_ok :: "'w rules \<Rightarrow> bool" where
  "rules_texts_ok r \<longleftrightarrow>
    (case r_types r of None \<Rightarrow> True | Some ts \<Rightarrow> list_all utf8_valid (all_types ts))
    \<and> (currency_is_zero (r_default_currency r) \<or> cur_code (r_default_currency r) \<in> set codes)"

lemma canonical_type_valid:
  "canonical_type U ts raw = Some t \<Longrightarrow> list_all utf8_valid (all_types ts) \<Longrightarrow> utf8_valid t"
  by (auto simp: canonical_type_def all_types_def list_all_iff Let_def split: if_splits dest!: map_of_SomeD)

lemma resolved_currency_known:
  assumes "rules_texts_ok r" and "snd (resolve_currency U r raw) = None"
  shows "cur_code (fst (resolve_currency U r raw)) \<in> set codes"
  using assms lookup_exponent [of U raw]
  by (auto simp: resolve_currency_def rules_texts_ok_def split: if_splits option.splits)

lemma decoded_request_ok:
  assumes "floats_ok (jl_number J)" and "decode_request J r = Inr q"
  shows "request_ok q"
proof -
  have "request_ok q" if "request_of_tree (jl_number J) t = Inr q" for t
    using that set_members_ok [OF assms(1) _ zero_request_ok] zero_request_ok
    by (auto simp: request_of_tree_def split: jtree.splits)
  then show ?thesis
    using assms(2) by (auto simp: decode_request_def decode_body_def split: sum.splits option.splits)
qed

lemma accepted_writable:
  assumes "request_ok q" and "rules_texts_ok rl" and "rule_problems L rl now (to_submission q) = []"
  shows "writable (accepted_tx L rl now (to_submission q) i)
    \<longleftrightarrow> time_json_ok (time_utc (ir_transaction_time_utc q))"
proof -
  let ?s = "to_submission q" and ?t = "accepted_tx L rl now (to_submission q) i"
  note parts = rule_problems_Nil_parts [OF assms(3)]
  have type: "utf8_valid (tx_type ?t)"
    using parts(1) assms(2) validate_type_value [of L rl "sub_type ?s"]
    by (auto simp: accepted_tx_def rules_texts_ok_def intro: canonical_type_valid)
  have currency: "cur_code (amt_currency (tx_base_amount ?t)) \<in> set codes"
    using accepted_amount [OF assms(3), of i] resolve_currency_value [of L rl ?s]
      resolved_currency_known [OF assms(2) parts(3)]
    by (auto simp: parse_Inr_iff)
  note reads = accepted_identity(2,3) [OF parts(5), where L = L and r = rl and now = now and i = i]
  have "utf8_valid (pl_number p) \<and> utf8_valid (pl_jurisdiction p)" if "tx_plate ?t = Some p" for p
    using reads(1) [OF that] assms(1)
    by (auto simp: to_submission_def request_ok_def plate_pointer_ok_def split: option.splits)
  then have plate: "utf8_valid (fst (plate_texts ?t))" "utf8_valid (snd (plate_texts ?t))"
    by (auto simp: plate_texts_def split: option.split)
  have "utf8_valid (tr_number n)" if "tx_transponder ?t = Some n" for n
    using reads(2) [OF that] assms(1)
    by (auto simp: to_submission_def request_ok_def text_pointer_ok_def split: option.splits)
  then have transponder: "utf8_valid (transponder_text ?t)"
    by (auto simp: transponder_text_def split: option.split)
  have "tx_source ?t = ir_source q" "tx_source_reference ?t = ir_source_reference q"
    "tx_location ?t = ir_location q" "tx_metadata ?t = ir_metadata q"
    by (simp_all add: accepted_tx_def to_submission_def)
  then have "utf8_valid (tx_source ?t)" "utf8_valid (tx_source_reference ?t)"
    "map_ok (tx_location ?t)" "map_ok (tx_metadata ?t)"
    using assms(1) by (simp_all add: request_ok_def map_ok_def map_pointer_ok_def)
  moreover have "tx_occurred_at ?t = time_utc (ir_transaction_time_utc q)"
    using accepted_time(1) [OF assms(3), of i] by (simp add: to_submission_def)
  ultimately show ?thesis
    using type currency plate transponder by (simp add: writable_def)
qed

text \<open>C6: Whatever bytes a producer sends: a transaction that was accepted from them is well-formed, and
  it can be written, that is its texts are valid UTF-8, its location and metadata are objects with
  distinct names whose values the encoder writes, and its currency is in the table, exactly when
  its time has a year of four digits. So the fingerprint of an accepted push is its billable
  content. The configuration must be valid UTF-8 too, and a number must be written as JSON.\<close>

theorem pushed_transaction_writable:
  assumes "srv_decode srv = decode_request J" and "floats_ok (jl_number J)"
    and "rules_texts_ok (srv_rules srv)" and "accepted_request L srv r e = Some tx"
  shows "tx_ok L tx \<and> (writable tx \<longleftrightarrow> time_json_ok (tx_occurred_at tx))"
proof -
  obtain q now i where q: "decode_request J r = Inr q"
    and none: "rule_problems L (srv_rules srv) now (to_submission q) = []"
    and tx: "tx = accepted_tx L (srv_rules srv) now (to_submission q) i"
    using assms(1,4) by (auto simp: accepted_request_def split: sum.splits acceptance.splits)
      (metis accept_Accepted prod.collapse)
  have "tx_occurred_at tx = time_utc (ir_transaction_time_utc q)"
    using accepted_time(1) [OF none, of i] by (simp add: tx to_submission_def)
  then show ?thesis
    using accepted_writable [OF decoded_request_ok [OF assms(2) q] assms(3) none]
      accepted_tx_ok [OF none] by (simp add: tx)
qed

section \<open>Witnesses\<close>

definition wire_server ::
  "('s \<Rightarrow> refdec transaction \<Rightarrow> (string + refdec ingest_outcome) \<times> 's) \<Rightarrow> (uuid, 's, refdec) ingest_server" where
  "wire_server st = (demo_server st demo_wire)\<lparr>srv_decode := decode_request demo_json\<rparr>"

lemma wire_server_simps [simp]:
  "srv_runtime (wire_server st) = demo_runtime" "srv_rules (wire_server st) = demo_rules"
  "srv_store (wire_server st) = st" "srv_decode (wire_server st) = decode_request demo_json"
  "prometheus_ok (srv_accepts (wire_server st))"
  by (simp_all add: wire_server_def demo_server_def prometheus_ok_def)

definition wire_tx :: "uuid \<Rightarrow> refdec transaction" where
  "wire_tx i = accepted_tx ref_lib demo_rules demo_now (to_submission (canon_request demo_wire)) i"

lemma wire_accepted:
  "accepted_request ref_lib (wire_server st) (wire_request (ingest_request_json demo_wire)) e
    = Some (wire_tx (e + 1))"
proof -
  have "decode_request demo_json (wire_request (ingest_request_json demo_wire)) = Inr (canon_request demo_wire)"
    using decode_written [OF demo_wire_writable, of "[]" None]
    by (simp add: decode_request_def readable_def)
  moreover have "rule_problems ref_lib demo_rules demo_now (to_submission (canon_request demo_wire)) = []"
    by code_simp
  ultimately show ?thesis by (simp add: accepted_request_def accept_eq wire_tx_def)
qed

theorem pushed_transaction_writable_witness: "writable (wire_tx 7)"
proof -
  have "rules_texts_ok (demo_rules :: uuid rules)" by code_simp
  moreover have "time_json_ok (tx_occurred_at (wire_tx 7))" by code_simp
  ultimately show ?thesis
    using pushed_transaction_writable [OF _ demo_floats_ok _ wire_accepted, where e = 6] by simp
qed

section \<open>A time the contract allows and Go cannot read\<close>

lemma set_members_bad_time:
  assumes "(k, TStr s) \<in> set ms" and "field_named request_names (unquote k) = Some ''transaction_time_utc''"
    and "parse_rfc3339 s = None"
  shows "\<exists>e. set_members num ms saved q = Inl e"
  using assms(1)
proof (induction ms arbitrary: saved q)
  case (Cons kv ms)
  show ?case
  proof (cases "kv = (k, TStr s)")
    case True
    then show ?thesis using assms(2,3) by (simp add: set_field_def set_time_def)
  next
    case False
    then have IH: "\<exists>e. set_members num ms saved q = Inl e" for saved q using Cons by simp
    then show ?thesis by (cases kv) (auto split: option.splits sum.splits prod.splits)
  qed
qed simp

lemma unreadable_answer:
  assumes "srv_decode srv r = Inl e" and "prometheus_ok (srv_accepts srv)"
  shows "\<exists>w'. ingest_transaction L srv r w =
      (write_error 400 ''request body could not be read''
         [\<lparr>fe_field = ''body'', fe_reason = ''is not valid JSON''\<rparr>], None, w')
    \<and> wd_store w' = wd_store w"
proof -
  obtain started e0 where now: "sys_now (srv_runtime srv) (wd_env w) = (started, e0)" by fastforce
  define calls where "calls = write_error 400 ''request body could not be read''
    [\<lparr>fe_field = ''body'', fe_reason = ''is not valid JSON''\<rparr>]"
  define v where "v = log_attrs Level_Warn ''body decoded by the validator but not by the handler''
    [(''request_id'', request_id_from r), (''error'', e)] (w\<lparr>wd_env := e0\<rparr>)"
  have "source_label_valid ''unknown''"
    by (simp add: source_label_valid_def utf8_valid_ascii is_ascii_def code_def)
  from answer_returns [OF assms(2) this results_valid(3)] obtain w' where
    "answer srv ''unknown'' result_rejected started calls v = (calls, None, w')" "wd_store w' = wd_store v"
    by blast
  moreover have "ingest_transaction L srv r w = answer srv ''unknown'' result_rejected started calls v"
    unfolding calls_def v_def by (simp only: ingest_transaction_def now assms(1) Let_def prod.case sum.case)
  moreover have "wd_store v = wd_store w" by (simp add: v_def)
  ultimately show ?thesis unfolding calls_def by simp
qed

text \<open>C38: A body that is JSON and whose time has the form the contract asks for, but names no instant Go
  can represent, such as a leap second or the 30th of February, reaches the branch of the handler
  that is called practically unreachable: the producer is told that its body is not valid JSON,
  whatever else the body holds, and nothing is stored.\<close>

theorem unreadable_time_answered_not_JSON:
  assumes "srv_decode srv = decode_request J" and "prometheus_ok (srv_accepts srv)"
    and "read_body r = Inr b" and "first_value True b = Some (TObj ms)"
    and "(k, TStr s) \<in> set ms" and "unquote k = ''transaction_time_utc''" and "parse_rfc3339 s = None"
  shows "\<exists>w'. ingest_transaction L srv r w =
      (write_error 400 ''request body could not be read''
         [\<lparr>fe_field = ''body'', fe_reason = ''is not valid JSON''\<rparr>], None, w')
    \<and> wd_store w' = wd_store w"
proof -
  have "field_named request_names (unquote k) = Some ''transaction_time_utc''"
    unfolding assms(6) by (simp add: field_named_def request_names_def)
  then obtain e where "set_members (jl_number J) ms None zero_request = Inl e"
    using set_members_bad_time [OF assms(5) _ assms(7)] by blast
  then have "decode_request J r = Inl (jl_error J e)"
    by (simp add: decode_request_def readable_def assms(3) decode_body_def assms(4) request_of_tree_def)
  then have "srv_decode srv r = Inl (jl_error J e)" by (simp only: assms(1))
  then show ?thesis by (rule unreadable_answer [OF _ assms(2)])
qed

definition leap_second_members :: "(string \<times> string) list" where
  "leap_second_members =
    [(''source'', ''lane-7''), (''source_reference'', ''0001''), (''transaction_type'', ''toll''),
     (''transaction_time_utc'', ''2016-12-31T23:59:60Z''), (''base_amount'', ''12.50''),
     (''transponder_number'', ''0180012345678'')]"

definition leap_second_body :: string where
  "leap_second_body = json_members (map (\<lambda>(k, v). (k, json_string v)) leap_second_members)"

lemma leap_second_scanned:
  "first_value True leap_second_body = Some (TObj (map (\<lambda>(k, v). (k, TStr v)) leap_second_members))"
  by code_simp

theorem unreadable_time_answered_not_JSON_witness:
  "rs_status (respond (fst (ingest_transaction ref_lib (wire_server (mem_ingest ref_lib))
     (wire_request leap_second_body) (demo_world mem_new)))) = 400"
proof -
  have srv: "srv_decode (wire_server (mem_ingest ref_lib)) = decode_request demo_json"
    "prometheus_ok (srv_accepts (wire_server (mem_ingest ref_lib)))" by simp_all
  have "unquote ''transaction_time_utc'' = ''transaction_time_utc''" "parse_rfc3339 ''2016-12-31T23:59:60Z'' = None"
    by code_simp+
  moreover have "(''transaction_time_utc'', TStr ''2016-12-31T23:59:60Z'')
      \<in> set (map (\<lambda>(k, v). (k, TStr v)) leap_second_members)" by (simp add: leap_second_members_def)
  ultimately show ?thesis
    using unreadable_time_answered_not_JSON [OF srv wire_request_body leap_second_scanned,
        where L = ref_lib and w = "demo_world mem_new"]
      respond_write_error by fastforce
qed

end
