(* ===== verification/Wire_Service.thy ===== *)
theory Wire_Service
  imports Service_Props Wire_Props
begin

text \<open>
  The service from the bytes of a request to the record in the store: the layers, the contract
  check, the decoder, the rules and the store, one after the other.
\<close>

lemma read_inner_body:
  assumes "rq_body r = Some b" and "rq_limit r = None" and "int (length b) \<le> 1048576"
  shows "read_body (inner_request r i) = Inr b"
  using assms by (simp add: read_body_def inner_request_def Let_def)

lemma decode_inner:
  assumes "request_writable (jl_number J) q" and "rq_body r = Some (ingest_request_json q)"
    and "rq_limit r = None" and "int (length (ingest_request_json q)) \<le> 1048576"
  shows "decode_request J (inner_request r i) = Inr (canon_request q)"
  using decode_written [OF assms(1), of "[]" None] read_inner_body [OF assms(2-4)]
  by (simp add: decode_request_def readable_def)

text \<open>What the record keeps of the request.\<close>

definition records_request :: "ingest_request \<Rightarrow> 'd transaction \<Rightarrow> bool" where
  "records_request q tx \<longleftrightarrow>
    tx_source tx = ir_source q \<and> tx_source_reference tx = ir_source_reference q
    \<and> amt_as_received (tx_base_amount tx) = ir_base_amount q
    \<and> tx_occurred_at tx = time_utc (ir_transaction_time_utc q)
    \<and> tx_location tx = map_option canon_map (ir_location q)
    \<and> tx_metadata tx = map_option canon_map (ir_metadata q)"

lemma accepted_records:
  assumes "accept L S rl (to_submission (canon_request q)) e = (Accepted tx, e1)"
  shows "records_request q tx"
proof -
  obtain now i where none: "rule_problems L rl now (to_submission (canon_request q)) = []"
    and tx: "tx = accepted_tx L rl now (to_submission (canon_request q)) i"
    using accept_Accepted [OF assms] by blast
  have "amt_as_received (tx_base_amount tx) = ir_base_amount q"
    using accepted_amount [OF none, of i]
    by (auto simp: tx parse_Inr_iff to_submission_def canon_request_def)
  moreover have "tx_occurred_at tx = time_utc (ir_transaction_time_utc q)"
    using accepted_time(1) [OF none, of i] by (simp add: tx to_submission_def canon_request_def)
  ultimately show ?thesis
    by (simp add: records_request_def tx accepted_tx_def to_submission_def canon_request_def)
qed

text \<open>Over any store: the record is the accepted transaction, and the answer what the store said.\<close>

lemma pushed_bytes_served:
  assumes "new_router L srv (Inr V) ck prom M = Inr serve" and "prometheus_ok (srv_accepts srv)"
    and "srv_decode srv = decode_request J"
    and "rq_method r = ''POST''" and "rq_path r = ''/ingest/v1/transactions''"
    and "rq_body r = Some (ingest_request_json q)" and "rq_limit r = None"
    and "int (length (ingest_request_json q)) \<le> 1048576" and "request_writable (jl_number J) q"
    and "vd_check V (inner_request r (id_of M r w)) = None"
    and "accept L (srv_runtime srv) (srv_rules srv) (to_submission (canon_request q))
        (snd (sys_now (srv_runtime srv) (wd_env (inner_world M r w)))) = (Accepted tx, e1)"
    and "srv_store srv (wd_store w) tx = (res, s)"
  shows "records_request q tx"
    and "key_of tx = \<lparr>key_source = ir_source q, key_source_reference = ir_source_reference q\<rparr>"
    and "accepted_request L srv (inner_request r (id_of M r w)) (wd_env (inner_world M r w)) = Some tx"
    and "\<exists>w'. serve r w = (Set_Header request_id_header (id_of M r w)
        # push_answer L (sources_of w) (ir_source q) res, None, w') \<and> wd_store w' = s"
proof -
  show records: "records_request q tx" using accepted_records [OF assms(11)] .
  then show "key_of tx = \<lparr>key_source = ir_source q, key_source_reference = ir_source_reference q\<rparr>"
    by (simp add: key_of_def records_request_def)
  show acc: "accepted_request L srv (inner_request r (id_of M r w)) (wd_env (inner_world M r w)) = Some tx"
    using decode_inner [OF assms(9,6,7,8)] assms(11) by (simp add: accepted_request_def assms(3))
  have "tx_source tx = ir_source q" using records by (simp add: records_request_def)
  then show "\<exists>w'. serve r w = (Set_Header request_id_header (id_of M r w)
        # push_answer L (sources_of w) (ir_source q) res, None, w') \<and> wd_store w' = s"
    using served_push_answer [OF assms(1,2,4,5,10) acc assms(12)] by simp
qed

text \<open>C3: From the bytes to the record, over the memory store: a producer posts the encoding of a request
  that the contract and the rules allow, under a key that is new; then the store maps the key to
  the accepted transaction and nothing else has changed, and that transaction has the source, the
  reference, the amount as written, the instant, and the location and metadata of the request. The
  producer is answered 201, unless the metrics refuse its source (\<open>countable_source\<close>: the first 64
  bytes end inside a character and the label set does not count it among the others): then it is
  answered 500.\<close>

theorem pushed_bytes_recorded:
  assumes "new_router L srv (Inr V) ck prom M = Inr serve" and "prometheus_ok (srv_accepts srv)"
    and "srv_decode srv = decode_request J" and "srv_store srv = mem_ingest L"
    and "rq_method r = ''POST''" and "rq_path r = ''/ingest/v1/transactions''"
    and "rq_body r = Some (ingest_request_json q)" and "rq_limit r = None"
    and "int (length (ingest_request_json q)) \<le> 1048576" and "request_writable (jl_number J) q"
    and "vd_check V (inner_request r (id_of M r w)) = None"
    and "accept L (srv_runtime srv) (srv_rules srv) (to_submission (canon_request q))
        (snd (sys_now (srv_runtime srv) (wd_env (inner_world M r w)))) = (Accepted tx, e1)"
    and "k = \<lparr>key_source = ir_source q, key_source_reference = ir_source_reference q\<rparr>"
    and "mem_found (wd_store w) k = None"
  shows "\<exists>calls w'. serve r w = (calls, None, w')
    \<and> rs_status (respond calls)
        = (if countable_source (m_sources (wd_metrics w)) (ir_source q) then 201 else 500)
    \<and> mem_found (wd_store w') = (mem_found (wd_store w))(k \<mapsto> tx) \<and> records_request q tx"
proof -
  obtain out s where st: "mem_ingest L (wd_store w) tx = (Inr out, s)" using mem_ingest_never_fails by blast
  then have "srv_store srv (wd_store w) tx = (Inr out, s)" by (simp add: assms(4))
  note pushed = pushed_bytes_served [OF assms(1-3,5-12) this]
  have key: "key_of tx = k" using pushed(2) assms(13) by simp
  have "\<not> out_duplicate out"
    using st assms(14) by (auto simp: mem_ingest_def mem_found_def key Let_def split: option.splits)
  moreover have "mem_found s = (mem_found (wd_store w))(k \<mapsto> tx)"
    using mem_found_ingest [of L "wd_store w" tx] st key assms(14) by (auto simp: fun_eq_iff split: option.splits)
  moreover obtain w' where "serve r w = (Set_Header request_id_header (id_of M r w)
      # push_answer L (sources_of w) (ir_source q) (Inr out), None, w')" "wd_store w' = s"
    using pushed(4) by blast
  ultimately show ?thesis
    using pushed(1) push_answer_status [of "id_of M r w" L "sources_of w" "ir_source q" "Inr out"] by simp
qed

definition wire_service :: "(uuid, refdec mem_store) world handler" where
  "wire_service =
    chain (serve_mux (service_routes ref_lib (wire_server (mem_ingest ref_lib))
        demo_validator (new_checker 0) (\<lambda>r w. ([], None, w))))
      (service_layers demo_mw (srv_accepts (wire_server (mem_ingest ref_lib))))"

lemma wire_service_router:
  "new_router ref_lib (wire_server (mem_ingest ref_lib)) (Inr demo_validator)
    (new_checker 0) (\<lambda>r w. ([], None, w)) demo_mw = Inr wire_service"
  by (simp add: new_router_def wire_service_def)

text \<open>What the service does with the request of the witnesses, over any store.\<close>

lemma demo_wire_push:
  defines "r \<equiv> wire_request (ingest_request_json demo_wire)"
  shows "rq_method r = ''POST''" "rq_path r = ''/ingest/v1/transactions''"
    and "rq_body r = Some (ingest_request_json demo_wire)" and "rq_limit r = None"
    and "int (length (ingest_request_json demo_wire)) \<le> 1048576"
    and "vd_check demo_validator (inner_request r i) = None"
    and "accept ref_lib (srv_runtime (wire_server st)) (srv_rules (wire_server st))
        (to_submission (canon_request demo_wire)) (snd (sys_now (srv_runtime (wire_server st)) e))
      = (Accepted (wire_tx (e + 1)), e + 1)"
    and "source_label_valid (ir_source demo_wire)"
proof -
  show req: "rq_method r = ''POST''" "rq_path r = ''/ingest/v1/transactions''"
    "rq_body r = Some (ingest_request_json demo_wire)" "rq_limit r = None"
    by (simp_all add: r_def wire_request_def)
  have "length (ingest_request_json demo_wire) < 1000" by code_simp
  then show len: "int (length (ingest_request_json demo_wire)) \<le> 1048576" by simp
  show "vd_check demo_validator (inner_request r i) = None"
    using read_inner_body [OF req(3,4) len] by (simp add: demo_validator_def demo_check_def)
  have "rule_problems ref_lib demo_rules demo_now (to_submission (canon_request demo_wire)) = []" by code_simp
  then show "accept ref_lib (srv_runtime (wire_server st)) (srv_rules (wire_server st))
        (to_submission (canon_request demo_wire)) (snd (sys_now (srv_runtime (wire_server st)) e))
      = (Accepted (wire_tx (e + 1)), e + 1)"
    by (simp add: accept_eq wire_tx_def Let_def)
  show "source_label_valid (ir_source demo_wire)" by code_simp
qed

theorem pushed_bytes_recorded_witness:
  "\<exists>calls w' tx. wire_service (wire_request (ingest_request_json demo_wire)) memory_start = (calls, None, w')
    \<and> rs_status (respond calls) = 201
    \<and> mem_found (wd_store w') = [\<lparr>key_source = ''lane-7'', key_source_reference = ''0001''\<rparr> \<mapsto> tx]
    \<and> records_request demo_wire tx"
proof -
  let ?srv = "wire_server (mem_ingest ref_lib)"
  have srv: "prometheus_ok (srv_accepts ?srv)" "srv_decode ?srv = decode_request demo_json"
    "srv_store ?srv = mem_ingest ref_lib" by simp_all
  have "mem_found (wd_store memory_start) k = None" for k by (simp add: mem_found_def mem_new_def)
  moreover have "mem_found (wd_store memory_start) = Map.empty" by (simp add: fun_eq_iff mem_found_def mem_new_def)
  moreover have "ir_source demo_wire = ''lane-7''" "ir_source_reference demo_wire = ''0001''" by (simp_all add: demo_wire_def)
  ultimately show ?thesis
    using pushed_bytes_recorded [OF wire_service_router srv demo_wire_push(1-5) demo_wire_writable
        demo_wire_push(6,7) refl, of memory_start] source_label_countable [OF demo_wire_push(8)] by auto
qed

end
