(* ===== verification/Wire_Postgres.thy ===== *)
theory Wire_Postgres
  imports Wire_Service
begin

text \<open>
  The service from the bytes of a request to the rows of the database: what \<open>Wire_Service\<close> says of
  the memory store, over \<open>internal/store/postgres\<close>.
\<close>

text \<open>C30: From the bytes to the row: over a database that is reachable during the push, a producer posts
  the encoding of a request that the contract, the rules and the schema allow. Under a new key the
  tables then hold what they held and the accepted transaction, with exactly one event for it; it
  has the source, the reference, the amount as written, the instant, the location and the metadata
  of the request. Under a key the tables hold, they stay as they are. The producer is answered 201
  or 200, unless the metrics refuse its source (\<open>countable_source\<close>: the first 64 bytes end inside
  a character and the label set does not count it among the others): then it is answered 500, over
  the same tables.\<close>

theorem pushed_bytes_durable:
  assumes "new_router L srv (Inr V) ck prom M = Inr serve" and "prometheus_ok (srv_accepts srv)"
    and "srv_decode srv = decode_request J" and "srv_store srv = pg_step L calls"
    and "default_currency_known L (srv_rules srv)"
    and "rq_method r = ''POST''" and "rq_path r = ''/ingest/v1/transactions''"
    and "rq_body r = Some (ingest_request_json q)" and "rq_limit r = None"
    and "int (length (ingest_request_json q)) \<le> 1048576" and "request_writable (jl_number J) q"
    and "vd_check V (inner_request r (id_of M r w)) = None"
    and "accept L (srv_runtime srv) (srv_rules srv) (to_submission (canon_request q))
        (snd (sys_now (srv_runtime srv) (wd_env (inner_world M r w)))) = (Accepted tx, e1)"
    and "wd_store w = (d, z)" and "calm (fst (calls z)) d" and "db_holds L d ts"
    and "row_error (row_of L tx (fingerprint L tx)) = None" and "tx_id tx \<notin> tx_id ` set ts"
    and "time_json_ok (time_utc (tx_occurred_at tx))" and "time_json_ok (time_utc (tx_received_at tx))"
    and "k = \<lparr>key_source = ir_source q, key_source_reference = ir_source_reference q\<rparr>"
  shows "\<exists>cs w'. serve r w = (cs, None, w') \<and> records_request q tx \<and> key_of tx = k
    \<and> rs_status (respond cs)
        = (if \<not> countable_source (m_sources (wd_metrics w)) (ir_source q) then 500
           else if k \<in> key_of ` set ts then 200 else 201)
    \<and> (if k \<in> key_of ` set ts then fst (wd_store w') = d
       else db_holds L (fst (wd_store w')) (ts @ [tx]) \<and> pg_found L (wd_store w') k = Some (pg_view tx))"
proof -
  obtain res s where st: "pg_step L calls (d, z) tx = (res, s)"
    by (cases "pg_step L calls (d, z) tx")
  then have "srv_store srv (wd_store w) tx = (res, s)" by (simp add: assms(4,14))
  note pushed = pushed_bytes_served [OF assms(1-3,6-13) this]
  have key: "key_of tx = k" using pushed(2) assms(21) by simp
  have admits: "pg_admits L tx" by (rule accepted_request_pg_admits [OF assms(5) pushed(3)])
  obtain w' where run: "serve r w = (Set_Header request_id_header (id_of M r w)
      # push_answer L (sources_of w) (ir_source q) res, None, w')" "wd_store w' = s"
    using pushed(4) by blast
  note answer = push_answer_status [of "id_of M r w" L "sources_of w" "ir_source q" res]
  obtain x d' where one: "pg_ingest L (fst (calls z)) d tx = (x, d')" by fastforce
  then have s: "res = x" "fst s = d'" using st by (auto simp: pg_step_def split: prod.splits)
  note taken = calm_ingest [OF assms(15-17)]
  show ?thesis
  proof (cases "k \<in> key_of ` set ts")
    case True
    then obtain out where "x = Inr out" "out_duplicate out" "d' = d" using taken(1) key one by auto
    with run pushed(1) key True s answer show ?thesis by auto
  next
    case False
    then have new: "x = answer_new tx" "holds_new L (fst (calls z)) d tx d'"
      using taken(2) key one assms(18-20) by auto
    have "pg_found L (d', snd s) = (pg_found L (d, z))(key_of tx \<mapsto> pg_view tx)"
      by (rule pg_found_recorded(2) [OF assms(16) admits new(2)])
    moreover have "s = (d', snd s)" using s(2) by (cases s) simp
    ultimately have "pg_found L s k = Some (pg_view tx)" using key by simp
    moreover have "db_holds L d' (ts @ [tx])" by (rule db_holds_recorded(1) [OF assms(16) admits new(2)])
    ultimately show ?thesis using run pushed(1) key False s new(1) answer by (auto simp: answer_new_def)
  qed
qed

definition durable_service :: "(uuid, db \<times> uuid) world handler" where
  "durable_service =
    chain (serve_mux (service_routes ref_lib (wire_server (pg_step ref_lib demo_env))
        demo_validator (new_checker 0) (\<lambda>r w. ([], None, w))))
      (service_layers demo_mw (srv_accepts (wire_server (pg_step ref_lib demo_env))))"

lemma durable_service_router:
  "new_router ref_lib (wire_server (pg_step ref_lib demo_env)) (Inr demo_validator)
    (new_checker 0) (\<lambda>r w. ([], None, w)) demo_mw = Inr durable_service"
  by (simp add: new_router_def durable_service_def)

lemma wire_row: "row_error (row_of ref_lib (wire_tx i) (fingerprint ref_lib (wire_tx i))) = None"
proof -
  have val: "amt_value (tx_base_amount (wire_tx 7)) = (1250, 2)" by code_simp
  have "numeric_19_4 ref_lib (amt_value (tx_base_amount (wire_tx 7))) = 25 / 2"
    unfolding val using numeric_exact [OF ref_lib_ok, of "(1250, 2)" 125000] by (simp add: ref_val_def)
  moreover have "row_texts_ok (row_of ref_lib (wire_tx 7) [])"
    unfolding row_texts_ok_def row_of_def tx_row.select_convs by code_simp
  moreover have "pg_json_ok (tx_location (wire_tx 7))" "pg_json_ok (tx_metadata (wire_tx 7))"
    "plate_number_key (wire_tx 7) = ''ABC123''" by code_simp+
  ultimately have row: "row_error (row_of ref_lib (wire_tx 7) []) = None"
    by (simp add: row_error_def row_of_def nullable_def)
  have "wire_tx i = (wire_tx 7)\<lparr>tx_id := i\<rparr>" by (simp add: wire_tx_def accepted_tx_def)
  then have "row_of ref_lib (wire_tx i) [] = (row_of ref_lib (wire_tx 7) [])\<lparr>row_id := i\<rparr>"
    by (simp add: row_of_def plate_number_def plate_jurisdiction_def plate_number_key_def
        plate_jurisdiction_key_def transponder_number_def transponder_number_key_def)
  moreover have "row_error (r\<lparr>row_id := j\<rparr>) = row_error r" for r j
    by (simp add: row_error_def row_texts_ok_def)
  ultimately show ?thesis unfolding row_error_fingerprint using row by simp
qed

theorem pushed_bytes_durable_witness:
  "\<exists>cs w' tx. durable_service (wire_request (ingest_request_json demo_wire)) (demo_world (db_empty, 40))
      = (cs, None, w')
    \<and> rs_status (respond cs) = 201 \<and> records_request demo_wire tx
    \<and> db_holds ref_lib (fst (wd_store w')) [tx]"
proof -
  let ?srv = "wire_server (pg_step ref_lib demo_env)" and ?w = "demo_world (db_empty, 40 :: uuid)"
  have srv: "prometheus_ok (srv_accepts ?srv)" "srv_decode ?srv = decode_request demo_json"
    "srv_store ?srv = pg_step ref_lib demo_env" "default_currency_known ref_lib (srv_rules ?srv)"
    by (simp_all add: demo_default_known)
  have store: "wd_store ?w = (db_empty, 40)" by (simp add: demo_world_def)
  have "time_json_ok (time_utc (tx_occurred_at (wire_tx 7)))" "time_json_ok (time_utc (tx_received_at (wire_tx 7)))"
    by code_simp+
  then have times: "time_json_ok (time_utc (tx_occurred_at (wire_tx i)))"
    "time_json_ok (time_utc (tx_received_at (wire_tx i)))" for i
    by (simp_all add: wire_tx_def accepted_tx_def)
  have fresh: "tx_id (wire_tx i) \<notin> tx_id ` set []" for i by simp
  show ?thesis
    using pushed_bytes_durable [OF durable_service_router srv demo_wire_push(1-5) demo_wire_writable
        demo_wire_push(6,7) store demo_calm db_holds_empty wire_row fresh times refl]
      source_label_countable [OF demo_wire_push(8)] by auto
qed

end
