(* ===== verification/Contract.thy ===== *)
theory Contract
  imports Wire_Props
begin

text \<open>
  The schema \<open>IngestRequest\<close> of \<open>api/openapi.yaml\<close>, on the value a validator reads from the body,
  where a number keeps its text, and how it relates to what the handler decodes. Lengths count
  characters; members the schema does not name are allowed; the check of the date-time format is
  a parameter.
\<close>

section \<open>The schema\<close>

definition chars :: "string \<Rightarrow> nat" where
  "chars s = length (runes s)"

definition text_schema :: "nat \<Rightarrow> nat option \<Rightarrow> json \<Rightarrow> bool" where
  "text_schema lo hi j =
    (case j of
       JStr s \<Rightarrow> lo \<le> chars s \<and> (case hi of None \<Rightarrow> True | Some h \<Rightarrow> chars s \<le> h)
     | _ \<Rightarrow> False)"

definition time_schema :: "(string \<Rightarrow> bool) \<Rightarrow> json \<Rightarrow> bool" where
  "time_schema fmt j = (case j of JStr s \<Rightarrow> fmt s | _ \<Rightarrow> False)"

definition object_schema :: "json \<Rightarrow> bool" where
  "object_schema j = (case j of JObj _ \<Rightarrow> True | _ \<Rightarrow> False)"

definition nullable :: "(json \<Rightarrow> bool) \<Rightarrow> json \<Rightarrow> bool" where
  "nullable P j \<longleftrightarrow> j = JNull \<or> P j"

definition required :: "(json \<Rightarrow> bool) \<Rightarrow> json option \<Rightarrow> bool" where
  "required P j = (case j of Some v \<Rightarrow> P v | None \<Rightarrow> False)"

definition optional :: "(json \<Rightarrow> bool) \<Rightarrow> json option \<Rightarrow> bool" where
  "optional P j = (case j of Some v \<Rightarrow> P v | None \<Rightarrow> True)"

definition plate_schema :: "json \<Rightarrow> bool" where
  "plate_schema j =
    (case j of
       JObj m \<Rightarrow>
         required (text_schema 1 (Some 16)) (map_of m ''number'')
         \<and> required (text_schema 1 (Some 8)) (map_of m ''jurisdiction'')
     | _ \<Rightarrow> False)"

definition request_schema :: "(string \<Rightarrow> bool) \<Rightarrow> (string \<Rightarrow> json option) \<Rightarrow> bool" where
  "request_schema fmt m \<longleftrightarrow>
    required (text_schema 1 (Some 64)) (m ''source'')
    \<and> required (text_schema 1 (Some 128)) (m ''source_reference'')
    \<and> required (text_schema 0 None) (m ''transaction_type'')
    \<and> required (time_schema fmt) (m ''transaction_time_utc'')
    \<and> required (text_schema 0 None) (m ''base_amount'')
    \<and> optional plate_schema (m ''plate'')
    \<and> optional (nullable (text_schema 0 (Some 64))) (m ''transponder_number'')
    \<and> optional (nullable (text_schema 0 (Some 8))) (m ''currency'')
    \<and> optional object_schema (m ''location'')
    \<and> optional object_schema (m ''metadata'')"

definition meets_contract :: "(string \<Rightarrow> bool) \<Rightarrow> json \<Rightarrow> bool" where
  "meets_contract fmt j = (case j of JObj m \<Rightarrow> request_schema fmt (map_of m) | _ \<Rightarrow> False)"

text \<open>The value the validator checks.\<close>

definition validated :: "jtree \<Rightarrow> json" where
  "validated t = any_of Some t"

text \<open>What the contract promises of a request that was decoded.\<close>

definition length_within :: "nat \<Rightarrow> nat \<Rightarrow> string \<Rightarrow> bool" where
  "length_within lo hi s \<longleftrightarrow> lo \<le> chars s \<and> chars s \<le> hi"

definition request_in_contract :: "ingest_request \<Rightarrow> bool" where
  "request_in_contract q \<longleftrightarrow>
    length_within 1 64 (ir_source q) \<and> length_within 1 128 (ir_source_reference q)
    \<and> (case ir_plate q of None \<Rightarrow> True
       | Some p \<Rightarrow> length_within 1 16 (prf_number p) \<and> length_within 1 8 (prf_jurisdiction p))
    \<and> (case ir_transponder_number q of None \<Rightarrow> True | Some s \<Rightarrow> length_within 0 64 s)
    \<and> (case ir_currency q of None \<Rightarrow> True | Some s \<Rightarrow> length_within 0 8 s)"

section \<open>Bodies that are what they seem\<close>

text \<open>
  Every member is spelled as the contract spells it and comes once, numbers are in the range of a
  \<open>float64\<close>, and the time can be read.
\<close>

definition plain_member :: "(string \<Rightarrow> string option) \<Rightarrow> string \<times> jtree \<Rightarrow> bool" where
  "plain_member num m =
    (case m of (k, v) \<Rightarrow>
      (case v of
         TObj ps \<Rightarrow>
           (unquote k = ''plate'' \<longrightarrow> exact_names plate_names ps)
           \<and> (unquote k = ''location'' \<or> unquote k = ''metadata'' \<longrightarrow> any_fits num v)
       | TStr s \<Rightarrow> unquote k = ''transaction_time_utc'' \<longrightarrow> parse_rfc3339 s \<noteq> None
       | _ \<Rightarrow> True))"

definition plain_body :: "(string \<Rightarrow> string option) \<Rightarrow> (string \<times> jtree) list \<Rightarrow> bool" where
  "plain_body num ms \<longleftrightarrow> exact_names request_names ms \<and> list_all (plain_member num) ms"

section \<open>The value by name\<close>

lemma map_of_object_of: "map_of (object_of kvs) = map_of (rev kvs)"
proof (induction kvs rule: rev_induct)
  case (snoc kv kvs)
  then show ?case by (cases kv) (simp add: object_of_def)
qed (simp add: object_of_def)

lemma distinct_by_name: "exact_names names ms \<Longrightarrow> distinct (map fst (by_name ms))"
  by (simp add: exact_names_def by_name_def comp_def case_prod_unfold)

lemma validated_lookup:
  assumes "exact_names names ms"
  shows "\<exists>m. validated (TObj ms) = JObj m \<and> map_of m = map_option (any_of Some) \<circ> map_of (by_name ms)"
proof -
  let ?kvs = "map (\<lambda>(k, v). (unquote k, any_of Some v)) ms"
  have fst: "map fst ?kvs = map fst (by_name ms)" by (simp add: by_name_def comp_def case_prod_unfold)
  then have "gm_wf ?kvs" using distinct_by_name [OF assms] by (simp only: gm_wf_def)
  then have "validated (TObj ms) = JObj ?kvs" by (simp add: validated_def object_of_distinct)
  moreover have "?kvs = map (\<lambda>(k, v). (k, any_of Some v)) (by_name ms)" by (simp add: by_name_def comp_def case_prod_unfold)
  ultimately show ?thesis by (metis map_of_map)
qed

lemma any_of_kind:
  "any_of Some v = JStr s \<longleftrightarrow> (\<exists>t. v = TStr t \<and> s = unquote t)"
  "any_of Some v = JObj m \<longleftrightarrow> (\<exists>ps. v = TObj ps \<and> validated v = JObj m)"
  "any_of Some v = JNull \<longleftrightarrow> v = TNull"
  by (cases v; auto simp: validated_def)+

lemma text_schema_tree:
  "text_schema lo hi (any_of Some v) \<longleftrightarrow>
    (\<exists>t. v = TStr t \<and> lo \<le> chars (unquote t) \<and> (case hi of None \<Rightarrow> True | Some h \<Rightarrow> chars (unquote t) \<le> h))"
  by (cases v) (simp_all add: text_schema_def)

lemma other_schema_tree:
  "time_schema fmt (any_of Some v) \<longleftrightarrow> (\<exists>t. v = TStr t \<and> fmt (unquote t))"
  "object_schema (any_of Some v) \<longleftrightarrow> (\<exists>ps. v = TObj ps)"
  "nullable P (any_of Some v) \<longleftrightarrow> v = TNull \<or> P (any_of Some v)"
  by (cases v; auto simp: time_schema_def object_schema_def nullable_def any_of_kind)+

lemma required_by_name:
  "required P (map_option f o1) \<longleftrightarrow> (\<exists>v. o1 = Some v \<and> P (f v))"
  "optional P (map_option f o1) \<longleftrightarrow> (\<forall>v. o1 = Some v \<longrightarrow> P (f v))"
  by (cases o1; simp add: required_def optional_def)+

lemmas schema_tree = text_schema_tree other_schema_tree required_by_name

lemma by_name_member:
  assumes "exact_names names ms" and "(k, v) \<in> set ms"
  shows "map_of (by_name ms) (unquote k) = Some v"
  using assms(2) distinct_by_name [OF assms(1)]
  by (intro map_of_is_SomeI) (force simp: by_name_def)+

section \<open>A plain body that meets the contract is decoded\<close>

lemma contract_plate:
  assumes "exact_names plate_names ps" and "plate_schema (validated (TObj ps))"
  shows "plate_typed (TObj ps)"
    and "length_within 1 16 (prf_number (plate_from (by_name ps)))"
    and "length_within 1 8 (prf_jurisdiction (plate_from (by_name ps)))"
proof -
  obtain m where m: "validated (TObj ps) = JObj m" "map_of m = map_option (any_of Some) \<circ> map_of (by_name ps)"
    using validated_lookup [OF assms(1)] by blast
  obtain s t where at: "map_of (by_name ps) ''number'' = Some (TStr s)" "length_within 1 16 (unquote s)"
    "map_of (by_name ps) ''jurisdiction'' = Some (TStr t)" "length_within 1 8 (unquote t)"
    using assms(2) unfolding m(1) plate_schema_def
    by (auto simp: m(2) schema_tree length_within_def)
  show "length_within 1 16 (prf_number (plate_from (by_name ps)))"
    "length_within 1 8 (prf_jurisdiction (plate_from (by_name ps)))"
    using at by (simp_all add: plate_from_def text_at_def)
  have "is_text v" if "(k, v) \<in> set ps" "unquote k \<in> set plate_names" for k v
    using by_name_member [OF assms(1) that(1)] that(2) at(1,3) by (auto simp: plate_names_def is_text_def)
  then show "plate_typed (TObj ps)" using assms(1) by (auto simp: plate_typed_def list_all_iff)
qed

text \<open>What the schema asks of one member that has the name of a field.\<close>

definition field_schema :: "(string \<Rightarrow> bool) \<Rightarrow> string \<Rightarrow> json \<Rightarrow> bool" where
  "field_schema fmt f =
    (if f = ''source'' then text_schema 1 (Some 64)
     else if f = ''source_reference'' then text_schema 1 (Some 128)
     else if f = ''transaction_type'' \<or> f = ''base_amount'' then text_schema 0 None
     else if f = ''transaction_time_utc'' then time_schema fmt
     else if f = ''plate'' then plate_schema
     else if f = ''transponder_number'' then nullable (text_schema 0 (Some 64))
     else if f = ''currency'' then nullable (text_schema 0 (Some 8))
     else object_schema)"

lemma request_schema_field:
  assumes "request_schema fmt m" and "f \<in> set request_names" and "m f = Some j"
  shows "field_schema fmt f j"
proof -
  have "f = ''base_amount'' \<or> f = ''currency'' \<or> f = ''location'' \<or> f = ''metadata'' \<or> f = ''plate''
      \<or> f = ''source'' \<or> f = ''source_reference'' \<or> f = ''transaction_time_utc'' \<or> f = ''transaction_type''
      \<or> f = ''transponder_number''"
    using assms(2) by (simp add: request_names_def)
  then show ?thesis
    using assms(1,3) unfolding request_schema_def required_def optional_def
    by (elim disjE) (simp_all add: field_schema_def)
qed

lemma contract_member:
  assumes "field_schema fmt f (any_of Some v)" and "unquote k = f" and "f \<in> set request_names"
    and "plain_member num (k, v)"
  shows "member_typed num f v"
proof -
  have "f = ''base_amount'' \<or> f = ''currency'' \<or> f = ''location'' \<or> f = ''metadata'' \<or> f = ''plate''
      \<or> f = ''source'' \<or> f = ''source_reference'' \<or> f = ''transaction_time_utc'' \<or> f = ''transaction_type''
      \<or> f = ''transponder_number''"
    using assms(3) by (simp add: request_names_def)
  moreover have "plate_typed v" if "f = ''plate''"
  proof -
    have "plate_schema (any_of Some v)" using assms(1) that by (simp add: field_schema_def)
    then obtain ps where "v = TObj ps" "plate_schema (validated (TObj ps))"
      by (cases v) (auto simp: plate_schema_def validated_def)
    then show ?thesis using contract_plate(1) assms(2,4) that by (auto simp: plain_member_def)
  qed
  moreover have "map_typed num v" if "f = ''location'' \<or> f = ''metadata''"
    using assms that by (auto simp: field_schema_def schema_tree map_typed_def plain_member_def)
  moreover have "time_typed v" if "f = ''transaction_time_utc''"
    using assms that by (auto simp: field_schema_def schema_tree time_typed_def plain_member_def)
  moreover have "is_text v \<or> v = TNull" if "f = ''currency'' \<or> f = ''transponder_number''"
    using assms(1) that by (auto simp: field_schema_def schema_tree is_text_def)
  moreover have "is_text v"
    if "f \<in> set [''base_amount'', ''source'', ''source_reference'', ''transaction_type'']"
    using assms(1) that by (auto simp: field_schema_def schema_tree is_text_def)
  ultimately show ?thesis unfolding member_typed_def by auto
qed

lemma contract_typed:
  assumes "plain_body num ms" and "meets_contract fmt (validated (TObj ms))"
  shows "list_all (\<lambda>(k, v). member_typed num (unquote k) v) ms"
proof -
  have exact: "exact_names request_names ms" using assms(1) by (simp add: plain_body_def)
  obtain m where m: "validated (TObj ms) = JObj m" "map_of m = map_option (any_of Some) \<circ> map_of (by_name ms)"
    using validated_lookup [OF exact] by blast
  have schema: "request_schema fmt (map_of m)" using assms(2) by (simp add: m(1) meets_contract_def)
  have "member_typed num (unquote k) v" if kv: "(k, v) \<in> set ms" for k v
  proof (cases "unquote k \<in> set request_names")
    case True
    have "map_of m (unquote k) = Some (any_of Some v)" by (simp add: m(2) by_name_member [OF exact kv])
    then have "field_schema fmt (unquote k) (any_of Some v)" by (rule request_schema_field [OF schema True])
    moreover have "plain_member num (k, v)" using assms(1) kv by (auto simp: plain_body_def list_all_iff)
    ultimately show ?thesis using contract_member True by blast
  next
    case False
    then show ?thesis by (simp add: member_typed_def request_names_def)
  qed
  then show ?thesis by (auto simp: list_all_iff)
qed

lemma contract_bounds:
  assumes "plain_body num ms" and "meets_contract fmt (validated (TObj ms))"
  shows "request_in_contract (request_from num (by_name ms))"
proof -
  have exact: "exact_names request_names ms" using assms(1) by (simp add: plain_body_def)
  obtain m where m: "validated (TObj ms) = JObj m" "map_of m = map_option (any_of Some) \<circ> map_of (by_name ms)"
    using validated_lookup [OF exact] by blast
  have schema: "request_schema fmt (map_of m)" using assms(2) by (simp add: m(1) meets_contract_def)
  note schemas = schema [unfolded request_schema_def m(2) comp_def required_by_name text_schema_tree]
  have texts: "length_within 1 64 (text_at (by_name ms) ''source'')"
    "length_within 1 128 (text_at (by_name ms) ''source_reference'')"
    using schemas by (auto simp: text_at_def length_within_def)
  have pointers: "case text_pointer_at (by_name ms) ''transponder_number'' of None \<Rightarrow> True | Some s \<Rightarrow> length_within 0 64 s"
    "case text_pointer_at (by_name ms) ''currency'' of None \<Rightarrow> True | Some s \<Rightarrow> length_within 0 8 s"
    using schemas
    by (auto simp: text_pointer_at_def length_within_def schema_tree split: option.splits jtree.splits)
  have "length_within 1 16 (prf_number p) \<and> length_within 1 8 (prf_jurisdiction p)"
    if p: "plate_at (by_name ms) ''plate'' = Some p" for p
  proof -
    obtain ps where ps: "map_of (by_name ms) ''plate'' = Some (TObj ps)" "p = plate_from (by_name ps)"
      using p by (auto simp: plate_at_def split: option.splits jtree.splits)
    then have "plate_schema (validated (TObj ps))" using schemas by (simp add: validated_def)
    moreover obtain k where "(k, TObj ps) \<in> set ms" "unquote k = ''plate''"
      using map_of_SomeD [OF ps(1)] by (auto simp: by_name_def)
    then have "exact_names plate_names ps"
      using assms(1) by (fastforce simp: plain_body_def list_all_iff plain_member_def)
    ultimately show ?thesis using contract_plate(2,3) ps(2) by blast
  qed
  then show ?thesis
    using texts pointers by (auto simp: request_in_contract_def request_from_def split: option.split)
qed

lemma rule_problems_source: "rule_problems L r now (x\<lparr>sub_source := s\<rparr>) = rule_problems L r now x"
proof -
  have "validate_identity (x\<lparr>sub_source := s\<rparr>) = validate_identity x" by (simp add: validate_identity_def)
  then show ?thesis by (simp add: rule_problems_def cong: if_cong)
qed

section \<open>Properties\<close>

text \<open>C4: The contract check earns the handler's trust when a body is what it seems: if every member that
  is taken for a field is spelled as the contract spells it and comes once, also in the plate, and
  its time can be read and its numbers are in range, then a body the contract allows is decoded,
  each field is the member of that name, whatever the order of the members and whatever other
  members there are, and the lengths the contract promises hold.\<close>

theorem contract_met_is_decoded:
  assumes "read_body r = Inr b" and "first_value True b = Some (TObj ms)"
    and "plain_body (jl_number J) ms" and "meets_contract fmt (validated (TObj ms))"
  shows "decode_request J r = Inr (request_from (jl_number J) (by_name ms))
    \<and> request_in_contract (request_from (jl_number J) (by_name ms))"
proof -
  have "exact_names request_names ms" using assms(3) by (simp add: plain_body_def)
  from set_members_typed [OF this contract_typed [OF assms(3,4)]] show ?thesis
    using contract_bounds [OF assms(3,4)] assms(1,2)
    by (simp add: decode_request_def readable_def decode_body_def request_of_tree_def)
qed

text \<open>C37: The contract's limits on the source can be passed by: \<open>encoding/json\<close> also takes a member whose
  name differs from the field's in case. Appended to any body, such a member replaces the source by
  any text, of any length, empty too, without changing whether the body meets the contract, where
  it is a member the schema does not name, and without changing what the rules say, which do not
  look at the source.\<close>

theorem contract_bypassed_by_case:
  assumes "request_of_tree num (TObj ms) = Inr q"
    and "unquote k \<notin> set request_names" and "fold_name (unquote k) = fold_name ''source''"
  shows "request_of_tree num (TObj (ms @ [(k, TStr s)])) = Inr (q\<lparr>ir_source := unquote s\<rparr>)
    \<and> (meets_contract fmt (validated (TObj (ms @ [(k, TStr s)]))) \<longleftrightarrow> meets_contract fmt (validated (TObj ms)))
    \<and> rule_problems L r now (to_submission (q\<lparr>ir_source := unquote s\<rparr>)) = rule_problems L r now (to_submission q)"
proof (intro conjI)
  have "field_named request_names (unquote k) = Some ''source''"
  proof -
    have "fold_name f \<noteq> fold_name ''source''" if "f \<in> set request_names" "f \<noteq> ''source''" for f
    proof -
      have "\<forall>f \<in> set request_names. f \<noteq> ''source'' \<longrightarrow> fold_name f \<noteq> fold_name ''source''" by code_simp
      then show ?thesis using that by blast
    qed
    then show ?thesis
      using assms(2,3) by (simp add: field_named_def request_names_def)
  qed
  then show "request_of_tree num (TObj (ms @ [(k, TStr s)])) = Inr (q\<lparr>ir_source := unquote s\<rparr>)"
    using assms(1) set_members_append [of num ms None zero_request q "[(k, TStr s)]"]
    by (simp add: request_of_tree_def set_field_def set_text_def keep_first_def)
next
  have "map_of (object_of (xs @ [(unquote k, v)])) f = map_of (object_of xs) f"
    if "f \<in> set request_names" for f xs and v :: json
    using that assms(2) by (auto simp: map_of_object_of)
  then show "meets_contract fmt (validated (TObj (ms @ [(k, TStr s)]))) \<longleftrightarrow> meets_contract fmt (validated (TObj ms))"
    by (simp add: meets_contract_def validated_def request_schema_def request_names_def)
next
  have "to_submission (q\<lparr>ir_source := unquote s\<rparr>) = (to_submission q)\<lparr>sub_source := unquote s\<rparr>"
    by (simp add: to_submission_def)
  then show "rule_problems L r now (to_submission (q\<lparr>ir_source := unquote s\<rparr>)) = rule_problems L r now (to_submission q)"
    by (simp only: rule_problems_source)
qed

text \<open>A body in another order than the fields', with a time at an offset, and one with a second source.\<close>

definition demo_members :: "(string \<times> string) list" where
  "demo_members =
    [(''transponder_number'', ''0180012345678''), (''source'', ''lane-7''), (''source_reference'', ''0001''),
     (''lane'', ''12''), (''transaction_type'', ''toll''),
     (''transaction_time_utc'', ''2026-01-01T23:59:59.5+01:00''), (''base_amount'', ''12.50'')]"

definition demo_text :: string where
  "demo_text = json_members (map (\<lambda>(k, v). (k, json_string v)) demo_members)"

definition demo_tree :: "(string \<times> jtree) list" where
  "demo_tree = map (\<lambda>(k, v). (k, TStr v)) demo_members"

lemma demo_scanned: "first_value True demo_text = Some (TObj demo_tree)"
  by code_simp

lemma demo_plain: "plain_body (jl_number demo_json) demo_tree"
proof -
  have "exact_names request_names demo_tree" by code_simp
  moreover have "unquote ''lane'' \<noteq> ''plate''" by code_simp
  moreover have "list_all (plain_member (jl_number demo_json)) demo_tree" by code_simp
  ultimately show ?thesis by (simp add: plain_body_def)
qed

lemma demo_meets_contract: "meets_contract (\<lambda>_. True) (validated (TObj demo_tree))"
  by code_simp

theorem contract_met_is_decoded_witness:
  "\<exists>q. decode_request demo_json (wire_request demo_text) = Inr q \<and> request_in_contract q
    \<and> ir_source q = ''lane-7'' \<and> t_off (ir_transaction_time_utc q) = 3600"
proof -
  let ?q = "request_from (jl_number demo_json) (by_name demo_tree)"
  have "ir_source ?q = ''lane-7''" "t_off (ir_transaction_time_utc ?q) = 3600" by code_simp+
  then show ?thesis
    using contract_met_is_decoded [OF wire_request_body demo_scanned demo_plain demo_meets_contract] by blast
qed

theorem contract_bypassed_by_case_witness:
  "meets_contract (\<lambda>_. True) (validated (TObj (demo_tree @ [(''SOURCE'', TStr [])])))
    \<and> (\<exists>q. request_of_tree demo_number (TObj (demo_tree @ [(''SOURCE'', TStr [])])) = Inr q \<and> ir_source q = [])"
proof -
  have "exact_names request_names demo_tree" using demo_plain by (simp add: plain_body_def)
  from set_members_typed [OF this contract_typed [OF demo_plain demo_meets_contract]]
  have "request_of_tree demo_number (TObj demo_tree) = Inr (request_from demo_number (by_name demo_tree))"
    by (simp add: request_of_tree_def demo_json_def)
  moreover have "unquote ''SOURCE'' \<notin> set request_names" "fold_name (unquote ''SOURCE'') = fold_name ''source''"
    "unquote [] = []" by code_simp+
  ultimately show ?thesis
    using contract_bypassed_by_case [where s = "[]" and fmt = "\<lambda>_. True" and k = "''SOURCE''"
        and L = ref_lib and r = demo_rules and now = demo_now] demo_meets_contract
    by fastforce
qed

end
