(* ===== verification/Generated_Api.thy ===== *)
theory Generated_Api
  imports Router
begin

text \<open>
  The rest of the generated \<open>gen/api.gen.go\<close>: the status values of the contract, the registration
  of the operation with its options, the errors of parameter binding, and the embedded contract
  with its loading by \<open>LoadSpec\<close>. The codec of the embedded bytes and the loader of kin-openapi are
  parameters.
\<close>

section \<open>Status values\<close>

definition association_statuses :: "string list" where
  "association_statuses = [''associated'', ''exception'', ''received'', ''resolving'']"

definition association_status_valid :: "string \<Rightarrow> bool" where
  "association_status_valid e \<longleftrightarrow> e \<in> set association_statuses"

definition settlement_statuses :: "string list" where
  "settlement_statuses = [''paid'', ''payable'', ''priced'', ''unpriced'']"

definition settlement_status_valid :: "string \<Rightarrow> bool" where
  "settlement_status_valid e \<longleftrightarrow> e \<in> set settlement_statuses"

text \<open>The statuses of the domain are exactly those of the contract, so a result always conforms.\<close>

lemma statuses_agree:
  "association_status_valid s \<longleftrightarrow> (\<exists>a. s = association_text a)"
  "settlement_status_valid s \<longleftrightarrow> (\<exists>a. s = settlement_text a)"
proof -
  have "association_status_valid (association_text a)" for a
    by (cases a) (simp_all add: association_status_valid_def association_statuses_def)
  moreover have "\<exists>a. s = association_text a" if "association_status_valid s"
    using that association_text.simps [symmetric]
    unfolding association_status_valid_def association_statuses_def by (auto simp del: association_text.simps)
  ultimately show "association_status_valid s \<longleftrightarrow> (\<exists>a. s = association_text a)" by blast
  have "settlement_status_valid (settlement_text a)" for a
    by (cases a) (simp_all add: settlement_status_valid_def settlement_statuses_def)
  moreover have "\<exists>a. s = settlement_text a" if "settlement_status_valid s"
    using that settlement_text.simps [symmetric]
    unfolding settlement_status_valid_def settlement_statuses_def by (auto simp del: settlement_text.simps)
  ultimately show "settlement_status_valid s \<longleftrightarrow> (\<exists>a. s = settlement_text a)" by blast
qed

lemma result_statuses_valid:
  "association_status_valid (is_association_status (to_result L out))
    \<and> settlement_status_valid (is_settlement_status (to_result L out))"
  by (auto simp: statuses_agree to_result_def Let_def)

section \<open>The operation and its registration\<close>

text \<open>A router that was not given is a new one, with no routes.\<close>

record ('e, 's) std_options =
  so_base_url :: string
  so_base_router :: "('e, 's) world route list option"
  so_middlewares :: "(('e, 's) world handler \<Rightarrow> ('e, 's) world handler) list"
  so_error_handler :: "(string \<Rightarrow> writer_call list) option"

definition no_options :: "('e, 's) std_options" where
  "no_options = \<lparr>so_base_url = [], so_base_router = None, so_middlewares = [], so_error_handler = None\<rparr>"

definition handler_with_options ::
  "('e, 's) world handler \<Rightarrow> ('e, 's) std_options \<Rightarrow> ('e, 's) world route list" where
  "handler_with_options si opts =
    (let m = (case so_base_router opts of None \<Rightarrow> [] | Some m \<Rightarrow> m) in
     m @ [\<lparr>rt_method = ''POST'', rt_path = so_base_url opts @ ''/ingest/v1/transactions'',
           rt_handler = wrapped_operation (so_middlewares opts) si\<rparr>])"

definition generated_handler :: "('e, 's) world handler \<Rightarrow> ('e, 's) world route list" where
  "generated_handler si = handler_with_options si no_options"

definition handler_from_mux ::
  "('e, 's) world handler \<Rightarrow> ('e, 's) world route list \<Rightarrow> ('e, 's) world route list" where
  "handler_from_mux si m = handler_with_options si (no_options\<lparr>so_base_router := Some m\<rparr>)"

definition handler_from_mux_with_base_url ::
  "('e, 's) world handler \<Rightarrow> ('e, 's) world route list \<Rightarrow> string \<Rightarrow> ('e, 's) world route list" where
  "handler_from_mux_with_base_url si m url =
    handler_with_options si (no_options\<lparr>so_base_url := url, so_base_router := Some m\<rparr>)"

text \<open>What answers an error of parameter binding; the operation of this contract has no parameters.\<close>

definition binding_error_answer :: "('e, 's) std_options \<Rightarrow> string \<Rightarrow> writer_call list" where
  "binding_error_answer opts err =
    (case so_error_handler opts of Some h \<Rightarrow> h err | None \<Rightarrow> http_error 400 err)"

text \<open>The options of \<open>NewRouter\<close>: its error handler keeps to the shape of the contract's errors.\<close>

definition router_options ::
  "('d, 'a) lib_scheme \<Rightarrow> ('e, 's, 'd) ingest_server \<Rightarrow> validator \<Rightarrow> checker
    \<Rightarrow> ('e, 's) world handler \<Rightarrow> ('e, 's) std_options" where
  "router_options L srv V ck prom =
    \<lparr>so_base_url = [],
     so_base_router = Some
       [\<lparr>rt_method = ''GET'', rt_path = ''/healthz'', rt_handler = handle_live\<rparr>,
        \<lparr>rt_method = ''GET'', rt_path = ''/readyz'', rt_handler = handle_ready ck\<rparr>,
        \<lparr>rt_method = ''GET'', rt_path = ''/metrics'', rt_handler = prom\<rparr>],
     so_middlewares = [spec_validator V (srv_accepts srv)],
     so_error_handler = Some (\<lambda>err. write_error 400 ''request does not satisfy the API contract''
       [\<lparr>fe_field = [], fe_reason = err\<rparr>])\<rparr>"

lemma service_routes_generated:
  "service_routes L srv V ck prom
    = handler_with_options (ingest_transaction L srv) (router_options L srv V ck prom)"
  by (simp add: service_routes_def handler_with_options_def router_options_def ingest_path_def)

lemma generated_routes:
  "generated_handler si = [\<lparr>rt_method = ''POST'', rt_path = ''/ingest/v1/transactions'', rt_handler = si\<rparr>]"
  "handler_from_mux si m = m @ generated_handler si"
  "handler_from_mux_with_base_url si m [] = handler_from_mux si m"
  by (simp_all add: generated_handler_def handler_from_mux_def handler_from_mux_with_base_url_def
      handler_with_options_def no_options_def wrapped_operation_def)

section \<open>Errors of parameter binding\<close>

datatype param_error =
    Unescaped_Cookie_Param string string
  | Unmarshaling_Param string string
  | Required_Param string
  | Required_Header string string
  | Invalid_Param_Format string string
  | Too_Many_Values string int

fun param_error_text :: "param_error \<Rightarrow> string" where
  "param_error_text (Unescaped_Cookie_Param n e) = ''error unescaping cookie parameter '' @ [CHR 0x27] @ n @ [CHR 0x27]"
| "param_error_text (Unmarshaling_Param n e) = ''Error unmarshaling parameter '' @ n @ '' as JSON: '' @ e"
| "param_error_text (Required_Param n) = ''Query argument '' @ n @ '' is required, but not found''"
| "param_error_text (Required_Header n e) = ''Header parameter '' @ n @ '' is required, but not found''"
| "param_error_text (Invalid_Param_Format n e) = ''Invalid format for parameter '' @ n @ '': '' @ e"
| "param_error_text (Too_Many_Values n c) = ''Expected one value for '' @ n @ '', got '' @ show_int c"

fun param_error_unwrap :: "param_error \<Rightarrow> string option" where
  "param_error_unwrap (Unescaped_Cookie_Param n e) = Some e"
| "param_error_unwrap (Unmarshaling_Param n e) = Some e"
| "param_error_unwrap (Required_Param n) = None"
| "param_error_unwrap (Required_Header n e) = Some e"
| "param_error_unwrap (Invalid_Param_Format n e) = Some e"
| "param_error_unwrap (Too_Many_Values n c) = None"

section \<open>The embedded contract\<close>

text \<open>
  Base64 and deflate, \<open>path.Clean\<close>, the loader, which may ask for further documents, and what
  clears the list of servers.
\<close>

record 'spec spec_lib =
  sp_base64 :: "string \<Rightarrow> string + string"
  sp_inflate :: "string \<Rightarrow> string + string"
  sp_close :: "string \<Rightarrow> string option"
  sp_clean :: "string \<Rightarrow> string"
  sp_load :: "(string \<Rightarrow> string + string) \<Rightarrow> string \<Rightarrow> string + 'spec"
  sp_no_servers :: "'spec \<Rightarrow> 'spec"

definition decode_spec :: "('spec, 'a) spec_lib_scheme \<Rightarrow> string list \<Rightarrow> string + string" where
  "decode_spec S chunks =
    (case sp_base64 S (concat chunks) of
       Inl e \<Rightarrow> Inl (''error base64 decoding spec: '' @ e)
     | Inr compressed \<Rightarrow>
         (case sp_inflate S compressed of
            Inl e \<Rightarrow> Inl (''read flate: '' @ e)
          | Inr bytes \<Rightarrow>
              (case sp_close S compressed of
                 Some e \<Rightarrow> Inl (''close flate reader: '' @ e)
               | None \<Rightarrow> Inr bytes)))"

text \<open>What is decoded once, when the package is loaded, and handed out from then on.\<close>

definition path_to_raw_spec ::
  "string \<Rightarrow> string + string \<Rightarrow> (string, string + string) gomap" where
  "path_to_raw_spec path raw = (if 0 < length path then [(path, raw)] else [])"

definition read_from_uri ::
  "('spec, 'a) spec_lib_scheme \<Rightarrow> (string, string + string) gomap \<Rightarrow> string \<Rightarrow> string + string" where
  "read_from_uri S resolve uri =
    (let path = sp_clean S uri in
     case map_of resolve path of
       Some raw \<Rightarrow> raw
     | None \<Rightarrow> Inl (''path not found: '' @ path))"

definition get_spec :: "('spec, 'a) spec_lib_scheme \<Rightarrow> string + string \<Rightarrow> string + 'spec" where
  "get_spec S raw =
    (case raw of
       Inl e \<Rightarrow> Inl e
     | Inr data \<Rightarrow> sp_load S (read_from_uri S (path_to_raw_spec [] raw)) data)"

definition load_spec :: "('spec, 'a) spec_lib_scheme \<Rightarrow> string + string \<Rightarrow> string + 'spec" where
  "load_spec S raw =
    (case get_spec S raw of
       Inl e \<Rightarrow> Inl (''load embedded openapi spec: '' @ e)
     | Inr spec \<Rightarrow> Inr (sp_no_servers S spec))"

text \<open>The contract is whole in itself: a reference to another document is never resolved.\<close>

lemma no_external_document:
  "read_from_uri S (path_to_raw_spec [] raw) uri = Inl (''path not found: '' @ sp_clean S uri)"
  by (simp add: read_from_uri_def path_to_raw_spec_def)

text \<open>The router over the embedded contract: it is built exactly when the contract can be loaded.\<close>

definition router_from_spec ::
  "('d, 'a) lib_scheme \<Rightarrow> ('e, 's, 'd) ingest_server \<Rightarrow> 'spec spec_lib \<Rightarrow> string list
    \<Rightarrow> ('spec \<Rightarrow> validator) \<Rightarrow> checker \<Rightarrow> ('e, 's) world handler \<Rightarrow> 'e mw_env
    \<Rightarrow> string + ('e, 's) world handler" where
  "router_from_spec L srv S chunks validator_for ck prom M =
    new_router L srv (map_sum id validator_for (load_spec S (decode_spec S chunks))) ck prom M"

lemma router_from_spec_cases:
  "(\<exists>e. router_from_spec L srv S chunks vf ck prom M = Inl (''build router: load embedded openapi spec: '' @ e)
      \<and> get_spec S (decode_spec S chunks) = Inl e)
    \<or> (\<exists>spec serve. router_from_spec L srv S chunks vf ck prom M = Inr serve
      \<and> get_spec S (decode_spec S chunks) = Inr spec
      \<and> new_router L srv (Inr (vf (sp_no_servers S spec))) ck prom M = Inr serve)"
  by (cases "get_spec S (decode_spec S chunks)")
     (simp_all add: router_from_spec_def load_spec_def new_router_def)

end
