(* ===== verification/Metric_Registry.thy ===== *)
theory Metric_Registry
  imports Metrics
begin

text \<open>
  The metric set of \<open>internal/platform/metrics/metrics.go\<close> as it is declared and registered: the
  name, help text, label names and buckets of every metric, in the order \<open>New\<close> registers them. The
  registry of the Prometheus client and its two runtime collectors are parameters. The documented
  rules are the predicate \<open>registry_ok\<close>: a collector whose metrics are valid and whose names are
  new is taken. \<open>MustRegister\<close> panics on the first collector that is refused.
\<close>

section \<open>Descriptions\<close>

text \<open>The buckets of a histogram are upper bounds in nanoseconds, the unit of the durations observed.\<close>

datatype metric_kind = Counter_Vec | Histogram_Vec "duration list" | Gauge | Gauge_Func

record metric_desc =
  md_name :: string
  md_help :: string
  md_kind :: metric_kind
  md_labels :: "string list"

definition metric_desc_of :: "string \<Rightarrow> string \<Rightarrow> metric_kind \<Rightarrow> string list \<Rightarrow> metric_desc" where
  "metric_desc_of n h k ls = \<lparr>md_name = n, md_help = h, md_kind = k, md_labels = ls\<rparr>"

definition ingest_total_desc :: metric_desc where
  "ingest_total_desc = metric_desc_of ''ingest_transactions_total''
    ''Transaction pushes by producing system and outcome.'' Counter_Vec [''source'', ''result'']"

definition duration_buckets :: "duration list" where
  "duration_buckets =
    [1000000, 2500000, 5000000, 10000000, 25000000, 50000000, 100000000, 250000000, 500000000,
     1000000000, 2500000000]"

definition ingest_duration_desc :: metric_desc where
  "ingest_duration_desc = metric_desc_of ''ingest_duration_seconds''
    ''End-to-end handling time for a transaction push.'' (Histogram_Vec duration_buckets) [''result'']"

definition validation_failure_desc :: metric_desc where
  "validation_failure_desc = metric_desc_of ''ingest_validation_failures_total''
    ''Rejected fields by producing system, validation layer, and field.'' Counter_Vec
    [''source'', ''layer'', ''field'']"

definition divergent_replay_desc :: metric_desc where
  "divergent_replay_desc = metric_desc_of ''ingest_divergent_duplicates_total''
    ''Replays whose idempotency key matched but whose content differed.'' Counter_Vec [''source'']"

definition outbox_pending_desc :: metric_desc where
  "outbox_pending_desc = metric_desc_of ''outbox_pending_events''
    ''Events written but not yet published downstream.'' Gauge []"

definition outbox_oldest_age_desc :: metric_desc where
  "outbox_oldest_age_desc = metric_desc_of ''outbox_oldest_pending_age_seconds''
    ''Age of the oldest unpublished event. The SLI for outbox lag.'' Gauge []"

definition outbox_published_desc :: metric_desc where
  "outbox_published_desc = metric_desc_of ''outbox_publish_total''
    ''Publish attempts by outcome.'' Counter_Vec [''result'']"

definition http_requests_desc :: metric_desc where
  "http_requests_desc = metric_desc_of ''http_requests_total''
    ''HTTP requests by method, route, and status.'' Counter_Vec [''method'', ''route'', ''status'']"

definition source_labels_desc :: metric_desc where
  "source_labels_desc = metric_desc_of ''ingest_source_labels_tracked''
    (''Distinct producer labels tracked. At the ceiling, further producers are counted as '' @
      [CHR 0x22] @ ''other'' @ [CHR 0x22] @ ''.'') Gauge_Func []"

text \<open>What \<open>New\<close> registers before the two runtime collectors.\<close>

definition metric_descs :: "metric_desc list" where
  "metric_descs =
    [ingest_total_desc, ingest_duration_desc, validation_failure_desc, divergent_replay_desc,
     outbox_pending_desc, outbox_oldest_age_desc, outbox_published_desc, http_requests_desc,
     source_labels_desc]"

lemmas metric_desc_defs =
  metric_desc_of_def ingest_total_desc_def ingest_duration_desc_def validation_failure_desc_def
  divergent_replay_desc_def outbox_pending_desc_def outbox_oldest_age_desc_def
  outbox_published_desc_def http_requests_desc_def source_labels_desc_def

section \<open>The registry\<close>

text \<open>
  The runtime collectors by the metrics they describe, and whether a registry that holds some
  metrics takes a collector.
\<close>

record prometheus_client =
  pr_takes :: "metric_desc list \<Rightarrow> metric_desc list \<Rightarrow> string option"
  pr_go_collector :: "metric_desc list"
  pr_process_collector :: "metric_desc list"

text \<open>\<open>MustRegister\<close>: the panic, if one is refused, and what is registered then.\<close>

fun must_register ::
  "(metric_desc list \<Rightarrow> metric_desc list \<Rightarrow> string option) \<Rightarrow> metric_desc list
    \<Rightarrow> metric_desc list list \<Rightarrow> panic option \<times> metric_desc list" where
  "must_register takes reg [] = (None, reg)"
| "must_register takes reg (c # cs) =
    (case takes reg c of
       Some e \<Rightarrow> (Some (Panic e), reg)
     | None \<Rightarrow> must_register takes (reg @ c) cs)"

text \<open>\<open>New\<close>: the panic of the registration, or the metrics over their registry.\<close>

definition new_registered ::
  "('a) prometheus_client_scheme \<Rightarrow> panic + metrics \<times> metric_desc list" where
  "new_registered P =
    (case must_register (pr_takes P) []
        (map (\<lambda>d. [d]) metric_descs @ [pr_go_collector P, pr_process_collector P]) of
       (Some p, reg) \<Rightarrow> Inl p
     | (None, reg) \<Rightarrow> Inr (new_metrics, reg))"

section \<open>What the client documents\<close>

definition name_char :: "char \<Rightarrow> bool" where
  "name_char c \<longleftrightarrow> (CHR ''a'' \<le> c \<and> c \<le> CHR ''z'') \<or> (CHR ''A'' \<le> c \<and> c \<le> CHR ''Z'') \<or> c = CHR ''_''"

definition name_digit :: "char \<Rightarrow> bool" where
  "name_digit c \<longleftrightarrow> CHR ''0'' \<le> c \<and> c \<le> CHR ''9''"

definition metric_name_valid :: "string \<Rightarrow> bool" where
  "metric_name_valid s \<longleftrightarrow> s \<noteq> [] \<and> (name_char (hd s) \<or> hd s = CHR '':'')
    \<and> list_all (\<lambda>c. name_char c \<or> name_digit c \<or> c = CHR '':'') s"

definition label_name_valid :: "string \<Rightarrow> bool" where
  "label_name_valid s \<longleftrightarrow> s \<noteq> [] \<and> name_char (hd s) \<and> list_all (\<lambda>c. name_char c \<or> name_digit c) s
    \<and> take 2 s \<noteq> ''__''"

text \<open>Buckets are sorted in strictly increasing order, and \<open>le\<close> is the label of the buckets.\<close>

fun kind_valid :: "string list \<Rightarrow> metric_kind \<Rightarrow> bool" where
  "kind_valid ls (Histogram_Vec bs) \<longleftrightarrow> sorted_wrt (<) bs \<and> ''le'' \<notin> set ls"
| "kind_valid ls k \<longleftrightarrow> True"

definition desc_valid :: "metric_desc \<Rightarrow> bool" where
  "desc_valid d \<longleftrightarrow> metric_name_valid (md_name d) \<and> list_all label_name_valid (md_labels d)
    \<and> distinct (md_labels d) \<and> kind_valid (md_labels d) (md_kind d)"

definition registry_ok :: "('a) prometheus_client_scheme \<Rightarrow> bool" where
  "registry_ok P \<longleftrightarrow>
    (\<forall>reg c. list_all desc_valid c \<and> distinct (map md_name (reg @ c)) \<longrightarrow> pr_takes P reg c = None)
    \<and> list_all desc_valid (pr_go_collector P) \<and> list_all desc_valid (pr_process_collector P)
    \<and> distinct (map md_name (pr_go_collector P)) \<and> distinct (map md_name (pr_process_collector P))
    \<and> (\<forall>d \<in> set (pr_go_collector P). take 3 (md_name d) = ''go_'')
    \<and> (\<forall>d \<in> set (pr_process_collector P). take 8 (md_name d) = ''process_'')"

lemma must_register_all:
  assumes "\<And>reg c. list_all desc_valid c \<Longrightarrow> distinct (map md_name (reg @ c)) \<Longrightarrow> takes reg c = None"
    and "\<forall>c \<in> set cs. list_all desc_valid c" and "distinct (map md_name (reg @ concat cs))"
  shows "must_register takes reg cs = (None, reg @ concat cs)"
  using assms(2,3)
proof (induction cs arbitrary: reg)
  case (Cons c cs)
  have "list_all desc_valid c" using Cons.prems(1) by simp
  moreover have "distinct (map md_name (reg @ c))" using Cons.prems(2) by auto
  ultimately have "takes reg c = None" by (rule assms(1))
  then show ?case using Cons.IH [of "reg @ c"] Cons.prems by simp
qed simp

lemma metric_descs_valid: "list_all desc_valid metric_descs"
  by (simp add: metric_descs_def metric_desc_defs) code_simp

text \<open>The names of the service's own metrics differ from each other and from those of the collectors.\<close>

lemma metric_descs_names:
  "distinct (map md_name metric_descs)"
  "\<forall>d \<in> set metric_descs. take 3 (md_name d) \<noteq> ''go_'' \<and> take 8 (md_name d) \<noteq> ''process_''"
  by (simp_all add: metric_descs_def metric_desc_defs)

lemma distinct_append_disjoint:
  "distinct xs \<Longrightarrow> distinct ys \<Longrightarrow> (\<And>x. x \<in> set xs \<Longrightarrow> x \<notin> set ys) \<Longrightarrow> distinct (xs @ ys)"
  by auto

lemma new_never_panics:
  assumes "registry_ok P"
  shows "new_registered P
    = Inr (new_metrics, metric_descs @ pr_go_collector P @ pr_process_collector P)"
proof -
  let ?cs = "map (\<lambda>d. [d]) metric_descs @ [pr_go_collector P, pr_process_collector P]"
  note ok = assms [unfolded registry_ok_def]
  have all: "concat ?cs = metric_descs @ pr_go_collector P @ pr_process_collector P"
    by (simp add: concat_map_singleton)
  have go_process: "take 8 (md_name d) \<noteq> ''process_''" if "take 3 (md_name d) = ''go_''" for d :: metric_desc
  proof
    assume "take 8 (md_name d) = ''process_''"
    then have "take 3 (take 8 (md_name d)) = ''pro''" by simp
    with that show False by simp
  qed
  have "distinct (map md_name (concat ?cs))"
    using ok metric_descs_names go_process unfolding all map_append
    by (intro distinct_append_disjoint) (auto, metis+)
  moreover have "\<forall>c \<in> set ?cs. list_all desc_valid c"
    using metric_descs_valid ok by (auto simp: list_all_iff)
  ultimately have "must_register (pr_takes P) [] ?cs = (None, concat ?cs)"
    using must_register_all [of "pr_takes P" ?cs "[]"] ok by simp
  then show ?thesis unfolding new_registered_def all by simp
qed

section \<open>Names and values of the labels\<close>

text \<open>
  \<open>WithLabelValues\<close> also panics when the number of values is not that of the names. Every series a
  recording creates has one value for each label name of its metric.
\<close>

definition fits_desc :: "metric_desc \<Rightarrow> (string list, 'v) gomap \<Rightarrow> bool" where
  "fits_desc d v \<longleftrightarrow> (\<forall>ls \<in> fst ` set v. length ls = length (md_labels d))"

definition series_fit :: "metrics \<Rightarrow> bool" where
  "series_fit m \<longleftrightarrow> fits_desc ingest_total_desc (m_ingest_total m)
    \<and> fits_desc ingest_duration_desc (m_ingest_duration m)
    \<and> fits_desc validation_failure_desc (m_validation_failure m)
    \<and> fits_desc divergent_replay_desc (m_divergent_replay m)
    \<and> fits_desc outbox_published_desc (m_outbox_published m)
    \<and> fits_desc http_requests_desc (m_http_requests m)"

lemma fits_inc: "fits_desc d v \<Longrightarrow> length ls = length (md_labels d) \<Longrightarrow> fits_desc d (inc ls v)"
  by (simp add: fits_desc_def inc_keys)

lemma fits_observe: "fits_desc d v \<Longrightarrow> length ls = length (md_labels d) \<Longrightarrow> fits_desc d (observe ls x v)"
  by (simp add: fits_desc_def gm_keys observe_def)

lemma record_one_fits: "series_fit m \<Longrightarrow> series_fit (snd (record_one accepts r m))"
  by (cases r)
     (auto simp: series_fit_def ingest_result_def validation_failure_def divergent_replay_def
        outbox_backlog_def outbox_publish_def http_request_def metric_desc_defs Let_def
        intro!: fits_inc fits_observe split: prod.splits)

lemma record_all_fits: "series_fit (record_all accepts rs new_metrics)"
proof -
  have "series_fit (fold (\<lambda>r m. snd (record_one accepts r m)) rs m)" if "series_fit m" for m
    using that by (induction rs arbitrary: m) (simp_all add: record_one_fits)
  moreover have "series_fit new_metrics" by (simp add: series_fit_def new_metrics_def fits_desc_def)
  ultimately show ?thesis by (simp add: record_all_def)
qed

end
