(* ===== verification/Processes.thy ===== *)
theory Processes
  imports Commands Relay_Loop Metric_Registry
begin

text \<open>
  The \<open>main\<close> functions of \<open>cmd/\<close> from the arguments to the exit code: the flags of the API by the
  rules of the package \<open>flag\<close>, the self-probe, the metric set, what the deferred calls close, and
  how an error reaches the standard error. A server that listens is an event (\<open>serve_end\<close>), the
  passes of the relay are \<open>run_loop\<close> with its fuel.
\<close>

section \<open>The end of a process\<close>

text \<open>An exit with what was written to the standard error, a refusal of the flags, or a panic.\<close>

datatype process_end = Exit nat string | Usage nat | Crash panic

definition main_exit :: "string \<Rightarrow> string option \<Rightarrow> process_end" where
  "main_exit who err =
    (case err of None \<Rightarrow> Exit 0 [] | Some e \<Rightarrow> Exit 1 (who @ '': '' @ e @ [CHR 0x0A]))"

definition end_of :: "string \<Rightarrow> panic + string option \<Rightarrow> process_end" where
  "end_of who r = (case r of Inl p \<Rightarrow> Crash p | Inr err \<Rightarrow> main_exit who err)"

section \<open>Flags\<close>

text \<open>\<open>strconv.ParseBool\<close>.\<close>

definition parse_bool_text :: "string \<Rightarrow> bool option" where
  "parse_bool_text s =
    (if s \<in> {''1'', ''t'', ''T'', ''true'', ''TRUE'', ''True''} then Some True
     else if s \<in> {''0'', ''f'', ''F'', ''false'', ''FALSE'', ''False''} then Some False
     else None)"

text \<open>The name of a flag and the text behind its first equals sign, which a name cannot start with.\<close>

definition split_flag :: "string \<Rightarrow> string \<times> string option" where
  "split_flag name =
    (case dropWhile (\<lambda>c. c \<noteq> CHR ''='') name of
       [] \<Rightarrow> (name, None)
     | _ # v \<Rightarrow> (takeWhile (\<lambda>c. c \<noteq> CHR ''='') name, Some v))"

datatype parsed_flags = Healthcheck_Flag bool | Flags_Refused nat

text \<open>
  \<open>flag.Parse\<close> for the one flag of the command; the error handling of the command line exits, with
  0 when help was asked for.
\<close>

fun parse_flags :: "string list \<Rightarrow> bool \<Rightarrow> parsed_flags" where
  "parse_flags [] b = Healthcheck_Flag b"
| "parse_flags (s # args) b =
    (if length s < 2 \<or> hd s \<noteq> CHR ''-'' \<or> s = ''--'' then Healthcheck_Flag b
     else
       (let name = (if s ! 1 = CHR ''-'' then drop 2 s else drop 1 s) in
        if name = [] \<or> hd name = CHR ''-'' \<or> hd name = CHR ''='' then Flags_Refused 2
        else
          (case split_flag name of (n, v) \<Rightarrow>
             if n \<noteq> ''healthcheck'' then Flags_Refused (if n = ''help'' \<or> n = ''h'' then 0 else 2)
             else
               (case v of
                  None \<Rightarrow> parse_flags args True
                | Some t \<Rightarrow>
                    (case parse_bool_text t of
                       None \<Rightarrow> Flags_Refused 2
                     | Some b1 \<Rightarrow> parse_flags args b1)))))"

section \<open>The API\<close>

definition healthcheck_timeout :: duration where
  "healthcheck_timeout = 3 * second"

fun pools_of :: "'p store_choice \<Rightarrow> 'p list" where
  "pools_of In_Memory = []"
| "pools_of (In_Postgres pool) = [pool]"

text \<open>
  \<open>run\<close> from the configuration to its return, with the pools that are closed by then: those of a
  failed connection, and by the deferred call the one of the store, whatever \<open>run\<close> returns.
\<close>

definition run_api ::
  "('d, 'a) lib_scheme \<Rightarrow> (nat \<Rightarrow> nat \<Rightarrow> nat \<Rightarrow> nat) \<Rightarrow> ('e, 'd, 'w, 'x, 'p) host
    \<Rightarrow> ('c) prometheus_client_scheme \<Rightarrow> string \<Rightarrow> environment \<Rightarrow> (duration \<Rightarrow> string option)
    \<Rightarrow> serve_end \<Rightarrow> (panic + string option) \<times> 'p list" where
  "run_api L fraction_ns H P version env shutdown e =
    (let (cfg, errs) = load L fraction_ns env in
     if errs \<noteq> [] then (Inr (Some (''load configuration: '' @ join [CHR 0x0A] errs)), [])
     else
       (case new_registered P of
          Inl p \<Rightarrow> (Inl p, [])
        | Inr _ \<Rightarrow>
            (case open_store (ho_pgx H) cfg (new_checker health_check_timeout) of
               (Inl err, shut) \<Rightarrow> (Inr (Some err), shut)
             | (Inr (choice, _, _), shut) \<Rightarrow>
                 (case start_api L fraction_ns H version env of
                    Inl err \<Rightarrow> (Inr (Some err), shut @ pools_of choice)
                  | Inr api \<Rightarrow> (Inr (finish_api shutdown cfg e), shut @ pools_of choice)))))"

text \<open>\<open>main\<close>: with the flag it is only the probe, and no pool is ever opened.\<close>

definition api_main ::
  "('d, 'a) lib_scheme \<Rightarrow> (nat \<Rightarrow> nat \<Rightarrow> nat \<Rightarrow> nat) \<Rightarrow> ('e, 'd, 'w, 'x, 'p) host
    \<Rightarrow> ('c) prometheus_client_scheme \<Rightarrow> http_client \<Rightarrow> string \<Rightarrow> string list \<Rightarrow> environment
    \<Rightarrow> (duration \<Rightarrow> string option) \<Rightarrow> serve_end \<Rightarrow> process_end \<times> 'p list" where
  "api_main L fraction_ns H P client version args env shutdown e =
    (case parse_flags args False of
       Flags_Refused n \<Rightarrow> (Usage n, [])
     | Healthcheck_Flag True \<Rightarrow>
         (main_exit ''unhealthy'' (run_healthcheck client (healthcheck_address env)), [])
     | Healthcheck_Flag False \<Rightarrow>
         (let (r, shut) = run_api L fraction_ns H P version env shutdown e in
          (end_of ''fatal'' r, shut)))"

text \<open>The pools the driver made for the configuration.\<close>

definition opened_pools :: "('x, 'p) pgx \<Rightarrow> string \<Rightarrow> 32 word \<Rightarrow> 'p list" where
  "opened_pools X url max_conns =
    (case px_parse X url of
       Inl _ \<Rightarrow> []
     | Inr cfg \<Rightarrow> (case px_new X (pool_settings max_conns cfg) of Inl _ \<Rightarrow> [] | Inr p \<Rightarrow> [p]))"

lemma connect_pools:
  "connect X url n = (Inl e, shut) \<Longrightarrow> opened_pools X url n = shut"
  "connect X url n = (Inr p, shut) \<Longrightarrow> opened_pools X url n = [p] \<and> shut = []"
  by (auto simp: connect_def opened_pools_def split: sum.splits option.splits)

definition configured_pools :: "('x, 'p) pgx \<Rightarrow> config \<Rightarrow> 'p list" where
  "configured_pools X cfg =
    (if uses_database cfg
     then opened_pools X (cf_database_url cfg) (int32_of (cf_database_max_conns cfg)) else [])"

lemma open_store_pools:
  "open_store X cfg ck = (Inl e, shut) \<Longrightarrow> configured_pools X cfg = shut"
  "open_store X cfg ck = (Inr (choice, name, ck'), shut) \<Longrightarrow>
    configured_pools X cfg = shut @ pools_of choice"
  by (auto simp: open_store_def configured_pools_def dest: connect_pools
      split: if_splits prod.splits sum.splits)

lemma run_api_cases:
  assumes "registry_ok P" and "load L F env = (cfg, [])"
  shows "\<exists>err. run_api L F H P version env shutdown e
      = (Inr err, configured_pools (ho_pgx H) cfg)
    \<and> (case start_api L F H version env of
        Inl x \<Rightarrow> err = Some x | Inr api \<Rightarrow> err = finish_api shutdown cfg e)"
proof (cases "open_store (ho_pgx H) cfg (new_checker health_check_timeout)")
  case (Pair r shut)
  show ?thesis
  proof (cases r)
    case (Inl x)
    then have "start_api L F H version env = Inl x"
      using Pair by (simp add: start_api_def assms(2))
    with Inl Pair show ?thesis
      using open_store_pools(1) [of "ho_pgx H" cfg] new_never_panics [OF assms(1)]
      by (simp add: run_api_def assms(2))
  next
    case (Inr s)
    obtain choice name ck where s: "s = (choice, name, ck)" by (cases s)
    from Pair Inr s have "configured_pools (ho_pgx H) cfg = shut @ pools_of choice"
      using open_store_pools(2) by metis
    with Pair Inr s show ?thesis
      using new_never_panics [OF assms(1)]
      by (cases "start_api L F H version env") (simp_all add: run_api_def assms(2))
  qed
qed

lemma parse_flags_refused: "parse_flags args b = Flags_Refused n \<Longrightarrow> n = 0 \<or> n = 2"
  by (induction args b rule: parse_flags.induct)
     (auto simp: Let_def split: if_splits prod.splits option.splits)

text \<open>C31: The API process ends in an orderly way for every outcome of its arguments, environment,
  database and listener, under the documented rules of the metrics client: it never panics on its
  way up or down. Flags that are refused end it with the code of the package \<open>flag\<close>, 0 or 2; with
  \<open>-healthcheck\<close> it exits with 0 when the probe of the configured address succeeds, and otherwise with
  1 and the reason; neither touches a pool. Without the flag the exit code is 0 exactly when the
  service started and then was closed or drained without an error, otherwise it is 1 with the
  reason, and the pools that are closed by then are exactly those the driver made for the
  configuration, on every path.\<close>

theorem api_process_ends:
  assumes "registry_ok P"
    and "api_main L F H P client version args env shutdown e = (r, shut)"
  shows "(\<forall>p. r \<noteq> Crash p)
    \<and> (case parse_flags args False of
         Flags_Refused n \<Rightarrow> r = Usage n \<and> (n = 0 \<or> n = 2) \<and> shut = []
       | Healthcheck_Flag probe \<Rightarrow>
           (if probe
            then shut = []
              \<and> r = (case run_healthcheck client (healthcheck_address env) of
                     None \<Rightarrow> Exit 0 [] | Some why \<Rightarrow> Exit 1 (''unhealthy: '' @ why @ [CHR 0x0A]))
            else shut = (if snd (load L F env) = [] then configured_pools (ho_pgx H) (fst (load L F env)) else [])
              \<and> (if \<exists>api. start_api L F H version env = Inr api \<and> finish_api shutdown (api_config api) e = None
                 then r = Exit 0 [] else \<exists>why. r = Exit 1 (''fatal: '' @ why @ [CHR 0x0A]))))"
proof (cases "parse_flags args False = Healthcheck_Flag False")
  case False
  then show ?thesis
    using assms(2) parse_flags_refused [of args False]
    by (auto simp: api_main_def main_exit_def split: parsed_flags.splits bool.splits option.splits)
next
  case run: True
  obtain cfg errs where load: "load L F env = (cfg, errs)" by fastforce
  show ?thesis
  proof (cases "errs = []")
    case False
    then show ?thesis
      using run load assms(2)
      by (auto simp: api_main_def run_api_def start_api_def end_of_def main_exit_def)
  next
    case True
    with load have load0: "load L F env = (cfg, [])" by simp
    from run_api_cases [OF assms(1) load0, of H version shutdown e] obtain err where err:
      "run_api L F H P version env shutdown e = (Inr err, configured_pools (ho_pgx H) cfg)"
      "case start_api L F H version env of
         Inl x \<Rightarrow> err = Some x | Inr api \<Rightarrow> err = finish_api shutdown cfg e" by blast
    have same: "api_config api = cfg" if "start_api L F H version env = Inr api" for api
      using start_api_parts(2) [OF that] load0 by simp
    from err run load0 same assms(2) show ?thesis
      by (cases err; cases "start_api L F H version env")
         (auto simp: api_main_def end_of_def main_exit_def)
  qed
qed

text \<open>A client by the documented rules, and the argument of a container that checks itself.\<close>

definition demo_client :: prometheus_client where
  "demo_client =
    \<lparr>pr_takes = (\<lambda>reg c. if list_all desc_valid c \<and> distinct (map md_name (reg @ c)) then None
        else Some ''duplicate metrics collector registration attempted''),
     pr_go_collector = [metric_desc_of ''go_goroutines'' ''Number of goroutines.'' Gauge []],
     pr_process_collector = [metric_desc_of ''process_open_fds'' ''Number of open file descriptors.'' Gauge []]\<rparr>"

definition demo_probe :: http_client where
  "demo_probe = \<lparr>hc_new_request = (\<lambda>m url. None), hc_do = (\<lambda>m url. Inr (200, ''200 OK''))\<rparr>"

lemma demo_client_ok: "registry_ok demo_client"
  unfolding registry_ok_def demo_client_def
  by (simp add: metric_desc_of_def desc_valid_def) code_simp

theorem api_process_ends_witness:
  "snd (api_main ref_lib demo_fraction demo_host demo_client demo_probe ''dev'' [] database_environment
      (\<lambda>t. None) Signal_Received) = [''pool'']
    \<and> api_main ref_lib demo_fraction demo_host demo_client demo_probe ''dev'' [''-healthcheck'']
      database_environment (\<lambda>t. None) Signal_Received = (Exit 0 [], [])
    \<and> api_main ref_lib demo_fraction demo_host demo_client demo_probe ''dev'' [''-h'']
      database_environment (\<lambda>t. None) Signal_Received = (Usage 0, [])"
proof -
  let ?main = "\<lambda>args. api_main ref_lib demo_fraction demo_host demo_client demo_probe ''dev'' args
    database_environment (\<lambda>t. None) Signal_Received"
  have flags: "parse_flags [] False = Healthcheck_Flag False"
    "parse_flags [''-healthcheck''] False = Healthcheck_Flag True"
    "parse_flags [''-h''] False = Flags_Refused 0" by code_simp+
  have healthy: "run_healthcheck demo_probe (healthcheck_address database_environment) = None"
    by (simp add: run_healthcheck_def demo_probe_def)
  have pools: "configured_pools (ho_pgx demo_host) (fst (load ref_lib demo_fraction database_environment)) = [''pool'']"
    by (simp add: configured_pools_def load_database_environment opened_pools_def demo_host_def demo_pgx_def)
  have run: "?main args = (fst (?main args), snd (?main args))" for args by simp
  note ends = api_process_ends [OF demo_client_ok run]
  show ?thesis
    using ends [of "[]"] ends [of "[''-healthcheck'']"] ends [of "[''-h'']"] flags
    by (simp add: load_database_environment healthy pools prod_eq_iff del: parse_flags.simps)
qed

section \<open>The relay\<close>

text \<open>The line about the backlog at the start, when it could be counted.\<close>

definition backlog_at_startup :: "string option \<Rightarrow> outbox_row list \<Rightarrow> log_line list" where
  "backlog_at_startup count_error rows =
    (if count_error \<noteq> None then []
     else [\<lparr>lg_level = Level_Info, lg_msg = ''outbox backlog at startup'',
            lg_attrs = [(''pending'', show_nat (pending_count rows))]\<rparr>])"

text \<open>
  The routine that serves the relay's own metrics: it returns with the error of the listener, which
  is \<open>None\<close> when the server was shut down, and an error is logged and goes no further.
\<close>

definition metrics_listener :: "string \<Rightarrow> string option \<Rightarrow> log_line list" where
  "metrics_listener addr err =
    \<lparr>lg_level = Level_Info, lg_msg = ''relay metrics listening'', lg_attrs = [(''addr'', addr)]\<rparr> #
    (case err of None \<Rightarrow> []
     | Some e \<Rightarrow> [\<lparr>lg_level = Level_Error, lg_msg = ''relay metrics server stopped'', lg_attrs = [(''error'', e)]\<rparr>])"

text \<open>The pools a start that fails has closed.\<close>

definition failed_start_pools ::
  "('a) unicode_scheme \<Rightarrow> (nat \<Rightarrow> nat \<Rightarrow> nat \<Rightarrow> nat) \<Rightarrow> ('x, 'p) pgx \<Rightarrow> environment \<Rightarrow> 'p list" where
  "failed_start_pools U fraction_ns X env =
    (let (cfg, errs) = load U fraction_ns env in
     if errs = [] \<and> uses_database cfg
     then snd (connect X (cf_database_url cfg) (int32_of (cf_database_max_conns cfg))) else [])"

definition run_relay ::
  "('a) unicode_scheme \<Rightarrow> (nat \<Rightarrow> nat \<Rightarrow> nat \<Rightarrow> nat) \<Rightarrow> ('x, 'p) pgx \<Rightarrow> ('c) prometheus_client_scheme
    \<Rightarrow> string \<Rightarrow> environment \<Rightarrow> int \<Rightarrow> (nat \<Rightarrow> 'w turn) \<Rightarrow> nat \<Rightarrow> outbox_row list \<Rightarrow> 'w
    \<Rightarrow> ((panic + string option) \<times> 'p list \<times> outbox_row list \<times> 'w) option" where
  "run_relay U fraction_ns X P version env out_of_range turns fuel rows w =
    (case start_relay U fraction_ns X version env of
       Inl err \<Rightarrow> Some (Inr (Some err), failed_start_pools U fraction_ns X env, rows, w)
     | Inr rl \<Rightarrow>
         (case new_registered P of
            Inl p \<Rightarrow> Some (Inl p, [rl_pool rl], rows, w)
          | Inr _ \<Rightarrow>
              map_option (\<lambda>(rows1, w1, k). (Inr None, [rl_pool rl], rows1, w1))
                (run_loop (rl_options rl) out_of_range turns fuel 0 rows w)))"

definition relay_main ::
  "('a) unicode_scheme \<Rightarrow> (nat \<Rightarrow> nat \<Rightarrow> nat \<Rightarrow> nat) \<Rightarrow> ('x, 'p) pgx \<Rightarrow> ('c) prometheus_client_scheme
    \<Rightarrow> string \<Rightarrow> environment \<Rightarrow> int \<Rightarrow> (nat \<Rightarrow> 'w turn) \<Rightarrow> nat \<Rightarrow> outbox_row list \<Rightarrow> 'w
    \<Rightarrow> (process_end \<times> 'p list \<times> outbox_row list \<times> 'w) option" where
  "relay_main U fraction_ns X P version env out_of_range turns fuel rows w =
    map_option (\<lambda>(r, rest). (end_of ''fatal'' r, rest))
      (run_relay U fraction_ns X P version env out_of_range turns fuel rows w)"

text \<open>A relay that started exits with 0 once its context is cancelled, and its pool is closed.\<close>

lemma relay_process_ends:
  assumes "registry_ok P" and "start_relay U F X version env = Inr rl"
    and "pe_begin (tu_env (turns n)) = Some e" and "tu_cancelled (turns n)"
  shows "\<exists>rows' w'. relay_main U F X P version env x turns (Suc n) rows w
    = Some (Exit 0 [], [rl_pool rl], rows', w')"
proof -
  obtain rows' w' k where "run_loop (rl_options rl) x turns (Suc n) 0 rows w = Some (rows', w', k)"
    using run_loop_ends [of turns n e 0, OF assms(3,4) le0, of "rl_options rl" x rows w]
    unfolding minus_nat.diff_0 by blast
  then show ?thesis
    by (simp add: relay_main_def run_relay_def assms(2) new_never_panics [OF assms(1)] end_of_def
        main_exit_def del: run_loop.simps)
qed

text \<open>A relay that does not start says why, leaves the events alone and exits with 1.\<close>

lemma relay_start_fails:
  assumes "start_relay U F X version env = Inl err"
  shows "relay_main U F X P version env x turns fuel rows w
    = Some (Exit 1 (''fatal: '' @ err @ [CHR 0x0A]), failed_start_pools U F X env, rows, w)"
  by (simp add: relay_main_def run_relay_def assms end_of_def main_exit_def)

section \<open>The migrations\<close>

definition migrate_main ::
  "('a) unicode_scheme \<Rightarrow> (nat \<Rightarrow> nat \<Rightarrow> nat \<Rightarrow> nat) \<Rightarrow> 'g goose \<Rightarrow> environment \<Rightarrow> string list \<Rightarrow> 'g
    \<Rightarrow> process_end \<times> string \<times> 'g" where
  "migrate_main U fraction_ns G env args db =
    (let (err, out, db1) = run_migrate U fraction_ns G env args db in
     (main_exit ''migrate'' err, out, db1))"

text \<open>The migrations are reported as applied only when the engine applied them.\<close>

lemma migrations_applied:
  assumes "migrate_main U F G env args db = (Exit 0 [], ''migrations applied'' @ [CHR 0x0A], db1)"
  shows "gs_up G db = (None, db1)"
  using assms
  by (auto simp: migrate_main_def run_migrate_def main_exit_def migrate_def migration_status_def
      migrate_down_def over_database_def run_goose_def Let_def
      split: prod.splits if_splits option.splits list.splits)

end
