(* ===== verification/Spec2Isabelle.thy ===== *)
theory Spec2Isabelle
  imports Service_Props Relay_Loop Relay_Replicas Divergence
    Push_Progress Store_Refinement Schema Unstorable Wire_Postgres Contract Generated_Api Processes
begin

text \<open>
  Verification of a transaction ingest service for tolling: a Go service that accepts one
  billable transaction per request from a producing system, records it once, and publishes an
  event about it.

  \<^bold>\<open>The program and its parts.\<close> A push comes in over HTTP (\<open>internal/httpapi\<close>): the layers of
  \<open>middleware/\<close> give it an id, bound its body, log it, count it and catch its panics; the
  validator checks it against the contract; the handler maps it to the domain, and
  \<open>internal/transaction\<close> applies the rules of \<open>validate.go\<close> to it, with the amounts and
  currencies of \<open>internal/money\<close>, the identifiers of \<open>identity.go\<close> and the operator's types of
  \<open>types.go\<close>. An accepted transaction goes to a store, either \<open>internal/store/memory\<close> or
  \<open>internal/store/postgres\<close>, which keeps the first transaction of each idempotency key and
  recognises a replay, by its fingerprint (\<open>fingerprint.go\<close>) also one with other content. The
  database store writes an outbox event in the same database transaction; the relay, a process
  of its own (\<open>internal/outbox\<close>), claims the events, hands them to a publisher and records the
  outcome. \<open>internal/config\<close> and \<open>cmd/\<close> put the processes together, and \<open>internal/platform\<close>
  holds the metrics, the health checks and the logger.

  \<^bold>\<open>Theories.\<close>

  \<^item> \<open>Prelude\<close>, \<open>Go_Strings\<close>, \<open>Go_Time\<close>, \<open>Json\<close>: bytes, Go maps as association lists, the parts of
    \<open>strings\<close>, \<open>unicode/utf8\<close>, \<open>strconv\<close>, \<open>time\<close> and \<open>encoding/json\<close> the program uses.
  \<^item> \<open>Third_Party\<close>: the record \<open>lib\<close> of what the program takes from elsewhere (the decimals, the
    SHA-256 digest, the UUID text, the Unicode tables), the documented behaviour of the decimals
    (\<open>decimal_ok\<close>), and a concrete instance \<open>ref_lib\<close> for the witnesses.
  \<^item> \<open>Money\<close> (\<open>money.go\<close>, \<open>currency.go\<close>), \<open>Identity\<close>, \<open>Type_Set\<close>, \<open>Transaction\<close>, \<open>Rules\<close>
    (\<open>validate.go\<close>), \<open>Fingerprint\<close>: the domain, one theory for each file.
  \<^item> \<open>Json_Scan\<close>, \<open>Json_Text\<close>, \<open>Json_Decode\<close>, \<open>Go_Time_Parse\<close>: \<open>encoding/json\<close> and \<open>time\<close> the other way,
    from a text to the value, and that what was written is read back; \<open>Request_Decode\<close>: the body into
    the generated \<open>IngestRequest\<close>, by the tags of its fields; \<open>Request_Wire\<close>: bodies with the names of the
    contract are looked up, and an encoded request is read back.
  \<^item> \<open>Json_Unique\<close>, \<open>Go_Time_Unique\<close>, \<open>Fingerprint_Unique\<close>: a JSON text, and the text of a time,
    determine the value, so the fingerprint is the billable content; \<open>Divergence\<close>: what the flag
    of a replay says.
  \<^item> \<open>Store\<close>: the contract of a store as the locale \<open>transaction_store\<close>; \<open>Memory_Store\<close> and
    \<open>Postgres_Store\<close>, over the tables of \<open>Database\<close> and the event of \<open>Outbox\<close>, interpret it on
    the code's own operations. \<open>Concurrent_Pushes\<close>: pushes that run at the same time, statement by
    statement, and \<open>Push_Progress\<close>: they get done; \<open>Store_Refinement\<close>: the database store refines the
    one in memory; \<open>Schema\<close>: what the migrations create and drop; \<open>Unstorable\<close>: what the rules accept
    and the columns cannot hold.
  \<^item> \<open>Work_Queue\<close>: the contract of the outbox as a queue, a locale, interpreted in \<open>Relay\<close>
    (\<open>relay.go\<close>: claim, publish, mark, a pass), with the retry delays of \<open>Backoff\<close>;
    \<open>Relay_Props\<close> on sequences of passes, \<open>Relay_Replicas\<close> on several relays at once, and
    \<open>Relay_Loop\<close> on the endless loop of \<open>Run\<close>.
  \<^item> \<open>Labels\<close> and \<open>Metrics\<close> (\<open>platform/metrics\<close>) with their declarations in \<open>Metric_Registry\<close>,
    \<open>Health\<close>, \<open>Logging\<close>.
  \<^item> \<open>Http\<close>: requests, responses as the calls on a \<open>ResponseWriter\<close>, and the world a handler
    changes; \<open>Api_Error\<close>, \<open>Ingest_Handler\<close> (\<open>ingest.go\<close>, \<open>mapping.go\<close>) with \<open>Source_Labels\<close>
    (which sources its metrics take, and what it ends in when they do not), \<open>Validation\<close>, \<open>Middleware\<close>, \<open>Router\<close>, \<open>Generated_Api\<close> (the rest of \<open>gen/api.gen.go\<close>), and the properties of
    the handler (\<open>Ingest_Props\<close>), of the layers (\<open>Router_Props\<close>) and of the whole service
    (\<open>Service_Props\<close>); \<open>Wire_Props\<close>, \<open>Wire_Service\<close>, \<open>Wire_Postgres\<close> and \<open>Contract\<close> (the schema of
    \<open>api/openapi.yaml\<close>): the same from the bytes of the body on.
  \<^item> \<open>Config\<close>, \<open>Healthcheck\<close>, \<open>Commands\<close>: the configuration and how the three commands are put
    together; \<open>Processes\<close>: their \<open>main\<close>, from the arguments to the exit code.

  \<^bold>\<open>State and operations.\<close> A Go method that changes its receiver is a function that returns the
  new state; an error is the left side of a sum or an option; a panic is a value, so that what
  happens around it is a branch. The clock and the sources of randomness are a world \<open>'e\<close> that
  every call threads. What fails from outside in one database call, one relay pass or one
  request is a record of that call (\<open>ingest_env\<close>, \<open>pass_env\<close>): a refused begin, a failing
  statement, a commit whose acknowledgement is lost. The theorems hold for all of them.
  Concurrency is a choice of order: the in-memory store, the type set and the label set hold a
  lock for each step, so an execution is a sequence of steps; the label set, which holds two locks
  one after the other, is a step relation over threads; a readiness evaluation is a sequence of
  merges in any order; pushes to the database are the step relation \<open>push_step\<close>, in which an insert
  waits for the open transaction that holds its key; other relays show themselves to a pass as locked rows, and the step
  relation \<open>cluster_step\<close> interleaves the passes of any number of them.

  \<^bold>\<open>What the lemmas show.\<close> The rules accept exactly the submissions that meet a declarative
  predicate and report every failure (\<open>Rules\<close>); what is accepted satisfies an invariant on which
  the later parts rest. Both stores satisfy the one contract, from which first write wins,
  replays and durability follow; in the locale \<open>two_stores\<close> the one is shown to refine the other.
  Pushes that run at the same time never block each other for good. The outbox has one event for each transaction, and no event is
  lost or marked published before the publisher took it. Over HTTP, an accepted push is ingested
  once and answered by what the store said, or, under a source whose label the metrics refuse
  (\<open>countable_source\<close> is false), by the 500 of the recovered panic; nothing else changes the store,
  and every request is answered and accounted for once. A service that starts runs the router of
  the ingest server its environment configures. From the bytes of a body: what is decoded is well-formed, a body
  that meets the contract and spells its names as the contract does is decoded within its limits,
  and the encoding of a request ends up as its record. A configuration without problems meets what the rules and the
  stores assume of it, which is a hypothesis of some of their theorems. Some theorems state where
  the code falls short of what it says, each next to the conditions under which it holds.

  \<^bold>\<open>Bounds and fuel.\<close> Machine integers are words where the code's arithmetic can leave the
  mathematical ones (the currency exponent, the connections of the pool), and integers with the
  bound written out elsewhere (\<open>int64\<close> times and durations). Loops over data are structural
  recursions; \<open>runes\<close>, \<open>trim_left\<close>, \<open>collect_field_errors\<close> and \<open>ParseDuration\<close> have termination
  proofs. The scanner of JSON takes fuel, and \<open>scan_fuel\<close>, twice the length of the text and two, is
  enough: more fuel gives the same result (\<open>scan_fuel_enough\<close>). The loop of \<open>Run\<close> takes one unit of
  fuel a pass, and one more unit than there are passes until the context is cancelled is enough
  for it to return.

  \<^bold>\<open>Parameters and hypotheses.\<close> Not under the repository, so parameters: the decimals
  (hypothesis \<open>decimal_ok\<close>), the digest, pgx and the connection (records of outcomes), goose,
  the Prometheus client's check of label values (\<open>prometheus_ok\<close>: it refuses exactly what is not
  UTF-8) with its registry and runtime collectors (\<open>registry_ok\<close>: valid metrics with new names are
  taken), kin-openapi's check of a request (\<open>validator_reads\<close>: it reports the error of a body it
  cannot read), the publisher. Of the standard library, the floating-point parts are
  parameters: the conversion to an integer outside its range (\<open>conversion_ok\<close>), and the \<open>float64\<close>
  a JSON number becomes (\<open>floats_ok\<close>: it is written as a number that is read as the same
  \<open>float64\<close>). Each theorem with such a hypothesis has a witness on a concrete instance.

  \<^bold>\<open>Not modelled.\<close> The bytes of the embedded contract in \<open>api.gen.go\<close>, their codec and the loader of
  kin-openapi; the exposition of \<open>/metrics\<close>; the bytes \<open>log/slog\<close> writes, and the log lines of the
  relay; redirects of unclean paths by \<open>net/http\<close>; the listeners, signals and timeouts of the
  servers; indexes of the tables; \<open>db/migrations.go\<close>, which only embeds files; tests,
  documentation, deployment.
\<close>

end
